(* ===== verification/Prelude.thy ===== *)
theory Prelude
  imports
    Main
    "HOL-Library.Word"
    "HOL-Library.Finite_Map"
    "HOL-Library.Multiset"
    "HOL-Library.List_Lexorder"
    "HOL-Library.Char_ord"
    "HOL-Library.Product_Lexorder"
begin

section \<open>Shared vocabulary: Go values, iteration order, RPC errors\<close>

text \<open>
  What every component of the development shares.

  \<^item> Go strings are byte strings; they are \<open>string\<close> here, ordered bytewise by the
    library's lexicographic order, as Go's \<open><\<close> on strings is.
  \<^item> A Go map is a finite map.  The order in which \<open>range\<close> visits the keys of a map is not
    specified by the language, the order in which SQL delivers rows of equal sort key is not
    specified either, and goroutines that append to one slice do so in any order.  All three are
    the same thing: some permutation.  The function \<open>reorder\<close> turns a list of numbers (the
    choices of the runtime) into a permutation; every list of numbers gives one, and every
    permutation is given by some list of numbers (\<open>reorder_complete\<close>).  A model function with
    such a loop takes the choices as an argument, and a theorem that holds for all choices holds
    for every order.
  \<^item> The codes and the error value of gRPC, and decimal printing for error texts.
\<close>

named_theorems go_loops \<open>closed forms of the loops over Go maps\<close>

subsection \<open>Unspecified order\<close>

fun reorder :: "nat list \<Rightarrow> 'a list \<Rightarrow> 'a list" where
  "reorder _ [] = []"
| "reorder [] xs = xs"
| "reorder (i # is) xs =
     (let j = i mod length xs in xs ! j # reorder is (take j xs @ drop (Suc j) xs))"

lemma mset_take_nth_drop:
  assumes "j < length xs"
  shows "mset xs = add_mset (xs ! j) (mset (take j xs @ drop (Suc j) xs))"
proof -
  have "mset xs = mset (take j xs @ xs ! j # drop (Suc j) xs)"
    using assms by (simp add: id_take_nth_drop [symmetric])
  then show ?thesis by simp
qed

lemma mset_reorder [simp]: "mset (reorder is xs) = mset xs"
proof (induction "is" xs rule: reorder.induct)
  case (3 i "is" v va)
  let ?xs = "v # va"
  have "i mod length ?xs < length ?xs" by simp
  from mset_take_nth_drop [OF this] "3.IH" [OF refl] show ?case
    by (simp add: Let_def)
qed simp_all

lemma set_reorder [simp]: "set (reorder is xs) = set xs"
  by (metis mset_reorder set_mset_mset)

lemma length_reorder [simp]: "length (reorder is xs) = length xs"
  by (metis mset_reorder size_mset)

lemma distinct_reorder [simp]: "distinct (reorder is xs) = distinct xs"
  by (metis mset_reorder mset_eq_imp_distinct_iff)

lemma reorder_Nil_choice [simp]: "reorder [] xs = xs"
  by (cases xs) simp_all

text \<open>Every permutation is the effect of some choices: nothing is lost by taking choices.\<close>

lemma reorder_complete: "mset ys = mset xs \<Longrightarrow> \<exists>is. reorder is xs = ys"
proof (induction ys arbitrary: xs)
  case Nil
  then show ?case by simp
next
  case (Cons y ys)
  then have "y \<in> set xs" by (metis list.set_intros(1) mset_eq_setD)
  then obtain j where j: "j < length xs" "xs ! j = y" by (metis in_set_conv_nth)
  let ?zs = "take j xs @ drop (Suc j) xs"
  from Cons.prems mset_take_nth_drop [OF j(1)] j(2) have "mset ys = mset ?zs" by simp
  with Cons.IH obtain "is" where "reorder is ?zs = ys" by blast
  moreover obtain v va where "xs = v # va" using j by (cases xs) auto
  ultimately have "reorder (j # is) xs = y # ys" using j by (simp add: Let_def)
  then show ?case by blast
qed

subsection \<open>Ranging over a Go map\<close>

text \<open>
  The choices may depend on the set of keys, so two loops over different maps are ordered
  independently.
\<close>

type_synonym choice = "string list \<Rightarrow> nat list"

definition range_keys :: "choice \<Rightarrow> (string, 'v) fmap \<Rightarrow> string list" where
  "range_keys ch m = (let ks = sorted_list_of_fset (fmdom m) in reorder (ch ks) ks)"

lemma set_range_keys [simp]: "set (range_keys ch m) = fset (fmdom m)"
  by (simp add: range_keys_def Let_def)

lemma distinct_range_keys [simp]: "distinct (range_keys ch m)"
  by (simp add: range_keys_def Let_def sorted_list_of_fset.rep_eq)

lemma length_range_keys [simp]: "length (range_keys ch m) = fcard (fmdom m)"
  by (metis distinct_card distinct_range_keys fcard.rep_eq set_range_keys)

lemma range_keys_empty [simp]: "range_keys ch fmempty = []"
  by (simp add: range_keys_def sorted_list_of_fset.rep_eq)

lemma mset_range_keys: "mset (range_keys ch m) = mset (range_keys ch' m)"
  by (simp add: range_keys_def Let_def)

text \<open>Every order of the keys is a range order.\<close>

lemma range_keys_complete:
  assumes "distinct ks" "set ks = fset (fmdom m)"
  shows "\<exists>ch. range_keys ch m = ks"
proof -
  let ?s = "sorted_list_of_fset (fmdom m)"
  have "mset ks = mset ?s"
    using assms by (simp add: sorted_list_of_fset.rep_eq flip: set_eq_iff_mset_eq_distinct)
  then obtain "is" where "reorder is ?s = ks" using reorder_complete by blast
  then have "range_keys (\<lambda>_. is) m = ks" by (simp add: range_keys_def)
  then show ?thesis by blast
qed

text \<open>
  A loop that visits distinct keys and at each key changes at most the entry of that key:
  its effect, entry by entry, does not depend on the order.
\<close>

lemma fold_own_key:
  assumes step: "\<And>k acc x. fmlookup (f k acc) x = (if x = k then g k (fmlookup acc k) else fmlookup acc x)"
    and "distinct ks"
  shows "fmlookup (fold f ks acc) x = (if x \<in> set ks then g x (fmlookup acc x) else fmlookup acc x)"
  using assms(2)
proof (induction ks arbitrary: acc)
  case Nil
  then show ?case by simp
next
  case (Cons k ks)
  then show ?case by (auto simp: step)
qed

text \<open>The zero value of a missing key: Go's \<open>m[k]\<close> on a map of integers.\<close>

definition at_or :: "'v \<Rightarrow> ('k, 'v) fmap \<Rightarrow> 'k \<Rightarrow> 'v" where
  "at_or z m k = (case fmlookup m k of None \<Rightarrow> z | Some v \<Rightarrow> v)"

lemma at_or_upd [simp]: "at_or z (fmupd k v m) x = (if x = k then v else at_or z m x)"
  by (simp add: at_or_def)

lemma at_or_empty [simp]: "at_or z fmempty x = z"
  by (simp add: at_or_def)

lemma at_or_notin: "k |\<notin>| fmdom m \<Longrightarrow> at_or z m k = z"
  by (simp add: at_or_def fmdom_notD)

lemma fmlookup_at_or: "k |\<in>| fmdom m \<Longrightarrow> fmlookup m k = Some (at_or z m k)"
  by (auto simp: at_or_def fmlookup_dom_iff)

lemma fmdom_eq_empty [simp]: "fmdom m = {||} \<longleftrightarrow> m = fmempty"
  by (metis fmdom_empty fmrestrict_fset_dom fmrestrict_fset_null)

lemma fset_fmdom_empty [simp]: "fset (fmdom m) = {} \<longleftrightarrow> m = fmempty"
  by (metis bot_fset.rep_eq fmdom_eq_empty fset_inject)

lemma fcard_fmdom_zero [simp]: "fcard (fmdom m) = 0 \<longleftrightarrow> m = fmempty"
  by (simp add: fcard.rep_eq)

lemma fcard_fmdom_less [dest]: "n < fcard (fmdom m) \<Longrightarrow> m \<noteq> fmempty"
  by (metis fcard_fmdom_zero not_less_zero)

lemma fcard_fmdom_pos: "m \<noteq> fmempty \<Longrightarrow> 0 < fcard (fmdom m)"
  by (simp add: fcard.rep_eq card_gt_0_iff)

lemma fcard_fmdom_drop: "k |\<in>| fmdom m \<Longrightarrow> fcard (fmdom (fmdrop k m)) = fcard (fmdom m) - 1"
  by simp

lemma fmap_eqI: "(\<And>x. fmlookup m x = fmlookup n x) \<Longrightarrow> m = n"
  by (rule fmap_ext)

lemma set_map_filter: "set (List.map_filter f xs) = {y. \<exists>x \<in> set xs. f x = Some y}"
  by (induction xs) (auto split: option.splits)

text \<open>Sums over lists of the same keys do not depend on their order.\<close>

lemma sum_list_map_mset_cong:
  fixes f :: "'a \<Rightarrow> 'b::comm_monoid_add"
  shows "mset xs = mset ys \<Longrightarrow> sum_list (map f xs) = sum_list (map f ys)"
  by (metis mset_map sum_mset_sum_list)

lemma fold_plus_sum_list:
  fixes f :: "'a \<Rightarrow> 'b::comm_monoid_add"
  shows "fold (\<lambda>k s. s + f k) ks z = z + sum_list (map f ks)"
  by (induction ks arbitrary: z) (simp_all add: add.assoc)

subsection \<open>Joining strings\<close>

fun join :: "char \<Rightarrow> string list \<Rightarrow> string" where
  "join c [] = []"
| "join c [s] = s"
| "join c (s # t # ss) = s @ c # join c (t # ss)"

subsection \<open>gRPC errors\<close>

text \<open>The codes of \<open>google.golang.org/grpc/codes\<close>; an error carries a code and a message.\<close>

datatype code =
    OK | Canceled | Unknown | InvalidArgument | DeadlineExceeded | NotFound | AlreadyExists
  | PermissionDenied | ResourceExhausted | FailedPrecondition | Aborted | OutOfRange
  | Unimplemented | Internal | Unavailable | DataLoss | Unauthenticated

datatype rpc_error = RpcError (err_code: code) (err_msg: string)

type_synonym 'a rpc = "rpc_error + 'a"

text \<open>\<open>Code.String\<close> and the text of a status error.\<close>

fun code_String :: "code \<Rightarrow> string" where
  "code_String OK = ''OK''"
| "code_String Canceled = ''Canceled''"
| "code_String Unknown = ''Unknown''"
| "code_String InvalidArgument = ''InvalidArgument''"
| "code_String DeadlineExceeded = ''DeadlineExceeded''"
| "code_String NotFound = ''NotFound''"
| "code_String AlreadyExists = ''AlreadyExists''"
| "code_String PermissionDenied = ''PermissionDenied''"
| "code_String ResourceExhausted = ''ResourceExhausted''"
| "code_String FailedPrecondition = ''FailedPrecondition''"
| "code_String Aborted = ''Aborted''"
| "code_String OutOfRange = ''OutOfRange''"
| "code_String Unimplemented = ''Unimplemented''"
| "code_String Internal = ''Internal''"
| "code_String Unavailable = ''Unavailable''"
| "code_String DataLoss = ''DataLoss''"
| "code_String Unauthenticated = ''Unauthenticated''"

definition rpc_error_text :: "rpc_error \<Rightarrow> string" where
  "rpc_error_text e = ''rpc error: code = '' @ code_String (err_code e) @ '' desc = '' @ err_msg e"

subsection \<open>Durations as seconds\<close>

text \<open>
  \<open>Duration.Seconds()\<close> is a \<open>float64\<close> that the code only passes on for display; it is kept as the
  number of nanoseconds it was computed from.
\<close>

datatype seconds = Seconds (nanoseconds: int)

subsection \<open>Decimal printing, as in the error texts\<close>

fun show_nat :: "nat \<Rightarrow> string" where
  "show_nat n =
     (if n < 10 then [char_of (48 + n)] else show_nat (n div 10) @ [char_of (48 + n mod 10)])"

declare show_nat.simps [simp del]

definition show_int :: "int \<Rightarrow> string" where
  "show_int i = (if i < 0 then ''-'' @ show_nat (nat (- i)) else show_nat (nat i))"

lemma show_nat_nonempty [simp]: "show_nat n \<noteq> []"
  by (subst show_nat.simps) simp

text \<open>The one row with a key.\<close>

lemma filter_unique:
  "distinct (map f xs) \<Longrightarrow> x \<in> set xs \<Longrightarrow> filter (\<lambda>y. f y = f x) xs = [x]"
proof (induction xs)
  case (Cons a xs)
  then show ?case by (cases "x = a") (auto simp: filter_empty_conv image_iff)
qed simp

end
