(* ===== verification/Convergence.thy ===== *)
theory Convergence
  imports Prelude
begin

section \<open>The contract of a state-based replicated data type\<close>

text \<open>
  What the statemanager promises of a \<open>Merge\<close>: on valid states it is commutative, associative
  and idempotent.  The lemmas of the locale are what the rest of the program draws from it:
  states converge whatever the order and the repetition of the exchanges, and one push-pull
  exchange makes two replicas equal.  The locale is interpreted in \<open>Crdt\<close> on the G-Counter and on
  the bounded last-writer-wins map, and in \<open>StateSvc\<close> on the tables of counters and on the whole
  state of a replica.
\<close>

locale merge_laws =
  fixes merge :: "'s \<Rightarrow> 's \<Rightarrow> 's"
    and valid :: "'s \<Rightarrow> bool"
  assumes valid_merge: "valid a \<Longrightarrow> valid b \<Longrightarrow> valid (merge a b)"
    and merge_comm: "valid a \<Longrightarrow> valid b \<Longrightarrow> merge a b = merge b a"
    and merge_assoc: "valid a \<Longrightarrow> valid b \<Longrightarrow> valid c \<Longrightarrow> merge (merge a b) c = merge a (merge b c)"
    and merge_idem: "valid a \<Longrightarrow> merge a a = a"
begin

lemma merge_absorb: "valid a \<Longrightarrow> valid b \<Longrightarrow> merge (merge a b) b = merge a b"
  by (simp add: merge_assoc merge_idem)

text \<open>One push-pull exchange: \<open>b\<close> merges the state of \<open>a\<close>, and \<open>a\<close> merges the answer of \<open>b\<close>.\<close>

lemma push_pull_converges:
  assumes "valid a" "valid b"
  shows "merge a (merge b a) = merge b a"
proof -
  have "merge a (merge b a) = merge a (merge a b)" using assms by (simp add: merge_comm)
  also have "\<dots> = merge (merge a a) b" using assms by (simp add: merge_assoc)
  finally show ?thesis using assms by (simp add: merge_idem merge_comm)
qed

lemma valid_fold: "valid a \<Longrightarrow> \<forall>x \<in> set xs. valid x \<Longrightarrow> valid (fold (\<lambda>x s. merge s x) xs a)"
  by (induction xs arbitrary: a) (simp_all add: valid_merge)

lemma fold_merge_out:
  assumes "valid a" "valid b" "\<forall>x \<in> set xs. valid x"
  shows "fold (\<lambda>x s. merge s x) xs (merge a b) = merge a (fold (\<lambda>x s. merge s x) xs b)"
  using assms by (induction xs arbitrary: b) (simp_all add: merge_assoc valid_merge)

lemma fold_merge_known:
  assumes "valid a" "\<forall>x \<in> set xs. valid x" "y \<in> set xs"
  shows "merge (fold (\<lambda>x s. merge s x) xs a) y = fold (\<lambda>x s. merge s x) xs a"
  using assms
proof (induction xs arbitrary: a)
  case Nil
  then show ?case by simp
next
  case (Cons x xs)
  then have v: "valid (merge a x)" "valid x" "\<forall>x \<in> set xs. valid x" "valid y"
    by (auto simp: valid_merge)
  show ?case
  proof (cases "y \<in> set xs")
    case True
    with Cons.IH [OF v(1)] v show ?thesis by simp
  next
    case False
    with Cons.prems have [simp]: "y = x" by simp
    let ?f = "fold (\<lambda>x s. merge s x) xs"
    have "merge (?f (merge a x)) x = merge x (?f (merge a x))"
      using v valid_fold by (simp add: merge_comm)
    also have "\<dots> = ?f (merge x (merge a x))" using v fold_merge_out by simp
    also have "merge x (merge a x) = merge a x"
      using Cons.prems(1) v by (metis merge_absorb merge_comm)
    finally show ?thesis by simp
  qed
qed

text \<open>The least upper bound of the received states: order and repetition do not matter.\<close>

lemma fold_merge_insert:
  assumes "valid a" "\<forall>x \<in> set xs. valid x" "\<forall>y \<in> set ys. valid y" "set ys \<subseteq> set xs"
  shows "fold (\<lambda>x s. merge s x) ys (fold (\<lambda>x s. merge s x) xs a) = fold (\<lambda>x s. merge s x) xs a"
  using assms(3,4) by (induction ys) (simp_all add: fold_merge_known [OF assms(1,2)])

lemma fold_merge_swap:
  assumes "valid a" "\<forall>x \<in> set xs. valid x" "\<forall>y \<in> set ys. valid y"
  shows "fold (\<lambda>x s. merge s x) ys (fold (\<lambda>x s. merge s x) xs a)
       = fold (\<lambda>x s. merge s x) xs (fold (\<lambda>x s. merge s x) ys a)"
  using assms
proof (induction xs arbitrary: a)
  case Nil
  then show ?case by simp
next
  case (Cons x xs)
  then have v: "valid x" "valid (merge a x)" by (auto simp: valid_merge)
  let ?f = "\<lambda>x s. merge s x"
  have "fold ?f ys (merge a x) = fold ?f ys (merge x a)" using Cons.prems v by (simp add: merge_comm)
  also have "\<dots> = merge x (fold ?f ys a)" using Cons.prems v by (simp add: fold_merge_out)
  also have "\<dots> = merge (fold ?f ys a) x" using Cons.prems v valid_fold by (simp add: merge_comm)
  finally have "fold ?f ys (merge a x) = merge (fold ?f ys a) x" .
  then show ?case using Cons v by simp
qed

lemma converge_any_order:
  assumes "valid a" "\<forall>x \<in> set xs. valid x" "set xs = set ys"
  shows "fold (\<lambda>x s. merge s x) xs a = fold (\<lambda>x s. merge s x) ys a"
proof -
  let ?f = "\<lambda>x s. merge s x"
  have ys: "\<forall>y \<in> set ys. valid y" using assms by auto
  have "fold ?f xs a = fold ?f ys (fold ?f xs a)"
    using fold_merge_insert [OF assms(1,2) ys] assms(3) by simp
  also have "\<dots> = fold ?f xs (fold ?f ys a)" by (rule fold_merge_swap [OF assms(1,2) ys])
  also have "\<dots> = fold ?f ys a" using fold_merge_insert [OF assms(1) ys assms(2)] assms(3) by simp
  finally show ?thesis .
qed

end

text \<open>Two types merged side by side satisfy the contract when each does.\<close>

locale merge_pair = left: merge_laws merge1 valid1 + right: merge_laws merge2 valid2
  for merge1 :: "'a \<Rightarrow> 'a \<Rightarrow> 'a" and valid1 and merge2 :: "'b \<Rightarrow> 'b \<Rightarrow> 'b" and valid2

sublocale merge_pair \<subseteq> both: merge_laws
  "\<lambda>p q. (merge1 (fst p) (fst q), merge2 (snd p) (snd q))" "\<lambda>p. valid1 (fst p) \<and> valid2 (snd p)"
  by unfold_locales
    (auto simp: left.valid_merge right.valid_merge left.merge_assoc right.merge_assoc
      left.merge_idem right.merge_idem intro: left.merge_comm right.merge_comm)

end
