(* ===== verification/Crdt.thy ===== *)
theory Crdt
  imports Convergence
begin

section \<open>The replicated data types (internal/crdt)\<close>

text \<open>
  The grow-only counter and the bounded last-writer-wins map of \<open>src/internal/crdt/crdt.go\<close>.
  A counter is a finite map from replica names to 64-bit words, so \<open>Inc\<close> and \<open>Value\<close> wrap as
  \<open>uint64\<close> does.  Timestamps are only compared and are integers.  The limit of a map is a natural
  number: the only caller passes the constant 50, and a negative limit would make \<open>prune\<close> loop
  on the empty map.  Every loop over a Go map takes the choices of its order (see \<open>Prelude\<close>).

  Shown here: the pointwise form of \<open>Merge\<close>, the lattice laws of the counter on counters without
  zero shards (a shard that is present and zero is not copied by \<open>Merge\<close>, so the laws fail
  without that condition), that \<open>wins\<close> is the order of the stamps, that \<open>prune\<close> stops, respects
  the limit and drops only entries that are not newer than the ones kept, and that the bounded map
  is a lattice too when stamps identify events.
\<close>

subsection \<open>GCounter\<close>

type_synonym GCounter = "(string, 64 word) fmap"

definition NewGCounter :: GCounter where
  "NewGCounter = fmempty"

abbreviation shard :: "GCounter \<Rightarrow> string \<Rightarrow> 64 word" where
  "shard \<equiv> at_or 0"

definition GCounter_Inc :: "GCounter \<Rightarrow> string \<Rightarrow> GCounter" where
  "GCounter_Inc c replica = fmupd replica (shard c replica + 1) c"

definition GCounter_Value :: "choice \<Rightarrow> GCounter \<Rightarrow> 64 word" where
  "GCounter_Value ch c = fold (\<lambda>r sum. sum + shard c r) (range_keys ch c) 0"

definition GCounter_Merge :: "choice \<Rightarrow> GCounter \<Rightarrow> GCounter \<Rightarrow> GCounter" where
  "GCounter_Merge ch c other =
     fold (\<lambda>replica c. let v = shard other replica in
             if v > shard c replica then fmupd replica v c else c)
       (range_keys ch other) c"

definition GCounter_Clone :: "choice \<Rightarrow> GCounter \<Rightarrow> GCounter" where
  "GCounter_Clone ch c = fold (\<lambda>r out. fmupd r (shard c r) out) (range_keys ch c) fmempty"

text \<open>No shard is stored as zero; \<open>Inc\<close> keeps this as long as the shard does not wrap.\<close>

definition shards_pos :: "GCounter \<Rightarrow> bool" where
  "shards_pos c \<longleftrightarrow> fmpred (\<lambda>_ v. v \<noteq> 0) c"

subsection \<open>LWWMap\<close>

record LWWEntry =
  e_Status :: string
  e_Worker :: string
  e_TSUnixMS :: int
  e_Replica :: string

definition wins :: "LWWEntry \<Rightarrow> LWWEntry \<Rightarrow> bool" where
  "wins a b =
     (if e_TSUnixMS a \<noteq> e_TSUnixMS b then e_TSUnixMS a > e_TSUnixMS b
      else e_Replica a > e_Replica b)"

type_synonym entries = "(string, LWWEntry) fmap"

record LWWMap =
  lww_entries :: entries
  lww_limit :: nat

definition NewLWWMap :: "nat \<Rightarrow> LWWMap" where
  "NewLWWMap limit = \<lparr>lww_entries = fmempty, lww_limit = limit\<rparr>"

text \<open>The inner loop of \<open>prune\<close>: the variables \<open>oldestKey\<close>, \<open>oldest\<close> and \<open>first\<close>.\<close>

definition zero_LWWEntry :: LWWEntry where
  "zero_LWWEntry = \<lparr>e_Status = [], e_Worker = [], e_TSUnixMS = 0, e_Replica = []\<rparr>"

fun oldest_step :: "entries \<Rightarrow> string \<Rightarrow> string \<times> LWWEntry \<times> bool \<Rightarrow> string \<times> LWWEntry \<times> bool" where
  "oldest_step es k (oldestKey, oldest, first) =
     (case fmlookup es k of
        None \<Rightarrow> (oldestKey, oldest, first)
      | Some e \<Rightarrow> if first \<or> wins oldest e then (k, e, False) else (oldestKey, oldest, first))"

definition oldest_key :: "choice \<Rightarrow> entries \<Rightarrow> string" where
  "oldest_key ch es = fst (fold (oldest_step es) (range_keys ch es) ([], zero_LWWEntry, True))"

text \<open>The stamp of an entry; \<open>wins\<close> is the strict order of the stamps.\<close>

definition stamp :: "LWWEntry \<Rightarrow> int \<times> string" where
  "stamp e = (e_TSUnixMS e, e_Replica e)"

lemma wins_stamp: "wins a b \<longleftrightarrow> stamp b < stamp a"
  by (auto simp: wins_def stamp_def less_prod_def)

lemma oldest_step_False:
  assumes "set ks \<subseteq> fset (fmdom es)" "fmlookup es k0 = Some e0"
    and "fold (oldest_step es) ks (k0, e0, False) = (k1, e1, b)"
  shows "\<not> b \<and> fmlookup es k1 = Some e1 \<and> stamp e1 \<le> stamp e0
       \<and> (\<forall>k \<in> set ks. \<forall>e. fmlookup es k = Some e \<longrightarrow> stamp e1 \<le> stamp e)"
  using assms
proof (induction ks arbitrary: k0 e0)
  case Nil
  then show ?case by simp
next
  case (Cons k ks)
  then obtain e where e: "fmlookup es k = Some e"
    by (metis fmlookup_dom_iff list.set_intros(1) subsetD)
  show ?case
  proof (cases "wins e0 e")
    case True
    with Cons.prems e have "fold (oldest_step es) ks (k, e, False) = (k1, e1, b)" by simp
    with Cons.IH [of k e] Cons.prems e True show ?thesis by (auto simp: wins_stamp)
  next
    case False
    with Cons.prems e have "fold (oldest_step es) ks (k0, e0, False) = (k1, e1, b)" by simp
    with Cons.IH [of k0 e0] Cons.prems e False show ?thesis by (auto simp: wins_stamp)
  qed
qed

lemma oldest_key_oldest:
  assumes "es \<noteq> fmempty"
  obtains e where "fmlookup es (oldest_key ch es) = Some e"
    and "\<And>k e'. fmlookup es k = Some e' \<Longrightarrow> stamp e \<le> stamp e'"
proof -
  have "set (range_keys ch es) \<noteq> {}" using assms by simp
  then obtain k ks where ks: "range_keys ch es = k # ks" by (cases "range_keys ch es") auto
  then have sub: "insert k (set ks) = fset (fmdom es)" by (metis list.simps(15) set_range_keys)
  then obtain e where e: "fmlookup es k = Some e" by (metis fmlookup_dom_iff insertI1)
  obtain k1 e1 b where f: "fold (oldest_step es) ks (k, e, False) = (k1, e1, b)"
    by (metis prod_cases3)
  have o: "oldest_key ch es = k1" using ks e f by (simp add: oldest_key_def)
  have min: "fmlookup es k1 = Some e1" "stamp e1 \<le> stamp e"
      "\<And>k e. k \<in> set ks \<Longrightarrow> fmlookup es k = Some e \<Longrightarrow> stamp e1 \<le> stamp e"
    using oldest_step_False [OF _ e f] sub by auto
  have "fmlookup es (oldest_key ch es) = Some e1" using min o by simp
  moreover have "stamp e1 \<le> stamp e'" if "fmlookup es k' = Some e'" for k' e'
  proof -
    have "k' \<in> insert k (set ks)" using that sub by (metis fmlookup_dom_iff)
    then show ?thesis using min that e by auto
  qed
  ultimately show ?thesis using that by blast
qed

lemma oldest_key_in_dom: "es \<noteq> fmempty \<Longrightarrow> oldest_key ch es |\<in>| fmdom es"
  by (metis oldest_key_oldest fmdomI)

text \<open>The outer loop of \<open>prune\<close>: each round deletes one entry, so it stops.\<close>

function LWWMap_prune :: "choice \<Rightarrow> nat \<Rightarrow> entries \<Rightarrow> entries" where
  "LWWMap_prune ch limit es =
     (if fcard (fmdom es) > limit then LWWMap_prune ch limit (fmdrop (oldest_key ch es) es) else es)"
  by pat_completeness auto
termination
proof (relation "measure (\<lambda>(ch, limit, es). fcard (fmdom es))", goal_cases)
  case (2 ch limit es)
  then have "es \<noteq> fmempty" by (rule fcard_fmdom_less)
  then show ?case
    using fcard_fmdom_pos [of es] by (simp add: fcard_fmdom_drop oldest_key_in_dom del: fmdom_drop)
qed simp

declare LWWMap_prune.simps [simp del]

definition LWWMap_Set :: "choice \<Rightarrow> LWWMap \<Rightarrow> string \<Rightarrow> LWWEntry \<Rightarrow> LWWMap" where
  "LWWMap_Set ch m key e =
     (case fmlookup (lww_entries m) key of
        Some cur \<Rightarrow> if \<not> wins e cur then m
          else m\<lparr>lww_entries := LWWMap_prune ch (lww_limit m) (fmupd key e (lww_entries m))\<rparr>
      | None \<Rightarrow> m\<lparr>lww_entries := LWWMap_prune ch (lww_limit m) (fmupd key e (lww_entries m))\<rparr>)"

text \<open>The body of the loop in \<open>Merge\<close>, with its \<open>continue\<close>.\<close>

definition lww_take :: "entries \<Rightarrow> string \<Rightarrow> entries \<Rightarrow> entries" where
  "lww_take other key es =
     (case fmlookup other key of
        None \<Rightarrow> es
      | Some e \<Rightarrow>
          (case fmlookup es key of
             Some cur \<Rightarrow> if \<not> wins e cur then es else fmupd key e es
           | None \<Rightarrow> fmupd key e es))"

definition lww_join :: "choice \<Rightarrow> entries \<Rightarrow> entries \<Rightarrow> entries" where
  "lww_join ch es other = fold (lww_take other) (range_keys ch other) es"

definition LWWMap_Merge :: "choice \<Rightarrow> LWWMap \<Rightarrow> entries \<Rightarrow> LWWMap" where
  "LWWMap_Merge ch m other =
     m\<lparr>lww_entries := LWWMap_prune ch (lww_limit m) (lww_join ch (lww_entries m) other)\<rparr>"

definition LWWMap_Entries :: "choice \<Rightarrow> LWWMap \<Rightarrow> entries" where
  "LWWMap_Entries ch m =
     fold (\<lambda>k out. case fmlookup (lww_entries m) k of None \<Rightarrow> out | Some v \<Rightarrow> fmupd k v out)
       (range_keys ch (lww_entries m)) fmempty"

subsection \<open>What the counter operations compute\<close>

lemma fmlookup_GCounter_Merge [go_loops]:
  "fmlookup (GCounter_Merge ch c other) x =
     (if shard c x < shard other x then Some (shard other x) else fmlookup c x)"
proof -
  have "fmlookup (GCounter_Merge ch c other) x =
     (if x \<in> set (range_keys ch other)
      then (if (case fmlookup c x of None \<Rightarrow> 0 | Some v \<Rightarrow> v) < shard other x
            then Some (shard other x) else fmlookup c x)
      else fmlookup c x)"
    unfolding GCounter_Merge_def by (rule fold_own_key) (auto simp: Let_def at_or_def)
  then show ?thesis by (auto simp: at_or_notin) (auto simp: at_or_def)
qed

lemma shard_GCounter_Merge [simp]:
  "shard (GCounter_Merge ch c other) x = max (shard c x) (shard other x)"
  by (simp add: at_or_def [of _ "GCounter_Merge ch c other"] fmlookup_GCounter_Merge max_def)
    (auto simp: at_or_def)

lemma GCounter_Clone_id [simp]: "GCounter_Clone ch c = c"
proof (rule fmap_eqI)
  fix x
  have "fmlookup (GCounter_Clone ch c) x =
     (if x \<in> set (range_keys ch c) then Some (shard c x) else fmlookup fmempty x)"
    unfolding GCounter_Clone_def by (rule fold_own_key) auto
  then show "fmlookup (GCounter_Clone ch c) x = fmlookup c x"
    by (auto simp: fmlookup_at_or [of x c 0] fmdom_notD)
qed

lemma GCounter_Value_sum:
  "GCounter_Value ch c = (\<Sum>r \<in> fset (fmdom c). shard c r)"
  unfolding GCounter_Value_def fold_plus_sum_list
  by (simp add: sum_list_distinct_conv_sum_set)

lemma GCounter_Value_Inc: "GCounter_Value ch (GCounter_Inc c r) = GCounter_Value ch' c + 1"
proof -
  have *: "(\<Sum>k \<in> fset (fmdom c) - {r}. shard (GCounter_Inc c r) k) = (\<Sum>k \<in> fset (fmdom c) - {r}. shard c k)"
    by (rule sum.cong) (auto simp: GCounter_Inc_def)
  have "GCounter_Value ch (GCounter_Inc c r)
      = shard c r + 1 + (\<Sum>k \<in> fset (fmdom c) - {r}. shard c k)"
    unfolding GCounter_Value_sum * [symmetric]
    by (simp add: GCounter_Inc_def sum.insert_remove)
  moreover have "GCounter_Value ch' c = shard c r + (\<Sum>k \<in> fset (fmdom c) - {r}. shard c k)"
    by (cases "r |\<in>| fmdom c") (simp_all add: GCounter_Value_sum sum.remove at_or_notin)
  ultimately show ?thesis by (simp add: algebra_simps)
qed

lemma shards_pos_iff: "shards_pos c \<longleftrightarrow> (\<forall>r. fmlookup c r \<noteq> Some 0)"
  by (auto simp: shards_pos_def fmpred_iff)

lemma shards_pos_lookup: "shards_pos c \<Longrightarrow> fmlookup c r = (if shard c r = 0 then None else Some (shard c r))"
  by (auto simp: shards_pos_iff at_or_def split: option.splits)

lemma shards_pos_eqI:
  "shards_pos a \<Longrightarrow> shards_pos b \<Longrightarrow> (\<And>r. shard a r = shard b r) \<Longrightarrow> a = b"
  by (rule fmap_eqI) (simp add: shards_pos_lookup)

lemma shards_pos_empty [simp]: "shards_pos fmempty"
  by (simp add: shards_pos_iff)

lemma shards_pos_Inc: "shards_pos c \<Longrightarrow> shard c r + 1 \<noteq> 0 \<Longrightarrow> shards_pos (GCounter_Inc c r)"
  by (auto simp: shards_pos_iff GCounter_Inc_def)

lemma shards_pos_Merge: "shards_pos a \<Longrightarrow> shards_pos (GCounter_Merge ch a b)"
  by (auto simp: shards_pos_iff fmlookup_GCounter_Merge)

subsection \<open>What pruning keeps\<close>

lemma prune_unfold:
  "limit < fcard (fmdom es) \<Longrightarrow>
     LWWMap_prune ch limit es = LWWMap_prune ch limit (fmdrop (oldest_key ch es) es)"
  "\<not> limit < fcard (fmdom es) \<Longrightarrow> LWWMap_prune ch limit es = es"
  by (subst LWWMap_prune.simps, simp)+

lemma fcard_drop_oldest:
  "limit < fcard (fmdom es) \<Longrightarrow> fcard (fmdom (fmdrop (oldest_key ch es) es)) = fcard (fmdom es) - 1"
  by (simp add: fcard_fmdom_drop oldest_key_in_dom fcard_fmdom_less del: fmdom_drop)

lemma fcard_prune: "fcard (fmdom (LWWMap_prune ch limit es)) = min limit (fcard (fmdom es))"
proof (induction ch limit es rule: LWWMap_prune.induct)
  case (1 ch limit es)
  show ?case
  proof (cases "limit < fcard (fmdom es)")
    case True
    with "1.IH" show ?thesis by (simp add: prune_unfold fcard_drop_oldest del: fmdom_drop)
  qed (simp add: prune_unfold)
qed

lemma prune_lookup: "fmlookup (LWWMap_prune ch limit es) k = Some e \<Longrightarrow> fmlookup es k = Some e"
proof (induction ch limit es rule: LWWMap_prune.induct)
  case (1 ch limit es)
  then show ?case
    by (cases "limit < fcard (fmdom es)") (auto simp: prune_unfold split: if_splits)
qed

lemma prune_drops_oldest:
  assumes "fmlookup (LWWMap_prune ch limit es) k = Some e"
    and "fmlookup es k' = Some e'" "fmlookup (LWWMap_prune ch limit es) k' = None"
  shows "stamp e' \<le> stamp e"
  using assms
proof (induction ch limit es rule: LWWMap_prune.induct)
  case (1 ch limit es)
  show ?case
  proof (cases "limit < fcard (fmdom es)")
    case False
    with 1 show ?thesis by (simp add: prune_unfold)
  next
    case True
    let ?o = "oldest_key ch es"
    from True "1.prems" have p: "fmlookup (LWWMap_prune ch limit (fmdrop ?o es)) k = Some e"
        "fmlookup (LWWMap_prune ch limit (fmdrop ?o es)) k' = None"
      by (simp_all add: prune_unfold)
    show ?thesis
    proof (cases "k' = ?o")
      case False
      with "1.IH" [OF True p(1) _ p(2)] "1.prems" show ?thesis by simp
    next
      case k': True
      from prune_lookup [OF p(1)] have "fmlookup es k = Some e" by (simp split: if_splits)
      with k' "1.prems"(2) show ?thesis
        using oldest_key_oldest [of es ch] fcard_fmdom_less [OF True] by (metis option.inject)
    qed
  qed
qed

subsection \<open>Stamps that identify events: the bounded map as the newest entries\<close>

text \<open>
  An event log \<open>U\<close> says which event carries a stamp.  A map agrees with \<open>U\<close> when each of its
  entries is the event of its stamp: no two events share a stamp.  Then the pruned map is
  determined: an entry is kept iff fewer than \<open>limit\<close> entries are newer.
\<close>

type_synonym event_log = "int \<times> string \<Rightarrow> (string \<times> LWWEntry) option"

definition agrees :: "event_log \<Rightarrow> entries \<Rightarrow> bool" where
  "agrees U es \<longleftrightarrow> fmpred (\<lambda>k e. U (stamp e) = Some (k, e)) es"

definition newer :: "entries \<Rightarrow> int \<times> string \<Rightarrow> string fset" where
  "newer es s = ffilter (\<lambda>k. case fmlookup es k of None \<Rightarrow> False | Some e \<Rightarrow> s < stamp e) (fmdom es)"

definition newest :: "nat \<Rightarrow> entries \<Rightarrow> entries" where
  "newest limit es =
     fmfilter (\<lambda>k. case fmlookup es k of None \<Rightarrow> False | Some e \<Rightarrow> fcard (newer es (stamp e)) < limit) es"

lemma agreesD: "agrees U es \<Longrightarrow> fmlookup es k = Some e \<Longrightarrow> U (stamp e) = Some (k, e)"
  by (auto simp: agrees_def)

lemma agreesI: "(\<And>k e. fmlookup es k = Some e \<Longrightarrow> U (stamp e) = Some (k, e)) \<Longrightarrow> agrees U es"
  by (auto simp: agrees_def fmpred_iff)

lemma agrees_stamp_inj:
  assumes "agrees U es" "agrees U es'" "fmlookup es k = Some e" "fmlookup es' k' = Some e'"
    and "stamp e = stamp e'"
  shows "k = k' \<and> e = e'"
  using assms agreesD by (metis option.inject prod.inject)

lemma newer_iff [simp]: "k |\<in>| newer es s \<longleftrightarrow> (\<exists>e. fmlookup es k = Some e \<and> s < stamp e)"
  by (auto simp: newer_def fmlookup_dom_iff split: option.splits)

lemma newest_lookup [simp]:
  "fmlookup (newest limit es) k = Some e \<longleftrightarrow>
     fmlookup es k = Some e \<and> fcard (newer es (stamp e)) < limit"
  by (auto simp: newest_def split: option.splits)

lemma newer_subset: "newer es s |\<subseteq>| fmdom es"
  by (auto simp: newer_def)

lemma newer_less: "fmlookup es k = Some e \<Longrightarrow> fcard (newer es (stamp e)) < fcard (fmdom es)"
proof (rule pfsubset_fcard_mono)
  assume e: "fmlookup es k = Some e"
  then have "k |\<in>| fmdom es" "k |\<notin>| newer es (stamp e)" by (auto intro: fmdomI)
  then show "newer es (stamp e) |\<subset>| fmdom es" using newer_subset by blast
qed

lemma newest_all: "fcard (fmdom es) \<le> limit \<Longrightarrow> newest limit es = es"
proof (rule fmap_eqI)
  fix k assume le: "fcard (fmdom es) \<le> limit"
  show "fmlookup (newest limit es) k = fmlookup es k"
  proof (cases "fmlookup es k")
    case (Some e)
    with le newer_less [OF Some] show ?thesis by simp
  next
    case None
    then show ?thesis by (metis newest_lookup not_None_eq)
  qed
qed

lemma newer_drop_oldest:
  assumes "limit < fcard (fmdom es)" "fmlookup es k = Some e"
  shows "newer (fmdrop (oldest_key ch es) es) (stamp e) = newer es (stamp e)"
proof -
  obtain e0 where "fmlookup es (oldest_key ch es) = Some e0"
    and "\<And>k e'. fmlookup es k = Some e' \<Longrightarrow> stamp e0 \<le> stamp e'"
    using oldest_key_oldest fcard_fmdom_less [OF assms(1)] by metis
  with assms(2) show ?thesis by (intro fset_eqI) (force simp: not_less)
qed

lemma newer_oldest:
  assumes "agrees U es" "limit < fcard (fmdom es)" "fmlookup es (oldest_key ch es) = Some e0"
  shows "limit \<le> fcard (newer es (stamp e0))"
proof -
  let ?o = "oldest_key ch es"
  have min: "stamp e0 \<le> stamp e" if "fmlookup es k = Some e" for k e
    using oldest_key_oldest [of es ch] fcard_fmdom_less [OF assms(2)] assms(3) that
    by (metis option.inject)
  have "k |\<in>| newer es (stamp e0)" if "k \<noteq> ?o" "fmlookup es k = Some e" for k e
    using agrees_stamp_inj [OF assms(1,1,3) that(2)] min [OF that(2)] that
    by (auto simp: order_less_le)
  moreover have "?o |\<notin>| newer es (stamp e0)" using assms(3) by simp
  ultimately have "newer es (stamp e0) = fmdom (fmdrop ?o es)"
    using newer_subset [of es "stamp e0"] by (intro fset_eqI) (auto simp: fmlookup_dom_iff)
  then show ?thesis using assms(2) by (simp add: fcard_drop_oldest del: fmdom_drop)
qed

lemma agrees_drop: "agrees U es \<Longrightarrow> agrees U (fmdrop k es)"
  by (rule agreesI) (auto dest: agreesD split: if_splits)

lemma newest_drop_oldest:
  assumes "agrees U es" "limit < fcard (fmdom es)"
  shows "newest limit (fmdrop (oldest_key ch es) es) = newest limit es"
proof (rule fmap_eqI)
  fix k
  have "fmlookup (newest limit (fmdrop (oldest_key ch es) es)) k = Some e
    \<longleftrightarrow> fmlookup (newest limit es) k = Some e" for e
    using newer_drop_oldest [OF assms(2), of k e ch] newer_oldest [OF assms, of ch e] by auto
  then show "fmlookup (newest limit (fmdrop (oldest_key ch es) es)) k = fmlookup (newest limit es) k"
    by (metis not_None_eq)
qed

lemma prune_newest: "agrees U es \<Longrightarrow> LWWMap_prune ch limit es = newest limit es"
proof (induction ch limit es rule: LWWMap_prune.induct)
  case (1 ch limit es)
  show ?case
  proof (cases "limit < fcard (fmdom es)")
    case True
    with 1 show ?thesis by (simp add: prune_unfold newest_drop_oldest agrees_drop)
  qed (simp add: prune_unfold newest_all)
qed

lemma fcard_newest: "agrees U es \<Longrightarrow> fcard (fmdom (newest limit es)) = min limit (fcard (fmdom es))"
  using fcard_prune prune_newest by metis

lemma agrees_newest: "agrees U es \<Longrightarrow> agrees U (newest limit es)"
  by (rule agreesI) (auto dest: agreesD)

subsection \<open>The join of two maps\<close>

lemma fmlookup_lww_join [go_loops]:
  "fmlookup (lww_join ch es other) x =
     (case fmlookup other x of
        None \<Rightarrow> fmlookup es x
      | Some e \<Rightarrow> (case fmlookup es x of
           None \<Rightarrow> Some e
         | Some cur \<Rightarrow> if wins e cur then Some e else Some cur))"
proof -
  have "fmlookup (lww_join ch es other) x =
     (if x \<in> set (range_keys ch other) then
        (case fmlookup other x of
          None \<Rightarrow> fmlookup es x
        | Some e \<Rightarrow> (case fmlookup es x of
             None \<Rightarrow> Some e
           | Some cur \<Rightarrow> if wins e cur then Some e else Some cur))
      else fmlookup es x)"
    unfolding lww_join_def
    by (rule fold_own_key) (auto simp: lww_take_def split: option.splits)
  then show ?thesis by (auto simp: fmdom_notD split: option.splits)
qed

lemma LWWMap_Entries_id [simp]: "LWWMap_Entries ch m = lww_entries m"
proof (rule fmap_eqI)
  fix x
  have "fmlookup (LWWMap_Entries ch m) x =
     (if x \<in> set (range_keys ch (lww_entries m)) then
        (case fmlookup (lww_entries m) x of None \<Rightarrow> fmlookup fmempty x | Some v \<Rightarrow> Some v)
      else fmlookup fmempty x)"
    unfolding LWWMap_Entries_def by (rule fold_own_key) (auto split: option.splits)
  then show "fmlookup (LWWMap_Entries ch m) x = fmlookup (lww_entries m) x"
    by (auto simp: fmdom_notD split: option.splits)
qed

text \<open>\<open>Set\<close> is the merge of one entry, on a map that is within its limit.\<close>

lemma lww_join_single: "lww_join ch es (fmupd key e fmempty) =
   (case fmlookup es key of Some cur \<Rightarrow> if wins e cur then fmupd key e es else es | None \<Rightarrow> fmupd key e es)"
  by (rule fmap_eqI) (auto simp: fmlookup_lww_join split: option.splits)

lemma LWWMap_Set_Merge:
  "fcard (fmdom (lww_entries m)) \<le> lww_limit m \<Longrightarrow>
     LWWMap_Set ch m key e = LWWMap_Merge ch m (fmupd key e fmempty)"
  by (auto simp: LWWMap_Set_def LWWMap_Merge_def lww_join_single prune_unfold split: option.splits)

subsection \<open>Pruning does not disturb the join\<close>

lemma agrees_join: "agrees U a \<Longrightarrow> agrees U b \<Longrightarrow> agrees U (lww_join ch a b)"
  by (rule agreesI) (auto simp: fmlookup_lww_join dest: agreesD split: option.splits if_splits)

lemma newer_mono:
  assumes "\<And>k e. fmlookup a k = Some e \<Longrightarrow> \<exists>e'. fmlookup b k = Some e' \<and> stamp e \<le> stamp e'"
    and "s' \<le> s"
  shows "newer a s |\<subseteq>| newer b s'"
proof
  fix k assume "k |\<in>| newer a s"
  then obtain e where "fmlookup a k = Some e" "s < stamp e" by auto
  with assms(1) [OF this(1)] assms(2) show "k |\<in>| newer b s'" by auto
qed

lemma join_upper_left:
  "fmlookup a k = Some e \<Longrightarrow> \<exists>e'. fmlookup (lww_join ch a b) k = Some e' \<and> stamp e \<le> stamp e'"
  by (auto simp: fmlookup_lww_join wins_stamp split: option.splits)

lemma join_newest_below:
  "fmlookup (lww_join ch (newest L a) c) k = Some e \<Longrightarrow>
     \<exists>e'. fmlookup (lww_join ch a c) k = Some e' \<and> stamp e \<le> stamp e'"
  using newest_lookup [of L a k]
  by (force simp: fmlookup_lww_join wins_stamp split: option.splits if_splits)

lemma join_newest_keeps:
  assumes "fmlookup (lww_join ch a c) k = Some e" "fcard (newer (lww_join ch a c) (stamp e)) < L"
  shows "fmlookup (lww_join ch (newest L a) c) k = Some e"
proof -
  have "newer a (stamp e) |\<subseteq>| newer (lww_join ch a c) (stamp e)"
    by (rule newer_mono [OF join_upper_left order_refl])
  then have "fcard (newer a (stamp e)) < L"
    using assms(2) by (meson fcard_mono le_less_trans)
  then have "fmlookup a k = Some e \<Longrightarrow> fmlookup (newest L a) k = Some e" by simp
  moreover have "fmlookup (newest L a) k \<noteq> None \<Longrightarrow> fmlookup (newest L a) k = fmlookup a k"
    by (metis newest_lookup not_None_eq)
  ultimately show ?thesis using assms(1)
    by (cases "fmlookup a k"; cases "fmlookup c k"; cases "fmlookup (newest L a) k")
      (auto simp: fmlookup_lww_join split: if_splits)
qed

lemma newest_full:
  assumes "agrees U j" "fmlookup j k = Some e" "L \<le> fcard (newer j (stamp e))"
  shows "L = fcard (fmdom (newest L j))"
    and "k1 |\<in>| fmdom (newest L j) \<Longrightarrow>
      \<exists>e1. fmlookup j k1 = Some e1 \<and> stamp e < stamp e1 \<and> fcard (newer j (stamp e1)) < L"
proof -
  have "L \<le> fcard (fmdom j)" using assms(3) fcard_mono [OF newer_subset] by (meson le_trans)
  then show "L = fcard (fmdom (newest L j))" using fcard_newest [OF assms(1)] by simp
next
  assume "k1 |\<in>| fmdom (newest L j)"
  then obtain e1 where e1: "fmlookup j k1 = Some e1" "fcard (newer j (stamp e1)) < L"
    by (auto simp: fmlookup_dom_iff)
  have "stamp e < stamp e1"
  proof (rule ccontr)
    assume "\<not> stamp e < stamp e1"
    then have "newer j (stamp e) |\<subseteq>| newer j (stamp e1)" by (intro newer_mono) auto
    then show False using assms(3) e1(2) fcard_mono by fastforce
  qed
  with e1 show "\<exists>e1. fmlookup j k1 = Some e1 \<and> stamp e < stamp e1 \<and> fcard (newer j (stamp e1)) < L"
    by blast
qed

lemma newest_join_left:
  assumes "agrees U a" "agrees U c"
  shows "newest L (lww_join ch (newest L a) c) = newest L (lww_join ch a c)"
proof (rule fmap_eqI)
  let ?j = "lww_join ch a c" and ?j' = "lww_join ch (newest L a) c"
  fix k
  have agr: "agrees U ?j" using assms by (rule agrees_join)
  have sub: "newer ?j' s |\<subseteq>| newer ?j s" for s
    by (rule newer_mono [OF join_newest_below order_refl])
  have less: "fmlookup (newest L ?j) k = Some e'" if h: "fmlookup (newest L ?j') k = Some e'" for e'
  proof -
    from h obtain e where e: "fmlookup ?j k = Some e" "stamp e' \<le> stamp e"
      using join_newest_below by fastforce
    show ?thesis
    proof (cases "fcard (newer ?j (stamp e)) < L")
      case True
      with join_newest_keeps [OF e(1) True] h e show ?thesis by simp
    next
      case False
      then have full: "L \<le> fcard (newer ?j (stamp e))" by simp
      have "fmdom (newest L ?j) |\<subseteq>| newer ?j' (stamp e')"
      proof
        fix k1 assume "k1 |\<in>| fmdom (newest L ?j)"
        with newest_full(2) [OF agr e(1) full] obtain e1 where
          "fmlookup ?j k1 = Some e1" "stamp e < stamp e1" "fcard (newer ?j (stamp e1)) < L" by blast
        with join_newest_keeps e(2) show "k1 |\<in>| newer ?j' (stamp e')" by force
      qed
      then have "L \<le> fcard (newer ?j' (stamp e'))"
        using newest_full(1) [OF agr e(1) full] fcard_mono by fastforce
      with h show ?thesis by simp
    qed
  qed
  have forth: "fmlookup (newest L ?j') k = Some e" if "fmlookup (newest L ?j) k = Some e" for e
  proof -
    have "fcard (newer ?j' (stamp e)) < L"
      using that fcard_mono [OF sub [of "stamp e"]] by (auto intro: le_less_trans)
    then show ?thesis using that join_newest_keeps by auto
  qed
  show "fmlookup (newest L ?j') k = fmlookup (newest L ?j) k"
    using less forth by (metis not_None_eq)
qed

lemma lww_join_comm: "agrees U a \<Longrightarrow> agrees U b \<Longrightarrow> lww_join ch a b = lww_join ch' b a"
  by (rule fmap_eqI)
    (auto simp: fmlookup_lww_join wins_stamp dest: agrees_stamp_inj split: option.splits)

lemma lww_join_assoc:
  "lww_join ch (lww_join ch a b) c = lww_join ch a (lww_join ch b c)"
  by (rule fmap_eqI) (auto simp: fmlookup_lww_join wins_stamp split: option.splits)

lemma lww_join_idem: "lww_join ch a a = a"
  by (rule fmap_eqI) (auto simp: fmlookup_lww_join wins_stamp split: option.splits)

lemma lww_join_choice: "lww_join ch a b = lww_join ch' a b"
  by (rule fmap_eqI) (simp add: fmlookup_lww_join)

subsection \<open>The contracts, discharged\<close>

lemma GCounter_Merge_choice: "GCounter_Merge ch a b = GCounter_Merge ch' a b"
  by (rule fmap_eqI) (simp add: fmlookup_GCounter_Merge)

interpretation gc: merge_laws "GCounter_Merge ch" shards_pos for ch
proof
  fix a b c :: GCounter
  assume "shards_pos a" "shards_pos b" "shards_pos c"
  then show "GCounter_Merge ch (GCounter_Merge ch a b) c = GCounter_Merge ch a (GCounter_Merge ch b c)"
    by (auto intro!: shards_pos_eqI shards_pos_Merge simp: max.assoc)
qed (auto intro!: shards_pos_eqI shards_pos_Merge simp: max.commute)

text \<open>
  The bounded map: maps of one limit, within it, that agree with the event log.  A merge takes the
  entries of the other map, as \<open>Merge(other.Entries())\<close> does.
\<close>

definition lww_valid :: "event_log \<Rightarrow> nat \<Rightarrow> LWWMap \<Rightarrow> bool" where
  "lww_valid U L m \<longleftrightarrow>
     lww_limit m = L \<and> fcard (fmdom (lww_entries m)) \<le> L \<and> agrees U (lww_entries m)"

definition LWWMap_sync :: "choice \<Rightarrow> LWWMap \<Rightarrow> LWWMap \<Rightarrow> LWWMap" where
  "LWWMap_sync ch a b = LWWMap_Merge ch a (LWWMap_Entries ch b)"

lemma LWWMap_sync_newest:
  assumes "lww_valid U L a" "agrees U (lww_entries b)"
  shows "LWWMap_sync ch a b
       = \<lparr>lww_entries = newest L (lww_join ch (lww_entries a) (lww_entries b)), lww_limit = L\<rparr>"
  using assms prune_newest [of U] agrees_join [of U]
  by (simp add: LWWMap_sync_def LWWMap_Merge_def lww_valid_def LWWMap.equality)

lemma lww_valid_newest: "agrees U es \<Longrightarrow> lww_valid U L \<lparr>lww_entries = newest L es, lww_limit = L\<rparr>"
  by (simp add: lww_valid_def fcard_newest agrees_newest)

lemma lww_valid_sync:
  "lww_valid U L a \<Longrightarrow> agrees U (lww_entries b) \<Longrightarrow> lww_valid U L (LWWMap_sync ch a b)"
  using LWWMap_sync_newest [of U L a b ch] lww_valid_newest agrees_join
  by (metis lww_valid_def)

interpretation lww: merge_laws "LWWMap_sync ch" "lww_valid U L" for ch U L
proof
  fix a b c :: LWWMap
  assume v: "lww_valid U L a" "lww_valid U L b"
  then have agr: "agrees U (lww_entries a)" "agrees U (lww_entries b)" by (simp_all add: lww_valid_def)
  show "lww_valid U L (LWWMap_sync ch a b)" using v agr by (simp add: lww_valid_sync)
  show "LWWMap_sync ch a b = LWWMap_sync ch b a"
    using v agr lww_join_comm [OF agr, of ch ch] by (simp add: LWWMap_sync_newest [of U L])
  assume c: "lww_valid U L c"
  let ?e = lww_entries and ?j = "lww_join ch"
  have agr3: "agrees U (?e c)" using c by (simp add: lww_valid_def)
  have l: "newest L (?j (newest L (?j (?e a) (?e b))) (?e c)) = newest L (?j (?j (?e a) (?e b)) (?e c))"
    using agr agr3 by (intro newest_join_left [of U]) (simp_all add: agrees_join)
  have "newest L (?j (newest L (?j (?e b) (?e c))) (?e a)) = newest L (?j (?j (?e b) (?e c)) (?e a))"
    using agr agr3 by (intro newest_join_left [of U]) (simp_all add: agrees_join)
  moreover have "?j (newest L (?j (?e b) (?e c))) (?e a) = ?j (?e a) (newest L (?j (?e b) (?e c)))"
    using agr agr3 by (intro lww_join_comm [of U]) (simp_all add: agrees_join agrees_newest)
  moreover have "?j (?j (?e b) (?e c)) (?e a) = ?j (?j (?e a) (?e b)) (?e c)"
    using agr agr3 by (metis agrees_join lww_join_assoc lww_join_comm)
  ultimately have r: "newest L (?j (?e a) (newest L (?j (?e b) (?e c)))) = newest L (?j (?j (?e a) (?e b)) (?e c))"
    by simp
  show "LWWMap_sync ch (LWWMap_sync ch a b) c = LWWMap_sync ch a (LWWMap_sync ch b c)"
    using v c agr agr3 l r
    by (simp add: LWWMap_sync_newest [of U L] lww_valid_newest agrees_join agrees_newest)
next
  fix a :: LWWMap
  assume "lww_valid U L a"
  then show "LWWMap_sync ch a a = a"
    using LWWMap_sync_newest [of U L a a ch]
    by (simp add: lww_valid_def lww_join_idem newest_all LWWMap.equality)
qed

subsection \<open>The properties\<close>

text \<open>
  C9 On counters without zero shards \<open>GCounter.Merge\<close> is commutative, associative and idempotent,
  whatever the order in which each of the loops visits its map, and it is the shard-wise maximum.
\<close>

theorem GCounter_Merge_lattice:
  assumes "shards_pos a" "shards_pos b" "shards_pos c"
  shows "GCounter_Merge ch1 a b = GCounter_Merge ch2 b a
       \<and> GCounter_Merge ch1 (GCounter_Merge ch2 a b) c = GCounter_Merge ch3 a (GCounter_Merge ch4 b c)
       \<and> GCounter_Merge ch1 a a = a
       \<and> shard (GCounter_Merge ch1 a b) r = max (shard a r) (shard b r)"
  using gc.merge_comm [OF assms(1,2)] gc.merge_assoc [OF assms] gc.merge_idem [OF assms(1)]
    GCounter_Merge_choice shard_GCounter_Merge by metis

theorem GCounter_Merge_lattice_witness:
  "GCounter_Merge (\<lambda>_. []) (fmupd ''a'' 1 (fmupd ''b'' 5 fmempty)) (fmupd ''a'' 3 fmempty)
   = GCounter_Merge (\<lambda>_. [1]) (fmupd ''a'' 3 fmempty) (fmupd ''a'' 1 (fmupd ''b'' 5 fmempty))"
proof -
  have "shards_pos (fmupd ''a'' 1 (fmupd ''b'' 5 fmempty))" "shards_pos (fmupd ''a'' 3 fmempty)"
    by (auto simp: shards_pos_iff)
  from GCounter_Merge_lattice [OF this this(2)] show ?thesis by blast
qed

text \<open>
  C10 \<open>prune\<close> always stops with exactly \<open>min limit n\<close> of the \<open>n\<close> entries, leaves each of them as it
  was, and never drops an entry that wins over one it keeps.
\<close>

theorem LWWMap_prune_keeps_newest:
  "fcard (fmdom (LWWMap_prune ch limit es)) = min limit (fcard (fmdom es))
   \<and> (\<forall>k e. fmlookup (LWWMap_prune ch limit es) k = Some e \<longrightarrow> fmlookup es k = Some e)
   \<and> (\<forall>k e k' e'. fmlookup (LWWMap_prune ch limit es) k = Some e \<longrightarrow> fmlookup es k' = Some e' \<longrightarrow>
        fmlookup (LWWMap_prune ch limit es) k' = None \<longrightarrow> \<not> wins e' e)"
  unfolding wins_stamp not_less
  by (intro conjI allI impI) (rule fcard_prune, erule prune_lookup, erule (2) prune_drops_oldest)

definition ex_entry :: "int \<Rightarrow> LWWEntry" where
  "ex_entry ts = \<lparr>e_Status = ''succeeded'', e_Worker = ''worker-1'', e_TSUnixMS = ts, e_Replica = ''sm-1''\<rparr>"

theorem LWWMap_prune_keeps_newest_witness:
  "LWWMap_prune (\<lambda>_. [1]) 1 (fmupd ''j1'' (ex_entry 100) (fmupd ''j2'' (ex_entry 200) fmempty))
     = fmupd ''j2'' (ex_entry 200) fmempty
   \<and> \<not> wins (ex_entry 100) (ex_entry 200)"
proof -
  let ?es = "fmupd ''j1'' (ex_entry 100) (fmupd ''j2'' (ex_entry 200) fmempty)"
  have p: "LWWMap_prune (\<lambda>_. [1]) 1 ?es = fmupd ''j2'' (ex_entry 200) fmempty" by code_simp
  have "fmlookup (LWWMap_prune (\<lambda>_. [1]) 1 ?es) ''j2'' = Some (ex_entry 200)"
      "fmlookup ?es ''j1'' = Some (ex_entry 100)"
      "fmlookup (LWWMap_prune (\<lambda>_. [1]) 1 ?es) ''j1'' = None"
    unfolding p by simp_all
  with LWWMap_prune_keeps_newest [of "\<lambda>_. [1]" 1 ?es] p show ?thesis by blast
qed

text \<open>
  C8 Convergence of the bounded last-writer-wins map: when no two events share a stamp, a replica
  that merges the same set of maps, in any order and with any repetition, ends with the same map,
  although every merge prunes.
\<close>

theorem LWWMap_converges_any_order:
  assumes "lww_valid U L m" "\<forall>x \<in> set xs. lww_valid U L x" "set xs = set ys"
  shows "fold (\<lambda>x s. LWWMap_Merge ch s (LWWMap_Entries ch x)) xs m
       = fold (\<lambda>x s. LWWMap_Merge ch s (LWWMap_Entries ch x)) ys m"
  using lww.converge_any_order [OF assms, of ch] by (simp add: LWWMap_sync_def)

definition ex_map :: "string \<Rightarrow> int \<Rightarrow> LWWMap" where
  "ex_map k ts = \<lparr>lww_entries = fmupd k (ex_entry ts) fmempty, lww_limit = 1\<rparr>"

theorem LWWMap_converges_any_order_witness:
  "fold (\<lambda>x s. LWWMap_Merge (\<lambda>_. []) s (LWWMap_Entries (\<lambda>_. []) x)) [ex_map ''j1'' 100, ex_map ''j2'' 200, ex_map ''j1'' 100] (NewLWWMap 1)
   = fold (\<lambda>x s. LWWMap_Merge (\<lambda>_. []) s (LWWMap_Entries (\<lambda>_. []) x)) [ex_map ''j2'' 200, ex_map ''j1'' 100] (NewLWWMap 1)"
proof -
  let ?U = "(\<lambda>_. None)(stamp (ex_entry 100) \<mapsto> (''j1'', ex_entry 100), stamp (ex_entry 200) \<mapsto> (''j2'', ex_entry 200))"
  have "lww_valid ?U 1 (NewLWWMap 1)" "lww_valid ?U 1 (ex_map ''j1'' 100)" "lww_valid ?U 1 (ex_map ''j2'' 200)"
    by (auto simp: lww_valid_def NewLWWMap_def ex_map_def stamp_def ex_entry_def fcard.rep_eq
        intro!: agreesI split: if_splits)
  then show ?thesis by (intro LWWMap_converges_any_order [of ?U 1]) auto
qed

text \<open>
  Two entries of one replica in the same millisecond have the same stamp, neither wins, and the
  order in which \<open>prune\<close> happens to visit the map decides which of them is dropped.
\<close>

lemma prune_order_dependent:
  "\<exists>ch ch' es. LWWMap_prune ch 1 es \<noteq> LWWMap_prune ch' 1 es"
proof -
  let ?es = "fmupd ''j1'' (ex_entry 100) (fmupd ''j2'' (ex_entry 100) fmempty)"
  have "LWWMap_prune (\<lambda>_. []) 1 ?es \<noteq> LWWMap_prune (\<lambda>_. [1]) 1 ?es" by code_simp
  then show ?thesis by blast
qed

end
