(* ===== verification/StateSvc.thy ===== *)
theory StateSvc
  imports Crdt
begin

section \<open>The statemanager replica (internal/statesvc, internal/statereport)\<close>

text \<open>
  One statemanager replica: its tables of counters, its window of recent outcomes, and the RPCs
  that change them (\<open>src/internal/statesvc/statesvc.go\<close>), with the worker's outcome reporter
  (\<open>src/internal/statereport/statereport.go\<close>).  A handler maps the server's state and the request
  to the answer and the new state; \<open>time.Now\<close> is an argument.  Each handler body runs under the
  server's mutex, so it is one step.  The messages of \<open>state.proto\<close> are records of their own and
  are converted as the code converts them.
\<close>

subsection \<open>Messages and state\<close>

record GCounterState =
  gs_shards :: GCounter

record PLWWEntry =
  p_Status :: string
  p_Worker :: string
  p_TsUnixMs :: int
  p_Replica :: string

record CRDTState =
  cs_ByStatus :: "(string, GCounterState) fmap"
  cs_ByWorker :: "(string, GCounterState) fmap"
  cs_Recent :: "(string, PLWWEntry) fmap"

record ReportJobEventRequest =
  rj_JobId :: string
  rj_Worker :: string
  rj_Outcome :: string

type_synonym counters = "(string, GCounter) fmap"

record StateServer =
  sm_replica :: string
  sm_gossipOn :: bool
  sm_byStatus :: counters
  sm_byWorker :: counters
  sm_recent :: LWWMap

definition recentLimit :: nat where
  "recentLimit = 50"

definition OutcomeSucceeded :: string where
  "OutcomeSucceeded = ''succeeded''"

definition OutcomeFailed :: string where
  "OutcomeFailed = ''failed''"

definition StateServer_New :: "string \<Rightarrow> StateServer" where
  "StateServer_New replica =
     \<lparr>sm_replica = replica, sm_gossipOn = True, sm_byStatus = fmempty, sm_byWorker = fmempty,
      sm_recent = NewLWWMap recentLimit\<rparr>"

subsection \<open>The helpers that run under the lock\<close>

text \<open>\<open>counterLocked\<close> returns the counter of a key, creating it in the table when it is absent.\<close>

definition counterLocked :: "counters \<Rightarrow> string \<Rightarrow> GCounter \<times> counters" where
  "counterLocked m key =
     (case fmlookup m key of
        Some c \<Rightarrow> (c, m)
      | None \<Rightarrow> (NewGCounter, fmupd key NewGCounter m))"

text \<open>The counter is a reference: an operation on it changes the table at that key.\<close>

definition on_counter :: "(GCounter \<Rightarrow> GCounter) \<Rightarrow> counters \<Rightarrow> string \<Rightarrow> counters" where
  "on_counter f m key = (let (c, m') = counterLocked m key in fmupd key (f c) m')"

definition mergeCounters :: "choice \<Rightarrow> counters \<Rightarrow> (string, GCounterState) fmap \<Rightarrow> counters" where
  "mergeCounters ch dst src =
     fold (\<lambda>key dst. case fmlookup src key of
             None \<Rightarrow> dst
           | Some remote \<Rightarrow> on_counter (\<lambda>c. GCounter_Merge ch c (gs_shards remote)) dst key)
       (range_keys ch src) dst"

definition entry_of_proto :: "PLWWEntry \<Rightarrow> LWWEntry" where
  "entry_of_proto e =
     \<lparr>e_Status = p_Status e, e_Worker = p_Worker e, e_TSUnixMS = p_TsUnixMs e, e_Replica = p_Replica e\<rparr>"

definition entry_to_proto :: "LWWEntry \<Rightarrow> PLWWEntry" where
  "entry_to_proto e =
     \<lparr>p_Status = e_Status e, p_Worker = e_Worker e, p_TsUnixMs = e_TSUnixMS e, p_Replica = e_Replica e\<rparr>"

text \<open>The conversion loops \<open>for id, e := range \<dots> { out[id] = \<dots> }\<close>.\<close>

definition convert_map :: "choice \<Rightarrow> ('a \<Rightarrow> 'b) \<Rightarrow> (string, 'a) fmap \<Rightarrow> (string, 'b) fmap" where
  "convert_map ch f m =
     fold (\<lambda>k out. case fmlookup m k of None \<Rightarrow> out | Some v \<Rightarrow> fmupd k (f v) out) (range_keys ch m) fmempty"

definition mergeLocked :: "choice \<Rightarrow> StateServer \<Rightarrow> CRDTState option \<Rightarrow> StateServer" where
  "mergeLocked ch s state =
     (case state of
        None \<Rightarrow> s
      | Some st \<Rightarrow>
          s\<lparr>sm_byStatus := mergeCounters ch (sm_byStatus s) (cs_ByStatus st),
            sm_byWorker := mergeCounters ch (sm_byWorker s) (cs_ByWorker st),
            sm_recent := LWWMap_Merge ch (sm_recent s) (convert_map ch entry_of_proto (cs_Recent st))\<rparr>)"

definition countersToProto :: "choice \<Rightarrow> counters \<Rightarrow> (string, GCounterState) fmap" where
  "countersToProto ch m = convert_map ch (\<lambda>c. \<lparr>gs_shards = GCounter_Clone ch c\<rparr>) m"

definition snapshotLocked :: "choice \<Rightarrow> StateServer \<Rightarrow> CRDTState" where
  "snapshotLocked ch s =
     \<lparr>cs_ByStatus = countersToProto ch (sm_byStatus s),
      cs_ByWorker = countersToProto ch (sm_byWorker s),
      cs_Recent = convert_map ch entry_to_proto (LWWMap_Entries ch (sm_recent s))\<rparr>"

subsection \<open>The RPCs\<close>

definition quoted :: "string \<Rightarrow> string" where
  "quoted s = ''\"'' @ s @ ''\"''"

definition ReportJobEvent :: "choice \<Rightarrow> int \<Rightarrow> StateServer \<Rightarrow> ReportJobEventRequest \<Rightarrow> unit rpc \<times> StateServer" where
  "ReportJobEvent ch now s req =
     (if rj_JobId req = [] \<or> rj_Worker req = [] then
        (Inl (RpcError InvalidArgument ''job_id and worker are required''), s)
      else if rj_Outcome req \<noteq> OutcomeSucceeded \<and> rj_Outcome req \<noteq> OutcomeFailed then
        (Inl (RpcError InvalidArgument
           (''outcome must be '' @ quoted OutcomeSucceeded @ '' or '' @ quoted OutcomeFailed)), s)
      else
        (Inr (),
         s\<lparr>sm_byStatus := on_counter (\<lambda>c. GCounter_Inc c (sm_replica s)) (sm_byStatus s) (rj_Outcome req),
           sm_byWorker := on_counter (\<lambda>c. GCounter_Inc c (sm_replica s)) (sm_byWorker s) (rj_Worker req),
           sm_recent := LWWMap_Set ch (sm_recent s) (rj_JobId req)
             \<lparr>e_Status = rj_Outcome req, e_Worker = rj_Worker req, e_TSUnixMS = now,
              e_Replica = sm_replica s\<rparr>\<rparr>))"

definition SyncState :: "choice \<Rightarrow> StateServer \<Rightarrow> CRDTState option \<Rightarrow> CRDTState rpc \<times> StateServer" where
  "SyncState ch s state =
     (if \<not> sm_gossipOn s then
        (Inl (RpcError Unavailable ''gossip disabled (simulated partition)''), s)
      else let s' = mergeLocked ch s state in (Inr (snapshotLocked ch s'), s'))"

record GetCRDTStateResponse =
  gc_State :: CRDTState
  gc_GossipEnabled :: bool
  gc_Replica :: string

definition GetCRDTState :: "choice \<Rightarrow> StateServer \<Rightarrow> GetCRDTStateResponse" where
  "GetCRDTState ch s =
     \<lparr>gc_State = snapshotLocked ch s, gc_GossipEnabled = sm_gossipOn s, gc_Replica = sm_replica s\<rparr>"

definition SetGossip :: "StateServer \<Rightarrow> bool \<Rightarrow> bool rpc \<times> StateServer" where
  "SetGossip s enabled = (Inr enabled, s\<lparr>sm_gossipOn := enabled\<rparr>)"

text \<open>
  The reporter of a worker (\<open>statereport.Client.ReportJobEvent\<close>): the outcome string is derived
  from the flag, and the answer of the call is only logged.  \<open>send\<close> is the RPC to the replica.
\<close>

definition Reporter_ReportJobEvent ::
    "(ReportJobEventRequest \<Rightarrow> 'w \<Rightarrow> unit rpc \<times> 'w) \<Rightarrow> string \<Rightarrow> string \<Rightarrow> bool \<Rightarrow> 'w \<Rightarrow> 'w" where
  "Reporter_ReportJobEvent send jobID worker succeeded w =
     (let outcome = (if \<not> succeeded then OutcomeFailed else OutcomeSucceeded)
      in snd (send \<lparr>rj_JobId = jobID, rj_Worker = worker, rj_Outcome = outcome\<rparr> w))"

text \<open>\<open>statereport.New\<close>: the client of the one replica a worker reports to.\<close>

definition Reporter_New :: "(string \<Rightarrow> string + 'c) \<Rightarrow> string \<Rightarrow> string + 'c" where
  "Reporter_New dial addr =
     (case dial addr of
        Inl e \<Rightarrow> Inl (''statereport: client for '' @ addr @ '': '' @ e)
      | Inr client \<Rightarrow> Inr client)"

subsection \<open>The gossip loop\<close>

text \<open>The peers that \<open>RunGossip\<close> dials: every configured name but the replica's own, sorted.\<close>

definition gossip_names :: "choice \<Rightarrow> string \<Rightarrow> (string, string) fmap \<Rightarrow> string list" where
  "gossip_names ch replica peers = sort (filter (\<lambda>name. name \<noteq> replica) (range_keys ch peers))"

text \<open>
  One tick of the loop on the replica \<open>s\<close>.  \<open>sync p own w\<close> is the RPC to peer \<open>p\<close> in the world
  \<open>w\<close> of the other replicas; a failed exchange is skipped.
\<close>

fun gossip_peers ::
    "choice \<Rightarrow> (string \<Rightarrow> CRDTState \<Rightarrow> 'w \<Rightarrow> CRDTState rpc \<times> 'w) \<Rightarrow> string list \<Rightarrow> StateServer \<times> 'w \<Rightarrow> StateServer \<times> 'w" where
  "gossip_peers ch sync [] (s, w) = (s, w)"
| "gossip_peers ch sync (p # ps) (s, w) =
     (case sync p (snapshotLocked ch s) w of
        (Inl err, w') \<Rightarrow> gossip_peers ch sync ps (s, w')
      | (Inr resp, w') \<Rightarrow> gossip_peers ch sync ps (mergeLocked ch s (Some resp), w'))"

definition gossip_tick ::
    "choice \<Rightarrow> (string \<Rightarrow> CRDTState \<Rightarrow> 'w \<Rightarrow> CRDTState rpc \<times> 'w) \<Rightarrow> string list \<Rightarrow> StateServer \<times> 'w \<Rightarrow> StateServer \<times> 'w" where
  "gossip_tick ch sync ps sw = (if \<not> sm_gossipOn (fst sw) then sw else gossip_peers ch sync ps sw)"

subsection \<open>What the helpers compute\<close>

lemma fmlookup_convert_map [simp]: "fmlookup (convert_map ch f m) x = map_option f (fmlookup m x)"
proof -
  have "fmlookup (convert_map ch f m) x =
     (if x \<in> set (range_keys ch m)
      then (case fmlookup m x of None \<Rightarrow> fmlookup fmempty x | Some v \<Rightarrow> Some (f v))
      else fmlookup fmempty x)"
    unfolding convert_map_def by (rule fold_own_key) (auto split: option.splits)
  then show ?thesis by (auto simp: fmdom_notD split: option.splits)
qed

lemma entry_proto_inverse [simp]: "entry_of_proto (entry_to_proto e) = e"
  by (simp add: entry_of_proto_def entry_to_proto_def)

lemma convert_map_entries [simp]:
  "convert_map ch entry_of_proto (convert_map ch' entry_to_proto es) = es"
  by (rule fmap_eqI) (simp add: option.map_comp comp_def option.map_ident)

lemma fmlookup_on_counter:
  "fmlookup (on_counter f m key) x =
     (if x = key then Some (f (at_or NewGCounter m key)) else fmlookup m x)"
  by (auto simp: on_counter_def counterLocked_def at_or_def split: option.splits)

text \<open>A table of counters seen as a two-dimensional table of shards.\<close>

definition cell :: "counters \<Rightarrow> string \<Rightarrow> string \<Rightarrow> 64 word" where
  "cell m key r = shard (at_or NewGCounter m key) r"

lemma fmlookup_mergeCounters:
  "fmlookup (mergeCounters ch dst src) x =
     (case fmlookup src x of
        None \<Rightarrow> fmlookup dst x
      | Some remote \<Rightarrow> Some (GCounter_Merge ch (at_or NewGCounter dst x) (gs_shards remote)))"
proof -
  have "fmlookup (mergeCounters ch dst src) x =
     (if x \<in> set (range_keys ch src)
      then (case fmlookup src x of
          None \<Rightarrow> fmlookup dst x
        | Some remote \<Rightarrow>
            Some (GCounter_Merge ch (case fmlookup dst x of None \<Rightarrow> NewGCounter | Some c \<Rightarrow> c) (gs_shards remote)))
      else fmlookup dst x)"
    unfolding mergeCounters_def
    by (rule fold_own_key) (auto simp: fmlookup_on_counter at_or_def split: option.splits)
  then show ?thesis by (auto simp: fmdom_notD at_or_def split: option.splits)
qed

lemma fmlookup_countersToProto [simp]:
  "fmlookup (countersToProto ch m) x = map_option (\<lambda>c. \<lparr>gs_shards = c\<rparr>) (fmlookup m x)"
  by (simp add: countersToProto_def)

lemma cell_empty [simp]: "cell fmempty k r = 0"
  by (simp add: cell_def NewGCounter_def)

lemma cell_on_counter_Inc:
  "cell (on_counter (\<lambda>c. GCounter_Inc c r0) m key) k r =
     (if k = key \<and> r = r0 then cell m k r + 1 else cell m k r)"
  by (auto simp: cell_def at_or_def [of NewGCounter "on_counter _ _ _"] fmlookup_on_counter GCounter_Inc_def)
    (auto simp: at_or_def)

lemma cell_mergeCounters:
  "cell (mergeCounters ch dst src) k r =
     max (cell dst k r) (case fmlookup src k of None \<Rightarrow> 0 | Some c \<Rightarrow> shard (gs_shards c) r)"
  by (auto simp: cell_def at_or_def [of NewGCounter "mergeCounters _ _ _"] fmlookup_mergeCounters
      split: option.splits) (auto simp: at_or_def)

subsection \<open>The contracts, discharged\<close>

definition counters_pos :: "counters \<Rightarrow> bool" where
  "counters_pos m \<longleftrightarrow> fmpred (\<lambda>_ c. shards_pos c) m"

definition counters_sync :: "choice \<Rightarrow> counters \<Rightarrow> counters \<Rightarrow> counters" where
  "counters_sync ch a b = mergeCounters ch a (countersToProto ch b)"

lemma counters_posD: "counters_pos m \<Longrightarrow> fmlookup m k = Some c \<Longrightarrow> shards_pos c"
  by (auto simp: counters_pos_def)

lemma fmlookup_counters_sync:
  "fmlookup (counters_sync ch a b) k =
     (case fmlookup b k of
        None \<Rightarrow> fmlookup a k
      | Some c \<Rightarrow> Some (GCounter_Merge ch (at_or NewGCounter a k) c))"
  by (simp add: counters_sync_def fmlookup_mergeCounters split: option.splits)

lemma GCounter_Merge_empty: "shards_pos c \<Longrightarrow> GCounter_Merge ch fmempty c = c"
  by (rule shards_pos_eqI) (simp_all add: shards_pos_Merge)

lemma GCounter_Merge_empty2 [simp]: "GCounter_Merge ch c fmempty = c"
  by (rule fmap_eqI) (simp add: fmlookup_GCounter_Merge)

lemma counters_pos_sync: "counters_pos a \<Longrightarrow> counters_pos (counters_sync ch a b)"
  by (auto simp: counters_pos_def fmpred_iff fmlookup_counters_sync at_or_def NewGCounter_def
      intro!: shards_pos_Merge split: option.splits)

interpretation tables: merge_laws "counters_sync ch" counters_pos for ch
proof
  fix a b c :: counters
  assume v: "counters_pos a" "counters_pos b"
  then show "counters_pos (counters_sync ch a b)" by (simp add: counters_pos_sync)
  note pos = counters_posD [OF v(1)] counters_posD [OF v(2)]
  show "counters_sync ch a b = counters_sync ch b a"
    by (rule fmap_eqI)
      (auto simp: fmlookup_counters_sync at_or_def NewGCounter_def GCounter_Merge_empty
        dest: pos intro: gc.merge_comm split: option.splits)
  assume c: "counters_pos c"
  show "counters_sync ch (counters_sync ch a b) c = counters_sync ch a (counters_sync ch b c)"
    by (rule fmap_eqI)
      (auto simp: fmlookup_counters_sync at_or_def NewGCounter_def GCounter_Merge_empty
        dest: pos counters_posD [OF c] intro: gc.merge_assoc gc.valid_merge split: option.splits)
next
  fix a :: counters
  assume "counters_pos a"
  then show "counters_sync ch a a = a"
    by (intro fmap_eqI)
      (auto simp: fmlookup_counters_sync at_or_def dest: counters_posD intro: gc.merge_idem split: option.splits)
qed

interpretation outcome: merge_pair "counters_sync ch" counters_pos "counters_sync ch" counters_pos for ch
  by unfold_locales

interpretation replica: merge_pair
  "\<lambda>p q. (counters_sync ch (fst p) (fst q), counters_sync ch (snd p) (snd q))"
  "\<lambda>p. counters_pos (fst p) \<and> counters_pos (snd p)"
  "LWWMap_sync ch" "lww_valid U L" for ch U L
  by unfold_locales

text \<open>The replicated part of a server, and what a gossip message does to it.\<close>

definition payload :: "StateServer \<Rightarrow> (counters \<times> counters) \<times> LWWMap" where
  "payload s = ((sm_byStatus s, sm_byWorker s), sm_recent s)"

definition server_valid :: "event_log \<Rightarrow> StateServer \<Rightarrow> bool" where
  "server_valid U s \<longleftrightarrow>
     counters_pos (sm_byStatus s) \<and> counters_pos (sm_byWorker s) \<and> lww_valid U recentLimit (sm_recent s)"

lemma payload_mergeLocked:
  "payload (mergeLocked ch s (Some (snapshotLocked ch' t))) =
     ((counters_sync ch (sm_byStatus s) (sm_byStatus t), counters_sync ch (sm_byWorker s) (sm_byWorker t)),
      LWWMap_sync ch (sm_recent s) (sm_recent t))"
proof -
  have "countersToProto ch' m = countersToProto ch m" for m
    by (rule fmap_eqI) simp
  then show ?thesis
    by (simp add: payload_def mergeLocked_def snapshotLocked_def counters_sync_def LWWMap_sync_def)
qed

lemma server_valid_payload:
  "server_valid U s \<longleftrightarrow>
     (counters_pos (fst (fst (payload s))) \<and> counters_pos (snd (fst (payload s)))) \<and>
     lww_valid U recentLimit (snd (payload s))"
  by (simp add: server_valid_def payload_def)

lemma snapshot_cong: "payload s = payload t \<Longrightarrow> snapshotLocked ch s = snapshotLocked ch' t"
proof -
  have "countersToProto ch m = countersToProto ch' m" for m
    by (rule fmap_eqI) simp
  moreover have "convert_map ch f m = convert_map ch' f m" for f :: "LWWEntry \<Rightarrow> PLWWEntry" and m
    by (rule fmap_eqI) simp
  ultimately show "payload s = payload t \<Longrightarrow> ?thesis"
    by (simp add: snapshotLocked_def payload_def)
qed

lemma server_valid_merge:
  "server_valid U s \<Longrightarrow> server_valid U t \<Longrightarrow> server_valid U (mergeLocked ch s (Some (snapshotLocked ch' t)))"
  by (simp add: server_valid_payload [of U "mergeLocked _ _ _"] payload_mergeLocked)
    (simp add: server_valid_def tables.valid_merge lww.valid_merge)

subsection \<open>The properties\<close>

text \<open>
  The window of recent outcomes after a merge: it is as full as the two windows allow, every entry
  comes from one of them, and none of them has a newer entry for the same job or for a job that is left out.
\<close>

lemma recent_sync:
  fixes m n :: LWWMap and ch :: choice
  assumes "lww_limit m = L"
  defines "es \<equiv> lww_entries (LWWMap_sync ch m n)"
  defines "from \<equiv> \<lambda>j e. fmlookup (lww_entries m) j = Some e \<or> fmlookup (lww_entries n) j = Some e"
  shows "fcard (fmdom es) = min L (fcard (fmdom (lww_entries m) |\<union>| fmdom (lww_entries n)))"
    and "fmlookup es j = Some e \<Longrightarrow> from j e"
    and "fmlookup es j = Some e \<Longrightarrow> fmlookup es j' = None \<or> j' = j \<Longrightarrow> from j' e' \<Longrightarrow> \<not> wins e' e"
proof -
  let ?join = "lww_join ch (lww_entries m) (lww_entries n)"
  have es: "es = LWWMap_prune ch L ?join" using assms(1) by (simp add: es_def LWWMap_sync_def LWWMap_Merge_def)
  have "fmdom ?join = fmdom (lww_entries m) |\<union>| fmdom (lww_entries n)"
    by (rule fset_eqI) (auto simp: fmlookup_dom_iff fmlookup_lww_join split: option.splits)
  then show "fcard (fmdom es) = min L (fcard (fmdom (lww_entries m) |\<union>| fmdom (lww_entries n)))"
    by (simp add: es fcard_prune)
  have old: "from i x \<Longrightarrow> \<exists>y. fmlookup ?join i = Some y \<and> stamp x \<le> stamp y" for i x
    by (auto simp: from_def fmlookup_lww_join wins_stamp split: option.splits)
  assume e: "fmlookup es j = Some e"
  then have je: "fmlookup ?join j = Some e" unfolding es by (rule prune_lookup)
  then show "from j e" by (auto simp: from_def fmlookup_lww_join split: option.splits if_splits)
  assume "fmlookup es j' = None \<or> j' = j" "from j' e'"
  moreover from old [OF this(2)] obtain y where "fmlookup ?join j' = Some y" "stamp e' \<le> stamp y" by blast
  ultimately have "stamp e' \<le> stamp e" using prune_drops_oldest e je unfolding es by fastforce
  then show "\<not> wins e' e" by (simp add: wins_stamp)
qed

text \<open>
  C7 One push-pull exchange makes two replicas agree: the peer merges the pushed snapshot, the
  caller merges the answer, and then both have the same snapshot.  In it every shard, by
  status and by worker, is the maximum of what the two had; the recent outcomes are as many of
  theirs as the limit allows, for each job the newer one, and none that is left out is newer than
  one that is kept.  The two replicas are taken to be valid: in their windows of recent outcomes, of at
  most 50 entries, no two events share a stamp, and no shard is recorded as zero.
\<close>

theorem exchange_converges:
  assumes "server_valid U s" "server_valid U t"
    and "SyncState ch t (Some (snapshotLocked ch s)) = (Inr resp, t')"
  defines "recent \<equiv> \<lambda>x. lww_entries (sm_recent x)"
  defines "from \<equiv> \<lambda>j e. fmlookup (recent t) j = Some e \<or> fmlookup (recent s) j = Some e"
  shows "snapshotLocked ch1 (mergeLocked ch s (Some resp)) = snapshotLocked ch2 t'
       \<and> cell (sm_byStatus t') k r = max (cell (sm_byStatus t) k r) (cell (sm_byStatus s) k r)
       \<and> cell (sm_byWorker t') k r = max (cell (sm_byWorker t) k r) (cell (sm_byWorker s) k r)
       \<and> fcard (fmdom (recent t')) = min 50 (fcard (fmdom (recent t) |\<union>| fmdom (recent s)))
       \<and> (\<forall>j e. fmlookup (recent t') j = Some e \<longrightarrow> from j e
            \<and> (\<forall>j' e'. (fmlookup (recent t') j' = None \<or> j' = j) \<and> from j' e' \<longrightarrow> \<not> wins e' e))"
proof -
  from assms(3) have t': "t' = mergeLocked ch t (Some (snapshotLocked ch s))" "resp = snapshotLocked ch t'"
    by (auto simp: SyncState_def Let_def split: if_splits)
  let ?sync = "\<lambda>p q. ((counters_sync ch (fst (fst p)) (fst (fst q)), counters_sync ch (snd (fst p)) (snd (fst q))),
                      LWWMap_sync ch (snd p) (snd q))"
  have m: "payload (mergeLocked ch a (Some (snapshotLocked ch b))) = ?sync (payload a) (payload b)" for a b
    by (simp add: payload_mergeLocked) (simp add: payload_def)
  have "?sync (payload s) (?sync (payload t) (payload s)) = ?sync (payload t) (payload s)"
    using replica.both.push_pull_converges
      [where U = U and L = recentLimit and a = "payload s" and b = "payload t" and ch = ch] assms(1,2)
    by (simp add: server_valid_payload)
  then have "payload (mergeLocked ch s (Some resp)) = payload t'" by (simp only: t' m)
  moreover have "cell (sm_byStatus t') k r = max (cell (sm_byStatus t) k r) (cell (sm_byStatus s) k r)"
    "cell (sm_byWorker t') k r = max (cell (sm_byWorker t) k r) (cell (sm_byWorker s) k r)"
    by (simp_all add: t'(1) mergeLocked_def snapshotLocked_def cell_mergeCounters)
      (auto simp: cell_def at_or_def NewGCounter_def split: option.splits)
  moreover have lim: "lww_limit (sm_recent t) = 50" using assms(2) by (simp add: server_valid_def lww_valid_def recentLimit_def)
  moreover have "sm_recent t' = LWWMap_sync ch (sm_recent t) (sm_recent s)"
    using m [of t s] by (simp add: t'(1) payload_def)
  note rec = recent_sync [OF lim, where ch = ch and n = "sm_recent s", folded this]
  ultimately show ?thesis unfolding recent_def from_def using rec by (simp add: snapshot_cong) blast
qed

lemma server_valid_New: "server_valid U (StateServer_New r)"
  by (simp add: server_valid_def StateServer_New_def counters_pos_def lww_valid_def NewLWWMap_def agrees_def fcard.rep_eq)

lemma counters_pos_Inc:
  assumes "counters_pos m" "cell m key r + 1 \<noteq> 0"
  shows "counters_pos (on_counter (\<lambda>c. GCounter_Inc c r) m key)"
proof -
  have "shards_pos (at_or NewGCounter m key)"
    using assms(1) by (auto simp: at_or_def NewGCounter_def dest: counters_posD split: option.splits)
  then have "shards_pos (GCounter_Inc (at_or NewGCounter m key) r)"
    using assms(2) by (intro shards_pos_Inc) (simp_all add: cell_def)
  then show ?thesis
    using assms(1) by (auto simp: counters_pos_def fmpred_iff fmlookup_on_counter)
qed

text \<open>Reports keep a replica valid, as long as stamps are not reused and no shard wraps.\<close>

lemma server_valid_report:
  assumes v: "server_valid U s" and rep: "ReportJobEvent ch now s req = (Inr (), s')"
    and U: "U (now, sm_replica s) = Some (rj_JobId req,
      \<lparr>e_Status = rj_Outcome req, e_Worker = rj_Worker req, e_TSUnixMS = now, e_Replica = sm_replica s\<rparr>)"
    and "cell (sm_byStatus s) (rj_Outcome req) (sm_replica s) + 1 \<noteq> 0"
    and "cell (sm_byWorker s) (rj_Worker req) (sm_replica s) + 1 \<noteq> 0"
  shows "server_valid U s'"
proof -
  let ?e = "\<lparr>e_Status = rj_Outcome req, e_Worker = rj_Worker req, e_TSUnixMS = now, e_Replica = sm_replica s\<rparr>"
  have m: "lww_valid U recentLimit (sm_recent s)" using v by (simp add: server_valid_def)
  have "agrees U (fmupd (rj_JobId req) ?e fmempty)"
    using U by (auto simp: stamp_def intro!: agreesI split: if_splits)
  then have "lww_valid U recentLimit (LWWMap_sync ch (sm_recent s) \<lparr>lww_entries = fmupd (rj_JobId req) ?e fmempty, lww_limit = recentLimit\<rparr>)"
    using m by (intro lww_valid_sync) simp_all
  moreover have "LWWMap_Set ch (sm_recent s) (rj_JobId req) ?e
      = LWWMap_sync ch (sm_recent s) \<lparr>lww_entries = fmupd (rj_JobId req) ?e fmempty, lww_limit = recentLimit\<rparr>"
    using m by (simp add: LWWMap_Set_Merge LWWMap_sync_def lww_valid_def)
  ultimately show ?thesis
    using v rep counters_pos_Inc assms(4,5)
    by (auto simp: ReportJobEvent_def server_valid_def split: if_splits)
qed

definition ex_report_req :: ReportJobEventRequest where
  "ex_report_req = \<lparr>rj_JobId = ''job-1'', rj_Worker = ''worker-1'', rj_Outcome = ''succeeded''\<rparr>"

definition ex_reported :: StateServer where
  "ex_reported = snd (ReportJobEvent (\<lambda>_. []) 100 (StateServer_New ''sm-1'') ex_report_req)"

theorem exchange_converges_witness:
  "let t' = mergeLocked (\<lambda>_. []) (StateServer_New ''sm-2'') (Some (snapshotLocked (\<lambda>_. []) ex_reported)) in
   snapshotLocked (\<lambda>_. []) (mergeLocked (\<lambda>_. []) ex_reported (Some (snapshotLocked (\<lambda>_. []) t')))
     = snapshotLocked (\<lambda>_. [1]) t'
   \<and> cell (sm_byStatus t') ''succeeded'' ''sm-1'' = 1 \<and> fcard (fmdom (lww_entries (sm_recent t'))) = 1"
proof -
  let ?ch = "\<lambda>_. []"
  let ?U = "\<lambda>st. if st = (100, ''sm-1'') then Some (''job-1'',
      \<lparr>e_Status = ''succeeded'', e_Worker = ''worker-1'', e_TSUnixMS = 100, e_Replica = ''sm-1''\<rparr>) else None"
  have rep: "ReportJobEvent ?ch 100 (StateServer_New ''sm-1'') ex_report_req = (Inr (), ex_reported)"
    by (simp add: ex_reported_def ReportJobEvent_def ex_report_req_def OutcomeSucceeded_def)
  have v: "server_valid ?U ex_reported"
    by (rule server_valid_report [OF server_valid_New rep])
      (simp_all add: StateServer_New_def ex_report_req_def)
  have one: "cell (sm_byStatus ex_reported) ''succeeded'' ''sm-1'' = 1"
    by (simp add: ex_reported_def ReportJobEvent_def ex_report_req_def OutcomeSucceeded_def
        StateServer_New_def cell_on_counter_Inc)
  let ?t = "mergeLocked ?ch (StateServer_New ''sm-2'') (Some (snapshotLocked ?ch ex_reported))"
  have "SyncState ?ch (StateServer_New ''sm-2'') (Some (snapshotLocked ?ch ex_reported)) = (Inr (snapshotLocked ?ch ?t), ?t)"
    by (simp add: SyncState_def StateServer_New_def Let_def)
  note ex = exchange_converges [OF v server_valid_New this, of ?ch "\<lambda>_. [1]" "''succeeded''" "''sm-1''"]
  have "fcard (fmdom (lww_entries (sm_recent (StateServer_New ''sm-2''))) |\<union>| fmdom (lww_entries (sm_recent ex_reported))) = 1"
    by code_simp
  with ex one show ?thesis by (simp add: Let_def StateServer_New_def)
qed

text \<open>
  C22 A report is rejected without any effect exactly when a field is missing or the outcome is
  unknown; otherwise it is accepted, partitioned or not, and adds one to exactly two shards: the
  replica's own shard under the outcome and under the worker.
\<close>

theorem ReportJobEvent_effect:
  assumes "ReportJobEvent ch now s req = (res, s')"
  shows "(isl res \<longleftrightarrow> rj_JobId req = [] \<or> rj_Worker req = [] \<or> rj_Outcome req \<notin> {OutcomeSucceeded, OutcomeFailed})
       \<and> (isl res \<longrightarrow> s' = s \<and> err_code (projl res) = InvalidArgument)
       \<and> (\<not> isl res \<longrightarrow>
            cell (sm_byStatus s') k r =
              cell (sm_byStatus s) k r + (if k = rj_Outcome req \<and> r = sm_replica s then 1 else 0)
          \<and> cell (sm_byWorker s') k r =
              cell (sm_byWorker s) k r + (if k = rj_Worker req \<and> r = sm_replica s then 1 else 0))"
  using assms by (auto simp: ReportJobEvent_def cell_on_counter_Inc split: if_splits)

theorem ReportJobEvent_effect_witness:
  "cell (sm_byWorker ex_reported) ''worker-1'' ''sm-1'' = 1"
proof -
  have rep: "ReportJobEvent (\<lambda>_. []) 100 (StateServer_New ''sm-1'') ex_report_req = (Inr (), ex_reported)"
    by (simp add: ex_reported_def ReportJobEvent_def ex_report_req_def OutcomeSucceeded_def)
  from ReportJobEvent_effect [OF rep, of "''worker-1''" "''sm-1''"] show ?thesis
    by (simp add: StateServer_New_def ex_report_req_def)
qed

end
