(* ===== verification/Gossip.thy ===== *)
theory Gossip
  imports StateSvc
begin

section \<open>The statemanager replicas together: reports, gossip, partitions\<close>

text \<open>
  Any number of statemanager replicas that take reports and exchange state.  The loop of
  \<open>RunGossip\<close> takes its snapshot under the lock, calls the peer without it and merges the answer
  under the lock again, so other handlers run in between: the exchange is three steps (push, sync,
  pull) with the messages in flight between them.  Messages stay in the set of messages once sent;
  a message that is lost, late or delivered twice is a step that is not taken, taken later or taken
  twice.  A ghost log records the reports that were accepted and by whom.  Restarts are not steps of
  this relation (\<open>restart_loses_increments\<close> shows why).

  Shown: in every reachable state a replica's own shard counts exactly the reports it accepted, and
  no replica and no message ever claims more for any replica; replicas whose states agree report
  the total number of accepted reports.
\<close>

datatype msg =
    Push (push_from: string) (push_to: string) (push_state: CRDTState)
  | Pull (pull_to: string) (pull_state: CRDTState)

record cluster =
  servers :: "string \<Rightarrow> StateServer option"
  net :: "msg set"
  accepted :: "(string \<times> ReportJobEventRequest) list"

definition init_cluster :: "string set \<Rightarrow> cluster" where
  "init_cluster N =
     \<lparr>servers = (\<lambda>n. if n \<in> N then Some (StateServer_New n) else None), net = {}, accepted = []\<rparr>"

text \<open>
  \<open>RunGossip\<close> tests \<open>gossipOn\<close> once per tick and then pushes to every peer, so that a replica whose gossip was
  switched off may still push.  The model lets a replica push at any moment, which covers these runs.
\<close>

inductive gossip_step :: "cluster \<Rightarrow> cluster \<Rightarrow> bool" where
  report: "servers c r = Some s \<Longrightarrow> ReportJobEvent ch now s req = (Inr (), s') \<Longrightarrow>
     gossip_step c (c\<lparr>servers := (servers c)(r \<mapsto> s'), accepted := (r, req) # accepted c\<rparr>)"
| push: "servers c r = Some s \<Longrightarrow>
     gossip_step c (c\<lparr>net := insert (Push r p (snapshotLocked ch s)) (net c)\<rparr>)"
| sync: "Push r p st \<in> net c \<Longrightarrow> servers c p = Some t \<Longrightarrow>
     SyncState ch t (Some st) = (Inr resp, t') \<Longrightarrow>
     gossip_step c (c\<lparr>servers := (servers c)(p \<mapsto> t'), net := insert (Pull r resp) (net c)\<rparr>)"
| pull: "Pull r resp \<in> net c \<Longrightarrow> servers c r = Some s \<Longrightarrow>
     gossip_step c (c\<lparr>servers := (servers c)(r \<mapsto> mergeLocked ch s (Some resp))\<rparr>)"
| toggle: "servers c r = Some s \<Longrightarrow>
     gossip_step c (c\<lparr>servers := (servers c)(r \<mapsto> snd (SetGossip s b))\<rparr>)"

inductive gossip_reach :: "string set \<Rightarrow> cluster \<Rightarrow> bool" for N where
  start: "gossip_reach N (init_cluster N)"
| step: "gossip_reach N c \<Longrightarrow> gossip_step c c' \<Longrightarrow> gossip_reach N c'"

subsection \<open>Counting accepted reports\<close>

definition hits :: "(string \<times> ReportJobEventRequest) list \<Rightarrow> (ReportJobEventRequest \<Rightarrow> string) \<Rightarrow> string \<Rightarrow> string \<Rightarrow> nat" where
  "hits L f r k = length (filter (\<lambda>(r', q). r' = r \<and> f q = k) L)"

lemma hits_Nil [simp]: "hits [] f r k = 0"
  by (simp add: hits_def)

lemma hits_Cons [simp]:
  "hits ((r', q) # L) f r k = (if r' = r \<and> f q = k then Suc (hits L f r k) else hits L f r k)"
  by (simp add: hits_def)

lemma hits_le: "hits L f r k \<le> length L"
  by (simp add: hits_def)

text \<open>Every cell of a table of counters is bounded by the reports that its replica accepted.\<close>

definition bounded :: "(string \<times> ReportJobEventRequest) list \<Rightarrow> (ReportJobEventRequest \<Rightarrow> string) \<Rightarrow> (string \<Rightarrow> string \<Rightarrow> 64 word) \<Rightarrow> bool" where
  "bounded L f T \<longleftrightarrow> (\<forall>k r. unat (T k r) \<le> hits L f r k)"

definition pcell :: "(string, GCounterState) fmap \<Rightarrow> string \<Rightarrow> string \<Rightarrow> 64 word" where
  "pcell src k r = (case fmlookup src k of None \<Rightarrow> 0 | Some c \<Rightarrow> shard (gs_shards c) r)"

lemma pcell_countersToProto [simp]: "pcell (countersToProto ch m) = cell m"
  by (intro ext) (auto simp: pcell_def cell_def at_or_def NewGCounter_def split: option.splits)

lemma cell_mergeCounters' [simp]:
  "cell (mergeCounters ch dst src) = (\<lambda>k r. max (cell dst k r) (pcell src k r))"
  by (intro ext) (simp add: cell_mergeCounters pcell_def)

lemma unat_max: "unat (max a b) = max (unat a) (unat (b :: 64 word))"
  by (simp add: max_def word_le_nat_alt)

lemma bounded_max: "bounded L f S \<Longrightarrow> bounded L f T \<Longrightarrow> bounded L f (\<lambda>k r. max (S k r) (T k r))"
  by (simp add: bounded_def unat_max)

lemma bounded_Cons: "bounded L f T \<Longrightarrow> bounded ((r', q) # L) f T"
  by (auto simp: bounded_def intro: le_SucI)

definition msg_state :: "msg \<Rightarrow> CRDTState" where
  "msg_state m = (case m of Push _ _ st \<Rightarrow> st | Pull _ st \<Rightarrow> st)"

definition state_bounded :: "(string \<times> ReportJobEventRequest) list \<Rightarrow> CRDTState \<Rightarrow> bool" where
  "state_bounded L st \<longleftrightarrow>
     bounded L rj_Outcome (pcell (cs_ByStatus st)) \<and> bounded L rj_Worker (pcell (cs_ByWorker st))"

definition server_counts :: "(string \<times> ReportJobEventRequest) list \<Rightarrow> string \<Rightarrow> StateServer \<Rightarrow> bool" where
  "server_counts L r s \<longleftrightarrow>
     sm_replica s = r
     \<and> bounded L rj_Outcome (cell (sm_byStatus s)) \<and> bounded L rj_Worker (cell (sm_byWorker s))
     \<and> (\<forall>k. unat (cell (sm_byStatus s) k r) = hits L rj_Outcome r k)
     \<and> (\<forall>k. unat (cell (sm_byWorker s) k r) = hits L rj_Worker r k)"

definition gossip_inv :: "string set \<Rightarrow> cluster \<Rightarrow> bool" where
  "gossip_inv N c \<longleftrightarrow>
     (\<forall>r s. servers c r = Some s \<longrightarrow> server_counts (accepted c) r s)
     \<and> (\<forall>m \<in> net c. state_bounded (accepted c) (msg_state m))
     \<and> {r. servers c r \<noteq> None} = N \<and> fst ` set (accepted c) \<subseteq> N"

lemma gossip_invD: "gossip_inv N c \<Longrightarrow> servers c r = Some s \<Longrightarrow> server_counts (accepted c) r s"
  by (simp add: gossip_inv_def)

subsection \<open>Each step keeps the counts\<close>

lemma server_counts_bounded: "server_counts L r s \<Longrightarrow> state_bounded L (snapshotLocked ch s)"
  by (simp add: server_counts_def state_bounded_def snapshotLocked_def)

lemma server_counts_merge:
  assumes "server_counts L r s" "state_bounded L st"
  shows "server_counts L r (mergeLocked ch s (Some st))"
  using assms
  by (auto simp: server_counts_def state_bounded_def mergeLocked_def bounded_max)
    (simp_all add: bounded_def unat_max max_absorb1)

lemma server_counts_other:
  assumes "server_counts L r s" "r' \<noteq> r"
  shows "server_counts ((r', q) # L) r s"
  using assms by (simp add: server_counts_def bounded_Cons)

lemma bounded_Inc:
  assumes "bounded L f (cell m)" "unat (cell m (f q) r) = hits L f r (f q)" "Suc (length L) < 2 ^ 64"
  shows "bounded ((r, q) # L) f (cell (on_counter (\<lambda>c. GCounter_Inc c r) m (f q)))"
    and "unat (cell (on_counter (\<lambda>c. GCounter_Inc c r) m (f q)) (f q) r) = Suc (hits L f r (f q))"
proof -
  have "Suc (unat (cell m (f q) r)) < 2 ^ 64" using assms(2,3) hits_le [of L f r "f q"] by simp
  then have inc: "unat (cell m (f q) r + 1) = Suc (unat (cell m (f q) r))"
    by (subst unat_plus_simple [THEN iffD1]) (simp_all add: no_olen_add_nat)
  then show "bounded ((r, q) # L) f (cell (on_counter (\<lambda>c. GCounter_Inc c r) m (f q)))"
    using assms(1,2) by (auto simp: bounded_def cell_on_counter_Inc)
  show "unat (cell (on_counter (\<lambda>c. GCounter_Inc c r) m (f q)) (f q) r) = Suc (hits L f r (f q))"
    using inc assms(2) by (simp add: cell_on_counter_Inc)
qed

lemma server_counts_report:
  assumes s: "server_counts L r s" and rep: "ReportJobEvent ch now s req = (Inr (), s')"
    and len: "Suc (length L) < 2 ^ 64"
  shows "server_counts ((r, req) # L) r s'"
proof -
  from rep have s': "sm_replica s' = sm_replica s"
      "sm_byStatus s' = on_counter (\<lambda>c. GCounter_Inc c (sm_replica s)) (sm_byStatus s) (rj_Outcome req)"
      "sm_byWorker s' = on_counter (\<lambda>c. GCounter_Inc c (sm_replica s)) (sm_byWorker s) (rj_Worker req)"
    by (auto simp: ReportJobEvent_def split: if_splits)
  from s have r: "sm_replica s = r"
    and st: "bounded L rj_Outcome (cell (sm_byStatus s))" "\<And>k. unat (cell (sm_byStatus s) k r) = hits L rj_Outcome r k"
    and wk: "bounded L rj_Worker (cell (sm_byWorker s))" "\<And>k. unat (cell (sm_byWorker s) k r) = hits L rj_Worker r k"
    by (auto simp: server_counts_def)
  note inc = bounded_Inc [OF st(1) st(2) len, of req] bounded_Inc [OF wk(1) wk(2) len, of req]
  have "unat (cell (sm_byStatus s') k r) = hits ((r, req) # L) rj_Outcome r k" for k
    using inc(2) st(2) by (cases "k = rj_Outcome req") (simp_all add: s' r cell_on_counter_Inc)
  moreover have "unat (cell (sm_byWorker s') k r) = hits ((r, req) # L) rj_Worker r k" for k
    using inc(4) wk(2) by (cases "k = rj_Worker req") (simp_all add: s' r cell_on_counter_Inc)
  ultimately show ?thesis using inc(1,3) by (simp add: server_counts_def s' r)
qed

lemma gossip_inv_init: "gossip_inv N (init_cluster N)"
  by (auto simp: gossip_inv_def init_cluster_def server_counts_def StateServer_New_def bounded_def split: if_splits)

lemma state_bounded_Cons: "state_bounded L st \<Longrightarrow> state_bounded ((r, q) # L) st"
  by (simp add: state_bounded_def bounded_Cons)

lemma gossip_inv_step:
  assumes "gossip_step c c'" "gossip_inv N c" "length (accepted c') < 2 ^ 64"
  shows "gossip_inv N c'"
  using assms
proof (induction rule: gossip_step.induct)
  case (report c r s ch now req s')
  have "server_counts ((r, req) # accepted c) r s'"
    using report by (intro server_counts_report) (auto simp: gossip_inv_def)
  then show ?case
    using report(1,3) by (auto simp: gossip_inv_def server_counts_other state_bounded_Cons)
next
  case (push c r s p ch)
  then show ?case by (auto simp: gossip_inv_def msg_state_def intro: server_counts_bounded)
next
  case (sync r p st c t ch resp t')
  then have "state_bounded (accepted c) st" by (force simp: gossip_inv_def msg_state_def)
  moreover have t': "t' = mergeLocked ch t (Some st)" "resp = snapshotLocked ch t'"
    using sync(3) by (auto simp: SyncState_def Let_def split: if_splits)
  ultimately have "server_counts (accepted c) p t'"
    using sync by (auto simp: gossip_inv_def intro: server_counts_merge)
  then show ?case
    using sync(2,4) t'(2) by (auto simp: gossip_inv_def msg_state_def intro: server_counts_bounded)
next
  case (pull r resp c s ch)
  then have "state_bounded (accepted c) resp" by (force simp: gossip_inv_def msg_state_def)
  then show ?case using pull by (auto simp: gossip_inv_def intro: server_counts_merge)
next
  case (toggle c r s b)
  then show ?case by (auto simp: gossip_inv_def SetGossip_def server_counts_def)
qed

lemma accepted_mono: "gossip_step c c' \<Longrightarrow> length (accepted c) \<le> length (accepted c')"
  by (induction rule: gossip_step.induct) auto

lemma gossip_reach_inv: "gossip_reach N c \<Longrightarrow> length (accepted c) < 2 ^ 64 \<Longrightarrow> gossip_inv N c"
proof (induction rule: gossip_reach.induct)
  case start
  show ?case by (rule gossip_inv_init)
next
  case (step c c')
  then show ?case using gossip_inv_step accepted_mono by (meson le_less_trans)
qed

subsection \<open>Totals\<close>

lemma sum_hits:
  assumes "finite N" "fst ` set L \<subseteq> N"
  shows "(\<Sum>r \<in> N. hits L f r k) = length (filter (\<lambda>(_, q). f q = k) L)"
  using assms(2)
proof (induction L)
  case Nil
  then show ?case by simp
next
  case (Cons x L)
  obtain r0 q where x: "x = (r0, q)" by (cases x)
  with Cons.prems have "r0 \<in> N" by simp
  have "(\<Sum>r \<in> N. hits (x # L) f r k)
      = (\<Sum>r \<in> N. hits L f r k + (if r = r0 then (if f q = k then 1 else 0) else 0))"
    by (rule sum.cong) (auto simp: x)
  then show ?case using Cons \<open>r0 \<in> N\<close> assms(1) by (simp add: sum.distrib x)
qed

lemma Value_cells:
  assumes "finite N" "\<And>r. r \<notin> N \<Longrightarrow> cell m k r = 0"
  shows "GCounter_Value ch (at_or NewGCounter m k) = (\<Sum>r \<in> N. cell m k r)"
proof -
  let ?c = "at_or NewGCounter m k"
  have "(\<Sum>r \<in> fset (fmdom ?c). shard ?c r) = (\<Sum>r \<in> fset (fmdom ?c) \<union> N. shard ?c r)"
    using assms(1) by (intro sum.mono_neutral_left) (auto simp: at_or_notin)
  also have "\<dots> = (\<Sum>r \<in> N. shard ?c r)"
    using assms by (intro sum.mono_neutral_right) (auto simp: cell_def)
  finally show ?thesis by (simp add: GCounter_Value_sum cell_def)
qed

text \<open>For either table of counters, with the field of the reports that it counts.\<close>

lemma agreeing_total:
  assumes inv: "gossip_inv N c" and "finite N" and s: "servers c r0 = Some s"
    and counts: "\<And>r s. server_counts (accepted c) r s \<Longrightarrow>
      bounded (accepted c) f (cell (tab s)) \<and> (\<forall>k. unat (cell (tab s) k r) = hits (accepted c) f r k)"
    and agree: "\<And>r s'. servers c r = Some s' \<Longrightarrow> tab s' = tab s"
  shows "GCounter_Value ch (at_or NewGCounter (tab s) k) = of_nat (length (filter (\<lambda>(_, q). f q = k) (accepted c)))"
proof -
  let ?L = "accepted c"
  have bound: "unat (cell (tab s) k r) \<le> hits ?L f r k" for r
    using counts [OF gossip_invD [OF inv s]] by (simp add: bounded_def)
  have out: "hits ?L f r k = 0" if "r \<notin> N" for r
    using inv that by (force simp: gossip_inv_def hits_def filter_empty_conv)
  have own: "unat (cell (tab s) k r) = hits ?L f r k" if "r \<in> N" for r
  proof -
    have "r \<in> {r. servers c r \<noteq> None}" using inv that by (simp add: gossip_inv_def)
    then obtain s' where s': "servers c r = Some s'" by auto
    then show ?thesis using counts [OF gossip_invD [OF inv s']] agree [OF s'] by simp
  qed
  have "GCounter_Value ch (at_or NewGCounter (tab s) k) = (\<Sum>r \<in> N. cell (tab s) k r)"
    using bound out by (intro Value_cells [OF assms(2)]) (metis le_zero_eq unat_eq_zero)
  also have "\<dots> = (\<Sum>r \<in> N. of_nat (hits ?L f r k))"
    using own by (intro sum.cong) (auto simp flip: own)
  also have "\<dots> = of_nat (\<Sum>r \<in> N. hits ?L f r k)" by simp
  also have "(\<Sum>r \<in> N. hits ?L f r k) = length (filter (\<lambda>(_, q). f q = k) ?L)"
    using inv by (intro sum_hits [OF assms(2)]) (simp add: gossip_inv_def)
  finally show ?thesis .
qed

lemma agreeing_totals:
  assumes "gossip_inv N c" "finite N" "servers c r0 = Some s"
    and "\<And>r s'. servers c r = Some s' \<Longrightarrow> sm_byStatus s' = sm_byStatus s \<and> sm_byWorker s' = sm_byWorker s"
  shows "GCounter_Value ch (at_or NewGCounter (sm_byStatus s) k) = of_nat (length (filter (\<lambda>(_, q). rj_Outcome q = k) (accepted c)))"
    "GCounter_Value ch (at_or NewGCounter (sm_byWorker s) k) = of_nat (length (filter (\<lambda>(_, q). rj_Worker q = k) (accepted c)))"
  by (rule agreeing_total [OF assms(1-3)]; use assms(4) in \<open>auto simp: server_counts_def\<close>)+

subsection \<open>The properties\<close>

text \<open>
  C6 Counting is exact under any interleaving of reports, gossip exchanges, lost, late or repeated
  messages and partitions: the shard a replica keeps for itself is the number of reports it
  accepted with that outcome (and for that worker), and what any replica holds for another one
  never exceeds what that one accepted.
\<close>

theorem no_increment_lost:
  assumes "gossip_reach N c" "length (accepted c) < 2 ^ 64" "servers c r = Some s"
  shows "unat (cell (sm_byStatus s) k r) = hits (accepted c) rj_Outcome r k
       \<and> unat (cell (sm_byWorker s) k r) = hits (accepted c) rj_Worker r k
       \<and> unat (cell (sm_byStatus s) k r') \<le> hits (accepted c) rj_Outcome r' k
       \<and> unat (cell (sm_byWorker s) k r') \<le> hits (accepted c) rj_Worker r' k"
  using gossip_reach_inv [OF assms(1,2)] assms(3)
  by (auto simp: gossip_inv_def server_counts_def bounded_def)

definition ex_req :: ReportJobEventRequest where
  "ex_req = \<lparr>rj_JobId = ''job-1'', rj_Worker = ''worker-1'', rj_Outcome = ''succeeded''\<rparr>"

definition ex_server :: StateServer where
  "ex_server = snd (ReportJobEvent (\<lambda>_. []) 100 (StateServer_New ''sm-1'') ex_req)"

definition ex_cluster :: cluster where
  "ex_cluster = (init_cluster {''sm-1''})
     \<lparr>servers := (servers (init_cluster {''sm-1''}))(''sm-1'' \<mapsto> ex_server), accepted := [(''sm-1'', ex_req)]\<rparr>"

lemma ex_report: "ReportJobEvent (\<lambda>_. []) 100 (StateServer_New ''sm-1'') ex_req = (Inr (), ex_server)"
  by (simp add: ex_server_def ReportJobEvent_def ex_req_def OutcomeSucceeded_def)

lemma ex_cluster_reach: "gossip_reach {''sm-1''} ex_cluster"
proof -
  have "gossip_step (init_cluster {''sm-1''}) ex_cluster"
    using gossip_step.report [of "init_cluster {''sm-1''}" "''sm-1''", OF _ ex_report]
    by (simp add: init_cluster_def ex_cluster_def)
  with gossip_reach.start show ?thesis by (rule gossip_reach.step)
qed

theorem no_increment_lost_witness:
  "gossip_reach {''sm-1''} ex_cluster \<and> length (accepted ex_cluster) < 2 ^ 64
   \<and> servers ex_cluster ''sm-1'' = Some ex_server
   \<and> unat (cell (sm_byStatus ex_server) ''succeeded'' ''sm-1'') = 1"
proof -
  have h: "length (accepted ex_cluster) < 2 ^ 64" "servers ex_cluster ''sm-1'' = Some ex_server"
    by (simp_all add: ex_cluster_def)
  have "hits (accepted ex_cluster) rj_Outcome ''sm-1'' ''succeeded'' = 1"
    by (simp add: ex_cluster_def ex_req_def)
  with no_increment_lost [OF ex_cluster_reach h] ex_cluster_reach h show ?thesis by metis
qed

text \<open>
  When the replicas agree, the totals they show for an outcome and for a worker are the numbers of such reports
  that were accepted anywhere in the cluster.
\<close>

lemma converged_total:
  assumes "gossip_reach N c" "finite N" "length (accepted c) < 2 ^ 64" "servers c r0 = Some s"
    and "\<forall>r s'. servers c r = Some s' \<longrightarrow> payload s' = payload s"
  shows "GCounter_Value ch (at_or NewGCounter (sm_byStatus s) k) = of_nat (length (filter (\<lambda>(_, q). rj_Outcome q = k) (accepted c)))"
    "GCounter_Value ch (at_or NewGCounter (sm_byWorker s) k) = of_nat (length (filter (\<lambda>(_, q). rj_Worker q = k) (accepted c)))"
  using agreeing_totals [OF gossip_reach_inv [OF assms(1,3)] assms(2,4)] assms(5) by (simp_all add: payload_def)

text \<open>Two replicas after a report to the first and one push to the second.\<close>

definition ex_server2 :: StateServer where
  "ex_server2 = mergeLocked (\<lambda>_. []) (StateServer_New ''sm-2'') (Some (snapshotLocked (\<lambda>_. []) ex_server))"

definition ex_pair :: cluster where
  "ex_pair =
     \<lparr>servers = (\<lambda>_. None)(''sm-1'' \<mapsto> ex_server, ''sm-2'' \<mapsto> ex_server2),
      net = {Pull ''sm-1'' (snapshotLocked (\<lambda>_. []) ex_server2), Push ''sm-1'' ''sm-2'' (snapshotLocked (\<lambda>_. []) ex_server)},
      accepted = [(''sm-1'', ex_req)]\<rparr>"

lemma ex_pair_reach: "gossip_reach {''sm-1'', ''sm-2''} ex_pair"
proof -
  let ?ch = "\<lambda>_. []" and ?c0 = "init_cluster {''sm-1'', ''sm-2''}"
  let ?c1 = "?c0\<lparr>servers := (servers ?c0)(''sm-1'' \<mapsto> ex_server), accepted := [(''sm-1'', ex_req)]\<rparr>"
  let ?c2 = "?c1\<lparr>net := {Push ''sm-1'' ''sm-2'' (snapshotLocked ?ch ex_server)}\<rparr>"
  have "gossip_step ?c0 ?c1"
    using gossip_step.report [of ?c0 "''sm-1''", OF _ ex_report] by (simp add: init_cluster_def)
  moreover have "gossip_step ?c1 ?c2"
    using gossip_step.push [of ?c1 "''sm-1''" ex_server "''sm-2''" ?ch] by (simp add: init_cluster_def)
  moreover have "gossip_step ?c2 ex_pair"
  proof -
    have "SyncState ?ch (StateServer_New ''sm-2'') (Some (snapshotLocked ?ch ex_server)) = (Inr (snapshotLocked ?ch ex_server2), ex_server2)"
      by (simp add: SyncState_def StateServer_New_def ex_server2_def Let_def)
    from gossip_step.sync [of "''sm-1''" "''sm-2''" "snapshotLocked ?ch ex_server" ?c2, OF _ _ this]
    have "gossip_step ?c2 (?c2\<lparr>servers := (servers ?c2)(''sm-2'' \<mapsto> ex_server2),
        net := insert (Pull ''sm-1'' (snapshotLocked ?ch ex_server2)) (net ?c2)\<rparr>)" by (simp add: init_cluster_def)
    moreover have "(servers ?c2)(''sm-2'' \<mapsto> ex_server2) = servers ex_pair" by (auto simp: ex_pair_def init_cluster_def)
    ultimately show ?thesis by (simp add: ex_pair_def init_cluster_def)
  qed
  ultimately show ?thesis using gossip_reach.start gossip_reach.step by meson
qed

text \<open>
  A replica that restarts comes back empty.  A report that it accepts before its first exchange is
  lost as soon as a peer has a count for it: it increments a shard that starts from zero again, and
  the merge takes the maximum with the old shard.
\<close>

lemma restart_loses_increments:
  assumes "ReportJobEvent ch now (StateServer_New r) req = (Inr (), s)"
    and "cell (sm_byStatus t) (rj_Outcome req) r \<noteq> 0"
  shows "cell (sm_byStatus (mergeLocked ch' s (Some (snapshotLocked ch'' t)))) (rj_Outcome req) r
       = cell (sm_byStatus t) (rj_Outcome req) r"
proof -
  have "cell (sm_byStatus s) (rj_Outcome req) r = 1"
    using assms(1) by (auto simp: ReportJobEvent_def StateServer_New_def cell_on_counter_Inc split: if_splits)
  moreover have "1 \<le> cell (sm_byStatus t) (rj_Outcome req) r"
    using assms(2) by (simp add: word_le_nat_alt unat_gt_0 Suc_leI)
  ultimately show ?thesis by (simp add: mergeLocked_def snapshotLocked_def max_absorb2)
qed

end
