(* ===== verification/Store.thy ===== *)
theory Store
  imports Prelude
begin

section \<open>The job store and the outbox (internal/store, migrations)\<close>

text \<open>
  The tables \<open>jobs\<close> and \<open>outbox\<close> of the migrations and every query of
  \<open>src/internal/store/store.go\<close> and \<open>src/internal/store/outbox.go\<close>.  A table is the list of its
  rows; a query is a function of the database.

  What PostgreSQL and the network contribute to one call is a record \<open>pg\<close>, an argument of every
  operation: the transaction's \<open>now()\<close>, the ids that \<open>gen_random_uuid()\<close> draws, how the cast
  \<open>$1::uuid\<close> reads a string, in which order rows of equal sort key are delivered, and how each
  round trip ends.  A round trip is done, or fails without effect, or its answer is lost: the
  statement (or the commit) took effect and the caller sees an error.  Nothing is assumed about
  these outcomes; a theorem that needs fresh ids says so.

  Timestamps are integers (microseconds).  A payload that is \<open>NULL\<close>, \<open>nil\<close> or empty is the empty
  string: no reader distinguishes them.
\<close>

subsection \<open>Rows, jobs, errors\<close>

definition StatusPending :: string where "StatusPending = ''pending''"
definition StatusScheduled :: string where "StatusScheduled = ''scheduled''"
definition StatusRunning :: string where "StatusRunning = ''running''"
definition StatusSucceeded :: string where "StatusSucceeded = ''succeeded''"
definition StatusFailed :: string where "StatusFailed = ''failed''"

definition OutboxPending :: string where "OutboxPending = ''pending''"
definition OutboxDispatched :: string where "OutboxDispatched = ''dispatched''"
definition OutboxFailed :: string where "OutboxFailed = ''failed''"

lemmas status_defs = StatusPending_def StatusScheduled_def StatusRunning_def StatusSucceeded_def
  StatusFailed_def OutboxPending_def OutboxDispatched_def OutboxFailed_def

record Job =
  j_ID :: string
  j_Name :: string
  j_Payload :: string
  j_Status :: string
  j_AssignedWorker :: string
  j_Attempts :: int
  j_Error :: string
  j_CreatedAt :: int
  j_UpdatedAt :: int
  j_StartedAt :: "int option"
  j_FinishedAt :: "int option"

record job_row =
  r_id :: string
  r_name :: string
  r_payload :: string
  r_status :: string
  r_assigned_worker_id :: "string option"
  r_attempts :: int
  r_error :: "string option"
  r_created_at :: int
  r_updated_at :: int
  r_started_at :: "int option"
  r_finished_at :: "int option"

record outbox_row =
  o_id :: string
  o_job_id :: string
  o_status :: string
  o_attempts :: int
  o_last_error :: "string option"
  o_created_at :: int
  o_dispatched_at :: "int option"

record db =
  jobs :: "job_row list"
  outbox :: "outbox_row list"

record OutboxEntry =
  oe_ID :: string
  oe_Attempts :: int
  oe_Job :: Job

record outbox_stats =
  os_Pending :: nat
  os_Dispatched :: nat
  os_Failed :: nat
  os_OldestPending :: int

datatype store_error = ErrNotFound | StoreErr string

type_synonym 'a stored = "store_error + 'a"

fun store_error_text :: "store_error \<Rightarrow> string" where
  "store_error_text ErrNotFound = ''job not found''"
| "store_error_text (StoreErr e) = e"

subsection \<open>The environment of one call\<close>

datatype trip = Done | Failed string | Lost string

record pg =
  pg_now :: int
  pg_new_id :: "nat \<Rightarrow> string"
  pg_uuid_in :: "string \<Rightarrow> string option"
  pg_order :: "nat list"
  pg_trip :: "nat \<Rightarrow> trip"

definition uuid_error :: string where
  "uuid_error = ''invalid input syntax for type uuid''"

definition int4_error :: string where
  "int4_error = ''integer out of range''"

subsection \<open>Statements\<close>

text \<open>An SQL statement on a database: an SQL error, or the affected rows and the new database.\<close>

type_synonym stmt = "db \<Rightarrow> string + nat \<times> db"

definition update_jobs :: "pg \<Rightarrow> string \<Rightarrow> (job_row \<Rightarrow> job_row) \<Rightarrow> stmt" where
  "update_jobs p i f d =
     (case pg_uuid_in p i of
        None \<Rightarrow> Inl uuid_error
      | Some u \<Rightarrow> Inr (length (filter (\<lambda>r. r_id r = u) (jobs d)),
                       d\<lparr>jobs := map (\<lambda>r. if r_id r = u then f r else r) (jobs d)\<rparr>))"

definition update_outbox :: "pg \<Rightarrow> string \<Rightarrow> (outbox_row \<Rightarrow> outbox_row) \<Rightarrow> stmt" where
  "update_outbox p i f d =
     (case pg_uuid_in p i of
        None \<Rightarrow> Inl uuid_error
      | Some u \<Rightarrow> Inr (length (filter (\<lambda>r. o_id r = u) (outbox d)),
                       d\<lparr>outbox := map (\<lambda>r. if o_id r = u then f r else r) (outbox d)\<rparr>))"

text \<open>\<open>Store.exec\<close>: one statement outside a transaction; no affected row is \<open>ErrNotFound\<close>.\<close>

definition exec :: "pg \<Rightarrow> stmt \<Rightarrow> db \<Rightarrow> unit stored \<times> db" where
  "exec p sql d =
     (case pg_trip p 0 of
        Failed e \<Rightarrow> (Inl (StoreErr (''store: '' @ e)), d)
      | Lost e \<Rightarrow> (Inl (StoreErr (''store: '' @ e)), (case sql d of Inl _ \<Rightarrow> d | Inr (_, d') \<Rightarrow> d'))
      | Done \<Rightarrow>
          (case sql d of
             Inl e \<Rightarrow> (Inl (StoreErr (''store: '' @ e)), d)
           | Inr (n, d') \<Rightarrow> if n = 0 then (Inl ErrNotFound, d') else (Inr (), d')))"

text \<open>The end of a transaction that staged \<open>d'\<close>, after round trip number \<open>n\<close>.\<close>

definition commit :: "pg \<Rightarrow> nat \<Rightarrow> 'a \<Rightarrow> db \<Rightarrow> db \<Rightarrow> 'a stored \<times> db" where
  "commit p n x d d' =
     (case pg_trip p n of
        Done \<Rightarrow> (Inr x, d')
      | Failed e \<Rightarrow> (Inl (StoreErr (''store: commit: '' @ e)), d)
      | Lost e \<Rightarrow> (Inl (StoreErr (''store: commit: '' @ e)), d'))"

text \<open>A round trip inside a transaction: an error of any kind rolls the transaction back.\<close>

definition trip_error :: "pg \<Rightarrow> nat \<Rightarrow> string option" where
  "trip_error p n = (case pg_trip p n of Done \<Rightarrow> None | Failed e \<Rightarrow> Some e | Lost e \<Rightarrow> Some e)"

text \<open>
  Reading the rows of a query, counted as round trip \<open>n\<close>: a row that cannot be scanned (\<open>Failed\<close>)
  stops the loop with the error of the scan; a connection that breaks while rows come in (\<open>Lost\<close>) ends
  the loop, and \<open>rows.Err()\<close> is returned as it is.
\<close>

definition rows_error :: "pg \<Rightarrow> nat \<Rightarrow> string \<Rightarrow> store_error option" where
  "rows_error p n scan =
     (case pg_trip p n of Done \<Rightarrow> None | Failed e \<Rightarrow> Some (StoreErr (scan @ e)) | Lost e \<Rightarrow> Some (StoreErr e))"

subsection \<open>Jobs\<close>

text \<open>\<open>jobColumns\<close> and \<open>scanJob\<close>: a row as a job, with \<open>NULL\<close> read as the empty string.\<close>

definition coalesce :: "string option \<Rightarrow> string" where
  "coalesce x = (case x of None \<Rightarrow> [] | Some s \<Rightarrow> s)"

definition nullif_empty :: "string \<Rightarrow> string option" where
  "nullif_empty s = (if s = [] then None else Some s)"

definition job_of_row :: "job_row \<Rightarrow> Job" where
  "job_of_row r =
     \<lparr>j_ID = r_id r, j_Name = r_name r, j_Payload = r_payload r, j_Status = r_status r,
      j_AssignedWorker = coalesce (r_assigned_worker_id r), j_Attempts = r_attempts r,
      j_Error = coalesce (r_error r), j_CreatedAt = r_created_at r, j_UpdatedAt = r_updated_at r,
      j_StartedAt = r_started_at r, j_FinishedAt = r_finished_at r\<rparr>"

definition scanJob :: "pg \<Rightarrow> nat \<Rightarrow> job_row list \<Rightarrow> Job stored" where
  "scanJob p n rows =
     (case trip_error p n of
        Some e \<Rightarrow> Inl (StoreErr (''store: scan job: '' @ e))
      | None \<Rightarrow> (case rows of [] \<Rightarrow> Inl ErrNotFound | r # _ \<Rightarrow> Inr (job_of_row r)))"

text \<open>The row that \<open>INSERT INTO jobs (name, payload)\<close> makes, with the column defaults.\<close>

definition new_job_row :: "pg \<Rightarrow> string \<Rightarrow> string \<Rightarrow> string \<Rightarrow> job_row" where
  "new_job_row p i name payload =
     \<lparr>r_id = i, r_name = name, r_payload = payload, r_status = StatusPending,
      r_assigned_worker_id = None, r_attempts = 0, r_error = None, r_created_at = pg_now p,
      r_updated_at = pg_now p, r_started_at = None, r_finished_at = None\<rparr>"

definition new_outbox_row :: "pg \<Rightarrow> string \<Rightarrow> string \<Rightarrow> outbox_row" where
  "new_outbox_row p i job =
     \<lparr>o_id = i, o_job_id = job, o_status = OutboxPending, o_attempts = 0, o_last_error = None,
      o_created_at = pg_now p, o_dispatched_at = None\<rparr>"

definition CreateJob :: "pg \<Rightarrow> db \<Rightarrow> string \<Rightarrow> string \<Rightarrow> Job stored \<times> db" where
  "CreateJob p d name payload =
     (let r = new_job_row p (pg_new_id p 0) name payload; d' = d\<lparr>jobs := jobs d @ [r]\<rparr>
      in (scanJob p 0 [r], (case pg_trip p 0 of Failed _ \<Rightarrow> d | _ \<Rightarrow> d')))"

definition GetJob :: "pg \<Rightarrow> db \<Rightarrow> string \<Rightarrow> Job stored" where
  "GetJob p d i =
     (case pg_uuid_in p i of
        None \<Rightarrow> (case trip_error p 0 of
             Some e \<Rightarrow> Inl (StoreErr (''store: scan job: '' @ e))
           | None \<Rightarrow> Inl (StoreErr (''store: scan job: '' @ uuid_error)))
      | Some u \<Rightarrow> scanJob p 0 (reorder (pg_order p) (filter (\<lambda>r. r_id r = u) (jobs d))))"

definition ListJobs :: "pg \<Rightarrow> db \<Rightarrow> string \<Rightarrow> int \<Rightarrow> Job list stored" where
  "ListJobs p d status limit =
     (case trip_error p 0 of
        Some e \<Rightarrow> Inl (StoreErr (''store: list jobs: '' @ e))
      | None \<Rightarrow>
          if limit < 0 then Inl (StoreErr (''store: list jobs: '' @ ''LIMIT must not be negative''))
          else
            (case rows_error p 1 ''store: scan job: '' of
               Some e \<Rightarrow> Inl e
             | None \<Rightarrow>
                 Inr (map job_of_row (take (nat limit)
                   (sort_key (\<lambda>r. - r_created_at r)
                     (reorder (pg_order p) (filter (\<lambda>r. status = [] \<or> r_status r = status) (jobs d))))))))"

definition MarkScheduled :: "pg \<Rightarrow> db \<Rightarrow> string \<Rightarrow> string \<Rightarrow> unit stored \<times> db" where
  "MarkScheduled p d i workerInstance =
     exec p (update_jobs p i (\<lambda>r. r\<lparr>r_status := StatusScheduled,
       r_assigned_worker_id := Some workerInstance, r_updated_at := pg_now p\<rparr>)) d"

text \<open>\<open>attempts\<close> is a 32-bit column: the increment past its range is an SQL error.\<close>

definition MarkRunning :: "pg \<Rightarrow> db \<Rightarrow> string \<Rightarrow> unit stored \<times> db" where
  "MarkRunning p d i =
     exec p (\<lambda>d. if (case pg_uuid_in p i of None \<Rightarrow> False
                     | Some u \<Rightarrow> \<exists>r \<in> set (jobs d). r_id r = u \<and> r_attempts r \<ge> 2147483647)
                 then Inl int4_error
                 else update_jobs p i (\<lambda>r. r\<lparr>r_status := StatusRunning, r_started_at := Some (pg_now p),
                   r_attempts := r_attempts r + 1, r_updated_at := pg_now p\<rparr>) d) d"

definition MarkFinished :: "pg \<Rightarrow> db \<Rightarrow> string \<Rightarrow> bool \<Rightarrow> string \<Rightarrow> unit stored \<times> db" where
  "MarkFinished p d i succeeded errMsg =
     (let status = (if \<not> succeeded then StatusFailed else StatusSucceeded)
      in exec p (update_jobs p i (\<lambda>r. r\<lparr>r_status := status, r_error := nullif_empty errMsg,
           r_finished_at := Some (pg_now p), r_updated_at := pg_now p\<rparr>)) d)"

subsection \<open>The outbox\<close>

text \<open>\<open>enqueueOutbox\<close> as round trip \<open>n\<close> of the caller's transaction.\<close>

definition enqueueOutbox :: "pg \<Rightarrow> nat \<Rightarrow> string \<Rightarrow> db \<Rightarrow> db stored" where
  "enqueueOutbox p n jobID d =
     (case trip_error p n of
        Some e \<Rightarrow> Inl (StoreErr (''store: enqueue outbox: '' @ e))
      | None \<Rightarrow>
          (case pg_uuid_in p jobID of
             None \<Rightarrow> Inl (StoreErr (''store: enqueue outbox: '' @ uuid_error))
           | Some u \<Rightarrow> Inr (d\<lparr>outbox := outbox d @ [new_outbox_row p (pg_new_id p n) u]\<rparr>)))"

definition CreateJobWithOutbox :: "pg \<Rightarrow> db \<Rightarrow> string \<Rightarrow> string \<Rightarrow> Job stored \<times> db" where
  "CreateJobWithOutbox p d name payload =
     (case trip_error p 0 of
        Some e \<Rightarrow> (Inl (StoreErr (''store: begin: '' @ e)), d)
      | None \<Rightarrow>
          (let r = new_job_row p (pg_new_id p 1) name payload in
           case scanJob p 1 [r] of
             Inl e \<Rightarrow> (Inl e, d)
           | Inr job \<Rightarrow>
               (case enqueueOutbox p 2 (j_ID job) (d\<lparr>jobs := jobs d @ [r]\<rparr>) of
                  Inl e \<Rightarrow> (Inl e, d)
                | Inr d' \<Rightarrow> commit p 3 job d d')))"

definition in_flight_of :: "string \<Rightarrow> job_row \<Rightarrow> bool" where
  "in_flight_of w r \<longleftrightarrow>
     r_assigned_worker_id r = Some w \<and> (r_status r = StatusScheduled \<or> r_status r = StatusRunning)"

definition reclaim_row :: "pg \<Rightarrow> job_row \<Rightarrow> job_row" where
  "reclaim_row p r =
     r\<lparr>r_status := StatusPending, r_assigned_worker_id := None, r_updated_at := pg_now p\<rparr>"

fun enqueue_all :: "pg \<Rightarrow> nat \<Rightarrow> Job list \<Rightarrow> db \<Rightarrow> db stored" where
  "enqueue_all p n [] d = Inr d"
| "enqueue_all p n (j # js) d =
     (case enqueueOutbox p n (j_ID j) d of
        Inl e \<Rightarrow> Inl e
      | Inr d' \<Rightarrow> enqueue_all p (Suc n) js d')"

definition ReclaimJobs :: "pg \<Rightarrow> db \<Rightarrow> string \<Rightarrow> Job list stored \<times> db" where
  "ReclaimJobs p d w =
     (case trip_error p 0 of
        Some e \<Rightarrow> (Inl (StoreErr (''store: begin: '' @ e)), d)
      | None \<Rightarrow>
          (case trip_error p 1 of
             Some e \<Rightarrow> (Inl (StoreErr (''store: reclaim jobs: '' @ e)), d)
           | None \<Rightarrow>
               (case rows_error p 2 ''store: scan job: '' of
                  Some e \<Rightarrow> (Inl e, d)
                | None \<Rightarrow>
                    (let js = map (job_of_row \<circ> reclaim_row p) (reorder (pg_order p) (filter (in_flight_of w) (jobs d)));
                         d' = d\<lparr>jobs := map (\<lambda>r. if in_flight_of w r then reclaim_row p r else r) (jobs d)\<rparr>
                     in case enqueue_all p 3 js d' of
                          Inl e \<Rightarrow> (Inl e, d)
                        | Inr d'' \<Rightarrow> commit p (3 + length js) js d d''))))"

definition ClaimOutbox :: "pg \<Rightarrow> db \<Rightarrow> int \<Rightarrow> OutboxEntry list stored" where
  "ClaimOutbox p d limit =
     (case trip_error p 0 of
        Some e \<Rightarrow> Inl (StoreErr (''store: claim outbox: '' @ e))
      | None \<Rightarrow>
          if limit < 0 then Inl (StoreErr (''store: claim outbox: '' @ ''LIMIT must not be negative''))
          else
            (case rows_error p 1 ''store: scan outbox entry: '' of
               Some e \<Rightarrow> Inl e
             | None \<Rightarrow>
                 Inr (map (\<lambda>(c, j). \<lparr>oe_ID = o_id c, oe_Attempts = o_attempts c, oe_Job = job_of_row j\<rparr>)
                   (take (nat limit) (sort_key (\<lambda>(c, j). o_created_at c)
                     (reorder (pg_order p)
                       (concat (map (\<lambda>c. map (Pair c) (filter (\<lambda>j. r_id j = o_job_id c) (jobs d)))
                         (filter (\<lambda>c. o_status c = OutboxPending) (outbox d))))))))))"

definition MarkOutboxDispatched :: "pg \<Rightarrow> db \<Rightarrow> string \<Rightarrow> unit stored \<times> db" where
  "MarkOutboxDispatched p d i =
     exec p (update_outbox p i (\<lambda>r. r\<lparr>o_status := OutboxDispatched, o_dispatched_at := Some (pg_now p)\<rparr>)) d"

definition RecordOutboxFailure :: "pg \<Rightarrow> db \<Rightarrow> string \<Rightarrow> string \<Rightarrow> unit stored \<times> db" where
  "RecordOutboxFailure p d i errMsg =
     exec p (\<lambda>d. if (case pg_uuid_in p i of None \<Rightarrow> False
                     | Some u \<Rightarrow> \<exists>r \<in> set (outbox d). o_id r = u \<and> o_attempts r \<ge> 2147483647)
                 then Inl int4_error
                 else update_outbox p i (\<lambda>r. r\<lparr>o_attempts := o_attempts r + 1, o_last_error := Some errMsg\<rparr>) d) d"

definition MarkOutboxFailed :: "pg \<Rightarrow> db \<Rightarrow> string \<Rightarrow> string \<Rightarrow> unit stored \<times> db" where
  "MarkOutboxFailed p d i errMsg =
     exec p (update_outbox p i (\<lambda>r. r\<lparr>o_status := OutboxFailed, o_last_error := Some errMsg\<rparr>)) d"

text \<open>
  \<open>OldestPending\<close> in nanoseconds.  The code passes the age through a \<open>float64\<close> of seconds; the
  model keeps the exact value.
\<close>

definition count_status :: "string \<Rightarrow> db \<Rightarrow> nat" where
  "count_status st d = length (filter (\<lambda>c. o_status c = st) (outbox d))"

definition OutboxStats :: "pg \<Rightarrow> db \<Rightarrow> outbox_stats stored" where
  "OutboxStats p d =
     (case trip_error p 0 of
        Some e \<Rightarrow> Inl (StoreErr (''store: outbox stats: '' @ e))
      | None \<Rightarrow>
          (let ages = map (\<lambda>c. pg_now p - o_created_at c) (filter (\<lambda>c. o_status c = OutboxPending) (outbox d))
           in Inr \<lparr>os_Pending = count_status OutboxPending d,
                   os_Dispatched = count_status OutboxDispatched d,
                   os_Failed = count_status OutboxFailed d,
                   os_OldestPending = (case ages of [] \<Rightarrow> 0 | a # as \<Rightarrow> fold max as a * 1000)\<rparr>))"

subsection \<open>What a statement does, whatever the round trip\<close>

lemma exec_cases:
  assumes "exec p sql d = (res, d')"
  obtains (no_effect) "isl res" "d' = d"
  | (applied) n where "sql d = Inr (n, d')" "res = Inr () \<longrightarrow> n \<noteq> 0"
  using assms by (cases "pg_trip p 0"; cases "sql d") (auto simp: exec_def split: if_splits)

lemma exec_done:
  "pg_trip p 0 = Done \<Longrightarrow> sql d = Inr (n, d') \<Longrightarrow>
     exec p sql d = (if n = 0 then Inl ErrNotFound else Inr (), d')"
  by (simp add: exec_def)

definition on_job :: "string \<Rightarrow> (job_row \<Rightarrow> job_row) \<Rightarrow> db \<Rightarrow> db" where
  "on_job u f d = d\<lparr>jobs := map (\<lambda>r. if r_id r = u then f r else r) (jobs d)\<rparr>"

definition on_command :: "string \<Rightarrow> (outbox_row \<Rightarrow> outbox_row) \<Rightarrow> db \<Rightarrow> db" where
  "on_command u f d = d\<lparr>outbox := map (\<lambda>c. if o_id c = u then f c else c) (outbox d)\<rparr>"

lemma on_job_sel [simp]:
  "jobs (on_job u f d) = map (\<lambda>r. if r_id r = u then f r else r) (jobs d)"
  "outbox (on_job u f d) = outbox d"
  by (simp_all add: on_job_def)

lemma on_command_sel [simp]:
  "jobs (on_command u f d) = jobs d"
  "outbox (on_command u f d) = map (\<lambda>c. if o_id c = u then f c else c) (outbox d)"
  by (simp_all add: on_command_def)

lemma update_jobs_Inr:
  "update_jobs p i f d = Inr (n, d') \<longleftrightarrow>
     (\<exists>u. pg_uuid_in p i = Some u \<and> n = length (filter (\<lambda>r. r_id r = u) (jobs d)) \<and> d' = on_job u f d)"
  by (auto simp: update_jobs_def on_job_def split: option.splits)

lemma update_outbox_Inr:
  "update_outbox p i f d = Inr (n, d') \<longleftrightarrow>
     (\<exists>u. pg_uuid_in p i = Some u \<and> n = length (filter (\<lambda>r. o_id r = u) (outbox d)) \<and> d' = on_command u f d)"
  by (auto simp: update_outbox_def on_command_def split: option.splits)

lemma length_filter_pos: "length (filter P xs) \<noteq> 0 \<longleftrightarrow> (\<exists>x \<in> set xs. P x)"
  by (auto simp: filter_empty_conv)

text \<open>The shape of every single-row update of a job: nothing, or the row function on that job.\<close>

definition job_update :: "(db \<Rightarrow> unit stored \<times> db) \<Rightarrow> pg \<Rightarrow> string \<Rightarrow> (job_row \<Rightarrow> job_row) \<Rightarrow> bool" where
  "job_update F p i f \<longleftrightarrow> (\<forall>d res d'. F d = (res, d') \<longrightarrow>
     isl res \<and> d' = d \<or>
     (\<exists>u. pg_uuid_in p i = Some u \<and> d' = on_job u f d \<and> (res = Inr () \<longrightarrow> (\<exists>r \<in> set (jobs d). r_id r = u))))"

definition command_update :: "(db \<Rightarrow> unit stored \<times> db) \<Rightarrow> pg \<Rightarrow> string \<Rightarrow> (outbox_row \<Rightarrow> outbox_row) \<Rightarrow> bool" where
  "command_update F p i f \<longleftrightarrow> (\<forall>d res d'. F d = (res, d') \<longrightarrow>
     isl res \<and> d' = d \<or>
     (\<exists>u. pg_uuid_in p i = Some u \<and> d' = on_command u f d \<and> (res = Inr () \<longrightarrow> (\<exists>c \<in> set (outbox d). o_id c = u))))"

lemma job_updateE:
  assumes "job_update F p i f" "F d = (res, d')"
  obtains (nothing) "isl res" "d' = d"
  | (row) u where "pg_uuid_in p i = Some u" "d' = on_job u f d" "res = Inr () \<Longrightarrow> \<exists>r \<in> set (jobs d). r_id r = u"
  using assms unfolding job_update_def by blast

lemma command_updateE:
  assumes "command_update F p i f" "F d = (res, d')"
  obtains (nothing) "isl res" "d' = d"
  | (row) u where "pg_uuid_in p i = Some u" "d' = on_command u f d" "res = Inr () \<Longrightarrow> \<exists>c \<in> set (outbox d). o_id c = u"
  using assms unfolding command_update_def by blast

text \<open>An update of one job keeps the commands, the other jobs and the ids.\<close>

lemma job_update_frame:
  assumes "job_update F p i f" "F d = (res, d')" "\<And>r. r_id (f r) = r_id r"
  shows "outbox d' = outbox d"
    and "list_all2 (\<lambda>r r'. r' = r \<or> Some (r_id r) = pg_uuid_in p i \<and> r_id r' = r_id r) (jobs d) (jobs d')"
proof -
  from assms(1,2) have "outbox d' = outbox d \<and>
      list_all2 (\<lambda>r r'. r' = r \<or> Some (r_id r) = pg_uuid_in p i \<and> r_id r' = r_id r) (jobs d) (jobs d')"
  proof (cases rule: job_updateE)
    case nothing
    then show ?thesis by (simp add: list.rel_refl)
  next
    case (row u)
    then show ?thesis by (auto simp: list.rel_map assms(3) intro!: list.rel_refl_strong)
  qed
  then show "outbox d' = outbox d"
    "list_all2 (\<lambda>r r'. r' = r \<or> Some (r_id r) = pg_uuid_in p i \<and> r_id r' = r_id r) (jobs d) (jobs d')"
    by blast+
qed

lemma exec_job_update:
  assumes "\<And>d n d'. sql d = Inr (n, d') \<Longrightarrow> update_jobs p i f d = Inr (n, d')"
  shows "job_update (exec p sql) p i f"
  unfolding job_update_def
proof (intro allI impI)
  fix d res d'
  assume "exec p sql d = (res, d')"
  then show "isl res \<and> d' = d \<or> (\<exists>u. pg_uuid_in p i = Some u \<and> d' = on_job u f d \<and>
      (res = Inr () \<longrightarrow> (\<exists>r \<in> set (jobs d). r_id r = u)))"
  proof (cases rule: exec_cases)
    case (applied n)
    then obtain u where u: "pg_uuid_in p i = Some u" "n = length (filter (\<lambda>r. r_id r = u) (jobs d))"
        "d' = on_job u f d"
      using assms update_jobs_Inr by blast
    have "res = Inr () \<longrightarrow> (\<exists>r \<in> set (jobs d). r_id r = u)"
      using applied(2) unfolding u(2) length_filter_pos .
    with u(1,3) show ?thesis by blast
  qed simp
qed

lemma exec_command_update:
  assumes "\<And>d n d'. sql d = Inr (n, d') \<Longrightarrow> update_outbox p i f d = Inr (n, d')"
  shows "command_update (exec p sql) p i f"
  unfolding command_update_def
proof (intro allI impI)
  fix d res d'
  assume "exec p sql d = (res, d')"
  then show "isl res \<and> d' = d \<or> (\<exists>u. pg_uuid_in p i = Some u \<and> d' = on_command u f d \<and>
      (res = Inr () \<longrightarrow> (\<exists>c \<in> set (outbox d). o_id c = u)))"
  proof (cases rule: exec_cases)
    case (applied n)
    then obtain u where u: "pg_uuid_in p i = Some u" "n = length (filter (\<lambda>c. o_id c = u) (outbox d))"
        "d' = on_command u f d"
      using assms update_outbox_Inr by blast
    have "res = Inr () \<longrightarrow> (\<exists>c \<in> set (outbox d). o_id c = u)"
      using applied(2) unfolding u(2) length_filter_pos .
    with u(1,3) show ?thesis by blast
  qed simp
qed

lemma MarkScheduled_update:
  "job_update (\<lambda>d. MarkScheduled p d i w) p i
     (\<lambda>r. r\<lparr>r_status := StatusScheduled, r_assigned_worker_id := Some w, r_updated_at := pg_now p\<rparr>)"
  unfolding MarkScheduled_def by (rule exec_job_update)

lemma MarkRunning_update:
  "job_update (\<lambda>d. MarkRunning p d i) p i
     (\<lambda>r. r\<lparr>r_status := StatusRunning, r_started_at := Some (pg_now p), r_attempts := r_attempts r + 1,
          r_updated_at := pg_now p\<rparr>)"
  unfolding MarkRunning_def by (rule exec_job_update) (auto split: if_splits)

lemma MarkFinished_update:
  "job_update (\<lambda>d. MarkFinished p d i ok msg) p i
     (\<lambda>r. r\<lparr>r_status := (if \<not> ok then StatusFailed else StatusSucceeded), r_error := nullif_empty msg,
          r_finished_at := Some (pg_now p), r_updated_at := pg_now p\<rparr>)"
  unfolding MarkFinished_def Let_def by (rule exec_job_update)

lemma MarkOutboxDispatched_update:
  "command_update (\<lambda>d. MarkOutboxDispatched p d i) p i
     (\<lambda>r. r\<lparr>o_status := OutboxDispatched, o_dispatched_at := Some (pg_now p)\<rparr>)"
  unfolding MarkOutboxDispatched_def by (rule exec_command_update)

lemma RecordOutboxFailure_update:
  "command_update (\<lambda>d. RecordOutboxFailure p d i msg) p i
     (\<lambda>r. r\<lparr>o_attempts := o_attempts r + 1, o_last_error := Some msg\<rparr>)"
  unfolding RecordOutboxFailure_def by (rule exec_command_update) (auto split: if_splits)

lemma MarkOutboxFailed_update:
  "command_update (\<lambda>d. MarkOutboxFailed p d i msg) p i
     (\<lambda>r. r\<lparr>o_status := OutboxFailed, o_last_error := Some msg\<rparr>)"
  unfolding MarkOutboxFailed_def by (rule exec_command_update)

subsection \<open>Well-formed databases and fresh ids\<close>

definition job_statuses :: "string set" where
  "job_statuses = {StatusPending, StatusScheduled, StatusRunning, StatusSucceeded, StatusFailed}"

definition outbox_statuses :: "string set" where
  "outbox_statuses = {OutboxPending, OutboxDispatched, OutboxFailed}"

definition wf_db :: "db \<Rightarrow> bool" where
  "wf_db d \<longleftrightarrow>
     distinct (map r_id (jobs d)) \<and> distinct (map o_id (outbox d))
     \<and> (\<forall>r \<in> set (jobs d). r_status r \<in> job_statuses)
     \<and> (\<forall>c \<in> set (outbox d). o_status c \<in> outbox_statuses \<and> o_job_id c \<in> r_id ` set (jobs d))"

definition ids :: "db \<Rightarrow> string set" where
  "ids d = r_id ` set (jobs d) \<union> o_id ` set (outbox d)"

text \<open>What the store relies on: random ids are new, and an id is its own canonical text.\<close>

definition pg_ok :: "pg \<Rightarrow> db \<Rightarrow> bool" where
  "pg_ok p d \<longleftrightarrow>
     inj (pg_new_id p) \<and> (\<forall>n. pg_new_id p n \<notin> ids d)
     \<and> (\<forall>n. pg_uuid_in p (pg_new_id p n) = Some (pg_new_id p n))
     \<and> (\<forall>u \<in> ids d. pg_uuid_in p u = Some u)"

lemma wf_db_empty: "wf_db \<lparr>jobs = [], outbox = []\<rparr>"
  by (simp add: wf_db_def)

lemma map_id_on_job:
  assumes "\<And>r. r_id (f r) = r_id r"
  shows "map r_id (jobs (on_job u f d)) = map r_id (jobs d)"
  by (simp add: assms)

lemma ids_on_job:
  assumes "\<And>r. r_id (f r) = r_id r"
  shows "r_id ` set (jobs (on_job u f d)) = r_id ` set (jobs d)"
  using map_id_on_job [of f u d] assms by (metis set_map)

lemma on_job_rowE:
  assumes "r \<in> set (jobs (on_job u f d))"
  obtains (hit) r0 where "r0 \<in> set (jobs d)" "r_id r0 = u" "r = f r0" | (other) "r \<in> set (jobs d)" "r_id r \<noteq> u"
  using assms by (auto split: if_splits)

lemma wf_db_on_job:
  assumes "wf_db d" "\<And>r. r_id (f r) = r_id r" "\<And>r. r_status (f r) \<in> job_statuses"
  shows "wf_db (on_job u f d)"
proof -
  have i: "map r_id (jobs (on_job u f d)) = map r_id (jobs d)" by (rule map_id_on_job) (rule assms)
  then have s: "r_id ` set (jobs (on_job u f d)) = r_id ` set (jobs d)" by (metis set_map)
  have "\<forall>r \<in> set (jobs (on_job u f d)). r_status r \<in> job_statuses"
    using assms by (auto simp: wf_db_def)
  then show ?thesis using assms(1) unfolding wf_db_def i s by simp
qed

lemma wf_db_on_command:
  assumes "wf_db d" "\<And>c. o_id (f c) = o_id c" "\<And>c. o_job_id (f c) = o_job_id c"
    and "\<And>c. o_status c \<in> outbox_statuses \<Longrightarrow> o_status (f c) \<in> outbox_statuses"
  shows "wf_db (on_command u f d)"
proof -
  have "map o_id (outbox (on_command u f d)) = map o_id (outbox d)" by (simp add: assms)
  then show ?thesis using assms by (auto simp: wf_db_def simp del: map_map)
qed

lemma wf_job_update:
  assumes "job_update F p i f" "F d = (res, d')" "wf_db d"
    and "\<And>r. r_id (f r) = r_id r" "\<And>r. r_status (f r) \<in> job_statuses"
  shows "wf_db d'"
  using assms(1-3) wf_db_on_job [OF assms(3-5)] unfolding job_update_def by blast

lemma wf_command_update:
  assumes "command_update F p i f" "F d = (res, d')" "wf_db d"
    and "\<And>c. o_id (f c) = o_id c" "\<And>c. o_job_id (f c) = o_job_id c"
    and "\<And>c. o_status c \<in> outbox_statuses \<Longrightarrow> o_status (f c) \<in> outbox_statuses"
  shows "wf_db d'"
  using assms(1-3) wf_db_on_command [OF assms(3-6)] unfolding command_update_def by blast

subsection \<open>The two transactions\<close>

text \<open>What creating a job stages: the job and the command that will dispatch it.\<close>

definition with_new_job :: "pg \<Rightarrow> string \<Rightarrow> string \<Rightarrow> db \<Rightarrow> db" where
  "with_new_job p name payload d =
     d\<lparr>jobs := jobs d @ [new_job_row p (pg_new_id p 1) name payload],
       outbox := outbox d @ [new_outbox_row p (pg_new_id p 2) (pg_new_id p 1)]\<rparr>"

lemma commit_cases:
  assumes "commit p n x d d1 = (res, d')"
  obtains "isl res" "d' = d" | "d' = d1" "isl res \<or> res = Inr x"
  using assms by (cases "pg_trip p n") (auto simp: commit_def)

lemma CreateJobWithOutbox_cases:
  assumes "pg_uuid_in p (pg_new_id p 1) = Some (pg_new_id p 1)"
    and "CreateJobWithOutbox p d name payload = (res, d')"
  obtains (nothing) "isl res" "d' = d"
  | (both) "d' = with_new_job p name payload d"
      "isl res \<or> res = Inr (job_of_row (new_job_row p (pg_new_id p 1) name payload))"
proof (cases "trip_error p 0 = None \<and> trip_error p 1 = None \<and> trip_error p 2 = None")
  case False
  with assms have "isl res" "d' = d"
    by (auto simp: CreateJobWithOutbox_def scanJob_def enqueueOutbox_def Let_def split: option.splits)
  then show ?thesis by (rule nothing)
next
  case True
  let ?j = "job_of_row (new_job_row p (pg_new_id p 1) name payload)"
  have "j_ID ?j = pg_new_id p 1" by (simp add: job_of_row_def new_job_row_def)
  with assms True have "commit p 3 ?j d (with_new_job p name payload d) = (res, d')"
    by (simp add: CreateJobWithOutbox_def scanJob_def enqueueOutbox_def Let_def with_new_job_def)
  then show ?thesis
  proof (rule commit_cases)
    assume "isl res" "d' = d"
    then show ?thesis by (rule nothing)
  next
    assume "d' = with_new_job p name payload d" "isl res \<or> res = Inr ?j"
    then show ?thesis by (rule both)
  qed
qed

fun new_commands :: "pg \<Rightarrow> nat \<Rightarrow> string list \<Rightarrow> outbox_row list" where
  "new_commands p n [] = []"
| "new_commands p n (i # is) = new_outbox_row p (pg_new_id p n) i # new_commands p (Suc n) is"

lemma enqueue_all_Inr:
  assumes "\<forall>j \<in> set js. pg_uuid_in p (j_ID j) = Some (j_ID j)" "enqueue_all p n js d = Inr d'"
  shows "d' = d\<lparr>outbox := outbox d @ new_commands p n (map j_ID js)\<rparr>"
  using assms
proof (induction js arbitrary: n d)
  case Nil
  then show ?case by simp
next
  case (Cons j js)
  from Cons.prems obtain d1 where "enqueueOutbox p n (j_ID j) d = Inr d1" "enqueue_all p (Suc n) js d1 = Inr d'"
    by (auto split: sum.splits)
  moreover from this(1) Cons.prems(1)
  have "d1 = d\<lparr>outbox := outbox d @ [new_outbox_row p (pg_new_id p n) (j_ID j)]\<rparr>"
    by (auto simp: enqueueOutbox_def split: option.splits)
  ultimately show ?case using Cons.IH [of "Suc n" d1] Cons.prems(1) by simp
qed

text \<open>The rows that a reclaim takes back, in the order in which they are returned.\<close>

definition reclaimed :: "pg \<Rightarrow> string \<Rightarrow> db \<Rightarrow> job_row list" where
  "reclaimed p w d = reorder (pg_order p) (filter (in_flight_of w) (jobs d))"

definition with_reclaimed :: "pg \<Rightarrow> string \<Rightarrow> db \<Rightarrow> db" where
  "with_reclaimed p w d =
     d\<lparr>jobs := map (\<lambda>r. if in_flight_of w r then reclaim_row p r else r) (jobs d),
       outbox := outbox d @ new_commands p 3 (map r_id (reclaimed p w d))\<rparr>"

lemma set_reclaimed [simp]: "set (reclaimed p w d) = {r \<in> set (jobs d). in_flight_of w r}"
  by (simp add: reclaimed_def)

lemma reclaim_row_id [simp]: "r_id (reclaim_row p r) = r_id r"
  by (simp add: reclaim_row_def)

lemma job_of_row_sel [simp]:
  "j_ID (job_of_row r) = r_id r" "j_Status (job_of_row r) = r_status r"
  "j_Attempts (job_of_row r) = r_attempts r" "j_Name (job_of_row r) = r_name r"
  "j_Payload (job_of_row r) = r_payload r"
  by (simp_all add: job_of_row_def)

lemma ReclaimJobs_cases:
  assumes "\<forall>r \<in> set (jobs d). pg_uuid_in p (r_id r) = Some (r_id r)"
    and "ReclaimJobs p d w = (res, d')"
  obtains (nothing) "isl res" "d' = d"
  | (both) "d' = with_reclaimed p w d"
      "isl res \<or> res = Inr (map (job_of_row \<circ> reclaim_row p) (reclaimed p w d))"
proof -
  let ?js = "map (job_of_row \<circ> reclaim_row p) (reclaimed p w d)"
  let ?d = "d\<lparr>jobs := map (\<lambda>r. if in_flight_of w r then reclaim_row p r else r) (jobs d)\<rparr>"
  show ?thesis
  proof (cases "\<exists>d1. trip_error p 0 = None \<and> trip_error p 1 = None \<and> rows_error p 2 ''store: scan job: '' = None \<and> enqueue_all p 3 ?js ?d = Inr d1")
    case False
    with assms(2) have "isl res" "d' = d"
      by (auto simp: ReclaimJobs_def Let_def reclaimed_def split: option.splits sum.splits)
    then show ?thesis by (rule nothing)
  next
    case True
    then obtain d1 where d1: "trip_error p 0 = None" "trip_error p 1 = None" "enqueue_all p 3 ?js ?d = Inr d1"
        "rows_error p 2 ''store: scan job: '' = None"
      by blast
    have "d1 = ?d\<lparr>outbox := outbox ?d @ new_commands p 3 (map j_ID ?js)\<rparr>"
      using assms(1) by (intro enqueue_all_Inr [OF _ d1(3)]) auto
    then have "d1 = with_reclaimed p w d" by (simp add: with_reclaimed_def comp_def)
    with assms(2) d1 have "commit p (3 + length ?js) ?js d (with_reclaimed p w d) = (res, d')"
      by (simp add: ReclaimJobs_def Let_def reclaimed_def)
    then show ?thesis
    proof (rule commit_cases)
      assume "isl res" "d' = d"
      then show ?thesis by (rule nothing)
    next
      assume "d' = with_reclaimed p w d" "isl res \<or> res = Inr ?js"
      then show ?thesis by (rule both)
    qed
  qed
qed

lemma set_new_commands:
  "c \<in> set (new_commands p n is) \<Longrightarrow>
     o_status c = OutboxPending \<and> o_attempts c = 0 \<and> o_job_id c \<in> set is \<and> (\<exists>k \<ge> n. o_id c = pg_new_id p k)"
proof (induction "is" arbitrary: n)
  case (Cons i "is")
  show ?case
  proof (cases "c = new_outbox_row p (pg_new_id p n) i")
    case True
    then show ?thesis by (auto simp: new_outbox_row_def)
  next
    case False
    with Cons.prems have "c \<in> set (new_commands p (Suc n) is)" by simp
    from Cons.IH [OF this] show ?thesis by (auto intro: Suc_leD)
  qed
qed simp

lemma new_commands_job_ids [simp]: "map o_job_id (new_commands p n is) = is"
  by (induction "is" arbitrary: n) (simp_all add: new_outbox_row_def)

lemma new_commands_cover: "i \<in> set is \<Longrightarrow> \<exists>c \<in> set (new_commands p n is). o_job_id c = i"
  by (metis image_iff new_commands_job_ids set_map)

lemma distinct_new_commands: "inj (pg_new_id p) \<Longrightarrow> distinct (map o_id (new_commands p n is))"
proof (induction "is" arbitrary: n)
  case (Cons i "is")
  then show ?case by (auto simp: new_outbox_row_def dest!: set_new_commands) (metis injD not_less_eq_eq order_refl)
qed simp

lemma wf_with_new_job:
  assumes "wf_db d" "pg_ok p d"
  shows "wf_db (with_new_job p name payload d)"
  using assms
  by (auto simp: wf_db_def pg_ok_def ids_def with_new_job_def new_job_row_def new_outbox_row_def
      job_statuses_def outbox_statuses_def)

lemma wf_with_reclaimed:
  assumes "wf_db d" "pg_ok p d"
  shows "wf_db (with_reclaimed p w d)"
proof -
  have i: "map r_id (jobs (with_reclaimed p w d)) = map r_id (jobs d)"
    by (simp add: with_reclaimed_def)
  then have s: "r_id ` set (jobs (with_reclaimed p w d)) = r_id ` set (jobs d)" by (metis set_map)
  have "o_id c \<notin> o_id ` set (outbox d)" if "c \<in> set (new_commands p 3 is)" for c "is"
    using set_new_commands [OF that] assms(2) unfolding pg_ok_def ids_def by (metis Un_iff)
  then have "o_id ` set (outbox d) \<inter> o_id ` set (new_commands p 3 is) = {}" for "is"
    by (intro equals0I) (metis IntE imageE)
  then have "distinct (map o_id (outbox (with_reclaimed p w d)))"
    using assms by (simp add: wf_db_def pg_ok_def with_reclaimed_def distinct_new_commands)
  moreover have "\<forall>r \<in> set (jobs (with_reclaimed p w d)). r_status r \<in> job_statuses"
    using assms(1) by (auto simp: wf_db_def with_reclaimed_def reclaim_row_def job_statuses_def)
  moreover have "\<forall>c \<in> set (outbox (with_reclaimed p w d)). o_status c \<in> outbox_statuses \<and> o_job_id c \<in> r_id ` set (jobs d)"
    using assms(1) by (auto simp: wf_db_def with_reclaimed_def outbox_statuses_def dest!: set_new_commands)
  ultimately show ?thesis using assms(1) unfolding wf_db_def i s by simp
qed

subsection \<open>Every operation keeps the database well-formed\<close>

text \<open>One of the writing operations, with the environment of its call.\<close>

datatype db_op =
    Op_CreateJob string string
  | Op_CreateJobWithOutbox string string
  | Op_MarkScheduled string string
  | Op_MarkRunning string
  | Op_MarkFinished string bool string
  | Op_ReclaimJobs string
  | Op_MarkOutboxDispatched string
  | Op_RecordOutboxFailure string string
  | Op_MarkOutboxFailed string string

fun run_op :: "pg \<Rightarrow> db_op \<Rightarrow> db \<Rightarrow> db" where
  "run_op p (Op_CreateJob n b) d = snd (CreateJob p d n b)"
| "run_op p (Op_CreateJobWithOutbox n b) d = snd (CreateJobWithOutbox p d n b)"
| "run_op p (Op_MarkScheduled i w) d = snd (MarkScheduled p d i w)"
| "run_op p (Op_MarkRunning i) d = snd (MarkRunning p d i)"
| "run_op p (Op_MarkFinished i s e) d = snd (MarkFinished p d i s e)"
| "run_op p (Op_ReclaimJobs w) d = snd (ReclaimJobs p d w)"
| "run_op p (Op_MarkOutboxDispatched i) d = snd (MarkOutboxDispatched p d i)"
| "run_op p (Op_RecordOutboxFailure i e) d = snd (RecordOutboxFailure p d i e)"
| "run_op p (Op_MarkOutboxFailed i e) d = snd (MarkOutboxFailed p d i e)"

lemma wf_CreateJob: "wf_db d \<Longrightarrow> pg_ok p d \<Longrightarrow> wf_db (snd (CreateJob p d n b))"
  by (cases "pg_trip p 0")
    (auto simp: CreateJob_def Let_def wf_db_def pg_ok_def ids_def new_job_row_def job_statuses_def)

lemma wf_CreateJobWithOutbox:
  assumes "wf_db d" "pg_ok p d"
  shows "wf_db (snd (CreateJobWithOutbox p d n b))"
proof -
  obtain res d' where r: "CreateJobWithOutbox p d n b = (res, d')" by fastforce
  have "pg_uuid_in p (pg_new_id p 1) = Some (pg_new_id p 1)" using assms(2) by (simp add: pg_ok_def)
  from CreateJobWithOutbox_cases [OF this r] show ?thesis
    using assms wf_with_new_job r by cases auto
qed

lemma wf_ReclaimJobs:
  assumes "wf_db d" "pg_ok p d"
  shows "wf_db (snd (ReclaimJobs p d w))"
proof -
  obtain res d' where r: "ReclaimJobs p d w = (res, d')" by fastforce
  have "\<forall>r \<in> set (jobs d). pg_uuid_in p (r_id r) = Some (r_id r)" using assms(2) by (simp add: pg_ok_def ids_def)
  from ReclaimJobs_cases [OF this r] show ?thesis
    using assms wf_with_reclaimed r by cases auto
qed

lemmas wf_updates =
  wf_job_update [OF MarkScheduled_update prod.collapse [symmetric]]
  wf_job_update [OF MarkRunning_update prod.collapse [symmetric]]
  wf_job_update [OF MarkFinished_update prod.collapse [symmetric]]
  wf_command_update [OF MarkOutboxDispatched_update prod.collapse [symmetric]]
  wf_command_update [OF RecordOutboxFailure_update prod.collapse [symmetric]]
  wf_command_update [OF MarkOutboxFailed_update prod.collapse [symmetric]]

lemma wf_run_op:
  assumes "wf_db d" "pg_ok p d"
  shows "wf_db (run_op p x d)"
  using assms
  by (cases x) (auto simp: wf_CreateJob wf_CreateJobWithOutbox wf_ReclaimJobs
      job_statuses_def outbox_statuses_def intro: wf_updates)

subsection \<open>The claimed batch\<close>

lemma ClaimOutbox_Inr:
  assumes "ClaimOutbox p d limit = Inr es"
  shows "0 \<le> limit" "trip_error p 0 = None"
    "es = map (\<lambda>(c, j). \<lparr>oe_ID = o_id c, oe_Attempts = o_attempts c, oe_Job = job_of_row j\<rparr>)
            (take (nat limit) (sort_key (\<lambda>(c, j). o_created_at c)
              (reorder (pg_order p)
                (concat (map (\<lambda>c. map (Pair c) (filter (\<lambda>j. r_id j = o_job_id c) (jobs d)))
                  (filter (\<lambda>c. o_status c = OutboxPending) (outbox d)))))))"
  using assms by (auto simp: ClaimOutbox_def split: option.splits if_splits)

lemma ClaimOutbox_entry:
  assumes "ClaimOutbox p d limit = Inr es" "e \<in> set es"
  obtains c j where "c \<in> set (outbox d)" "j \<in> set (jobs d)" "o_status c = OutboxPending"
    "r_id j = o_job_id c" "oe_ID e = o_id c" "oe_Attempts e = o_attempts c" "oe_Job e = job_of_row j"
proof -
  from assms(2) obtain c j where "(c, j) \<in> set (take (nat limit) (sort_key (\<lambda>(c, j). o_created_at c)
              (reorder (pg_order p)
                (concat (map (\<lambda>c. map (Pair c) (filter (\<lambda>j. r_id j = o_job_id c) (jobs d)))
                  (filter (\<lambda>c. o_status c = OutboxPending) (outbox d)))))))"
    and e: "e = \<lparr>oe_ID = o_id c, oe_Attempts = o_attempts c, oe_Job = job_of_row j\<rparr>"
    unfolding ClaimOutbox_Inr(3) [OF assms(1)] by auto
  from set_mp [OF set_take_subset this(1)] show ?thesis by (intro that [of c j]) (auto simp: e)
qed

text \<open>Every command has exactly one job, so the join of a claim has one row per pending command.\<close>

lemma join_fst:
  assumes "wf_db d" "set cs \<subseteq> set (outbox d)"
  shows "map fst (concat (map (\<lambda>c. map (Pair c) (filter (\<lambda>j. r_id j = o_job_id c) (jobs d))) cs)) = cs"
  using assms(2)
proof (induction cs)
  case (Cons c cs)
  then obtain j where "j \<in> set (jobs d)" "r_id j = o_job_id c" using assms(1) by (auto simp: wf_db_def image_iff)
  then have "filter (\<lambda>j. r_id j = o_job_id c) (jobs d) = [j]"
    using filter_unique [of r_id "jobs d" j] assms(1) by (simp add: wf_db_def)
  then show ?case using Cons by simp
qed simp

subsection \<open>The properties\<close>

text \<open>
  C12 The transactional outbox write is atomic, whatever fails and whenever: after
  \<open>CreateJobWithOutbox\<close> the database is unchanged and an error is returned, or it holds exactly
  one more job, pending, and exactly one more command, pending and naming that job.  In
  particular success means both rows are there.
\<close>

theorem CreateJobWithOutbox_atomic:
  assumes "pg_ok p d" "CreateJobWithOutbox p d name payload = (res, d')"
  shows "(isl res \<and> d' = d)
       \<or> (\<exists>r c. jobs d' = jobs d @ [r] \<and> outbox d' = outbox d @ [c]
            \<and> r_id r \<notin> ids d \<and> r_name r = name \<and> r_payload r = payload \<and> r_status r = StatusPending
            \<and> r_attempts r = 0 \<and> o_job_id c = r_id r \<and> o_status c = OutboxPending \<and> o_attempts c = 0
            \<and> (isl res \<or> res = Inr (job_of_row r)))"
proof -
  have "pg_uuid_in p (pg_new_id p 1) = Some (pg_new_id p 1)" "pg_new_id p 1 \<notin> ids d"
    using assms(1) by (simp_all add: pg_ok_def)
  from CreateJobWithOutbox_cases [OF this(1) assms(2)] this(2) show ?thesis
    by cases (auto simp: with_new_job_def new_job_row_def new_outbox_row_def)
qed

definition ex_pg :: pg where
  "ex_pg = \<lparr>pg_now = 7, pg_new_id = (\<lambda>n. ''id-'' @ replicate n CHR ''x''), pg_uuid_in = Some,
            pg_order = [], pg_trip = (\<lambda>_. Done)\<rparr>"

definition ex_db0 :: db where
  "ex_db0 = \<lparr>jobs = [], outbox = []\<rparr>"

lemma ex_pg_ok: "pg_ok ex_pg ex_db0"
  by (auto simp: pg_ok_def ex_pg_def ex_db0_def ids_def inj_def)

text \<open>Ids of examples with several calls: call \<open>n\<close> draws ids of its own.\<close>

lemma ex_ids_disjoint:
  assumes "n \<noteq> m"
  shows "''n'' @ replicate n CHR ''x'' @ ''/'' @ ys \<noteq> ''n'' @ replicate m CHR ''x'' @ ''/'' @ zs"
proof -
  have "takeWhile (\<lambda>c. c = CHR ''x'') (replicate k CHR ''x'' @ ''/'' @ xs) = replicate k CHR ''x''" for k xs
    by (simp add: takeWhile_append)
  then show ?thesis using assms by (metis append_same_eq same_append_eq length_replicate)
qed

theorem CreateJobWithOutbox_atomic_witness:
  "pg_ok ex_pg ex_db0
   \<and> (\<exists>r c. jobs (snd (CreateJobWithOutbox ex_pg ex_db0 ''demo'' [])) = [r]
        \<and> outbox (snd (CreateJobWithOutbox ex_pg ex_db0 ''demo'' [])) = [c] \<and> o_job_id c = r_id r)"
proof -
  obtain res d' where r: "CreateJobWithOutbox ex_pg ex_db0 ''demo'' [] = (res, d')" by fastforce
  moreover have "\<not> isl (fst (CreateJobWithOutbox ex_pg ex_db0 ''demo'' []))" by code_simp
  ultimately show ?thesis
    using CreateJobWithOutbox_atomic [OF ex_pg_ok r] ex_pg_ok by (auto simp: ex_db0_def)
qed

text \<open>
  C13 Reclaiming a crashed worker's jobs is atomic: nothing happens and an error is returned, or
  exactly the jobs that are assigned to that worker with status scheduled or running go back to status
  pending without an assignment, keeping everything else of their row but the time of the update;
  every other job is untouched; each reclaimed job gets exactly one new pending command and no other
  command changes.  A success returns exactly the reclaimed jobs.
\<close>

theorem ReclaimJobs_atomic:
  assumes "wf_db d" "pg_ok p d" "ReclaimJobs p d w = (res, d')"
  defines "lost \<equiv> \<lambda>r. r_assigned_worker_id r = Some w \<and> r_status r \<in> {''scheduled'', ''running''}"
  shows "(isl res \<and> d' = d)
       \<or> (jobs d' = map (\<lambda>r. if lost r then r\<lparr>r_status := ''pending'', r_assigned_worker_id := None, r_updated_at := pg_now p\<rparr> else r) (jobs d)
          \<and> (\<exists>cs. outbox d' = outbox d @ cs \<and> distinct (map o_id cs)
               \<and> mset (map o_job_id cs) = mset (map r_id (filter lost (jobs d)))
               \<and> (\<forall>c \<in> set cs. o_status c = ''pending'' \<and> o_attempts c = 0 \<and> o_id c \<notin> ids d))
          \<and> (isl res \<or> mset (map j_ID (projr res)) = mset (map r_id (filter lost (jobs d)))))"
proof -
  have lost: "in_flight_of w = lost" by (auto simp: fun_eq_iff in_flight_of_def lost_def StatusScheduled_def StatusRunning_def)
  have row: "reclaim_row p r = r\<lparr>r_status := ''pending'', r_assigned_worker_id := None, r_updated_at := pg_now p\<rparr>" for r
    by (simp add: reclaim_row_def StatusPending_def)
  have "\<forall>r \<in> set (jobs d). pg_uuid_in p (r_id r) = Some (r_id r)" using assms(2) by (simp add: pg_ok_def ids_def)
  from this assms(3) show ?thesis
  proof (cases rule: ReclaimJobs_cases)
    case nothing
    then show ?thesis by blast
  next
    case both
    let ?cs = "new_commands p 3 (map r_id (reclaimed p w d))"
    have "\<forall>c \<in> set ?cs. o_status c = ''pending'' \<and> o_attempts c = 0 \<and> o_id c \<notin> ids d"
      using set_new_commands assms(2) unfolding pg_ok_def OutboxPending_def by metis
    moreover have "distinct (map o_id ?cs)" using assms(2) by (simp add: pg_ok_def distinct_new_commands)
    moreover have "mset (map o_job_id ?cs) = mset (map r_id (filter lost (jobs d)))"
      by (simp add: reclaimed_def lost)
    moreover have "outbox d' = outbox d @ ?cs"
        "jobs d' = map (\<lambda>r. if lost r then r\<lparr>r_status := ''pending'', r_assigned_worker_id := None, r_updated_at := pg_now p\<rparr> else r) (jobs d)"
      using both(1) by (simp_all add: with_reclaimed_def lost row)
    moreover have "isl res \<or> mset (map j_ID (projr res)) = mset (map r_id (filter lost (jobs d)))"
      using both(2) by (auto simp: comp_def reclaimed_def lost multiset.map_comp)
    ultimately show ?thesis by blast
  qed
qed

definition ex_row :: "string \<Rightarrow> string \<Rightarrow> string option \<Rightarrow> job_row" where
  "ex_row i st w = \<lparr>r_id = i, r_name = ''n'', r_payload = [], r_status = st, r_assigned_worker_id = w,
     r_attempts = 1, r_error = None, r_created_at = 1, r_updated_at = 1, r_started_at = None, r_finished_at = None\<rparr>"

definition ex_db1 :: db where
  "ex_db1 = \<lparr>jobs = [ex_row ''j1'' StatusRunning (Some ''worker-1''), ex_row ''j2'' StatusSucceeded (Some ''worker-1'')],
             outbox = []\<rparr>"

definition ex_db3 :: db where
  "ex_db3 = \<lparr>jobs = [ex_row ''j1'' StatusRunning (Some ''worker-1''), ex_row ''j2'' StatusSucceeded (Some ''worker-1''),
     ex_row ''j3'' StatusScheduled (Some ''worker-1''), ex_row ''j4'' StatusRunning (Some ''worker-2'')], outbox = []\<rparr>"

lemma ex_db3_ok: "wf_db ex_db3" "pg_ok ex_pg ex_db3"
  by (auto simp: wf_db_def ex_db3_def ex_row_def job_statuses_def pg_ok_def ex_pg_def ids_def inj_def)

lemma ex_db1_ok: "wf_db ex_db1" "pg_ok ex_pg ex_db1"
  by (auto simp: wf_db_def ex_db1_def ex_row_def job_statuses_def pg_ok_def ex_pg_def ids_def inj_def)

theorem ReclaimJobs_atomic_witness:
  "map r_status (jobs (snd (ReclaimJobs ex_pg ex_db3 ''worker-1''))) = [''pending'', ''succeeded'', ''pending'', ''running'']
   \<and> map r_assigned_worker_id (jobs (snd (ReclaimJobs ex_pg ex_db3 ''worker-1''))) = [None, Some ''worker-1'', None, Some ''worker-2'']
   \<and> mset (map o_job_id (outbox (snd (ReclaimJobs ex_pg ex_db3 ''worker-1'')))) = {#''j1'', ''j3''#}"
proof -
  obtain res d' where r: "ReclaimJobs ex_pg ex_db3 ''worker-1'' = (res, d')" by fastforce
  have "\<not> isl (fst (ReclaimJobs ex_pg ex_db3 ''worker-1''))" by code_simp
  with r have "\<not> isl res" by simp
  with ReclaimJobs_atomic [OF ex_db3_ok r] r show ?thesis by (auto simp: ex_db3_def ex_row_def status_defs)
qed

lemma list_all2_map: "(\<And>x. x \<in> set xs \<Longrightarrow> P (f x) (g x)) \<Longrightarrow> list_all2 P (map f xs) (map g xs)"
  by (induction xs) auto

text \<open>
  C15 A claim splits the pending commands into those it returns and those it leaves: it returns
  \<open>limit\<close> of them, or all when there are fewer, oldest first, and none that it leaves is older than one
  that it returns; each entry carries the id and the attempts of its command and the current row of
  the command's job.
\<close>

theorem ClaimOutbox_batch:
  assumes "wf_db d" "ClaimOutbox p d limit = Inr es"
  defines "pending \<equiv> filter (\<lambda>c. o_status c = ''pending'') (outbox d)"
  shows "\<exists>cs left. mset (cs @ left) = mset pending \<and> length cs = min (nat limit) (length pending)
       \<and> sorted (map o_created_at cs) \<and> (\<forall>c \<in> set cs. \<forall>c' \<in> set left. o_created_at c \<le> o_created_at c')
       \<and> list_all2 (\<lambda>e c. oe_ID e = o_id c \<and> oe_Attempts e = o_attempts c
            \<and> (\<exists>j \<in> set (jobs d). r_id j = o_job_id c \<and> oe_Job e = job_of_row j)) es cs"
proof -
  let ?join = "concat (map (\<lambda>c. map (Pair c) (filter (\<lambda>j. r_id j = o_job_id c) (jobs d))) pending)"
  let ?s = "sort_key (\<lambda>(c, j). o_created_at c) (reorder (pg_order p) ?join)" and ?n = "nat limit"
  let ?f = "\<lambda>(c, j). \<lparr>oe_ID = o_id c, oe_Attempts = o_attempts c, oe_Job = job_of_row j\<rparr>"
  let ?P = "\<lambda>e c. oe_ID e = o_id c \<and> oe_Attempts e = o_attempts c
      \<and> (\<exists>j \<in> set (jobs d). r_id j = o_job_id c \<and> oe_Job e = job_of_row j)"
  have es: "es = map ?f (take ?n ?s)"
    using ClaimOutbox_Inr(3) [OF assms(2)] by (simp add: pending_def OutboxPending_def)
  have join: "map fst ?join = pending" by (rule join_fst [OF assms(1)]) (auto simp: pending_def)
  have m: "mset (map fst ?s) = mset pending" using arg_cong [OF join, of mset] by (simp only: mset_map mset_sort mset_reorder)
  have split: "map fst (take ?n ?s) @ map fst (drop ?n ?s) = map fst ?s" by (simp only: append_take_drop_id flip: map_append)
  have "map o_created_at (map fst ?s) = map (\<lambda>(c, j). o_created_at c) ?s" by (simp add: case_prod_beta comp_def)
  then have "sorted (map o_created_at (map fst ?s))" by (simp only: sorted_sort_key)
  then have srt: "sorted (map o_created_at (map fst (take ?n ?s)) @ map o_created_at (map fst (drop ?n ?s)))"
    by (simp only: append_take_drop_id flip: map_append)
  have entry: "j \<in> set (jobs d) \<and> r_id j = o_job_id c" if "(c, j) \<in> set (take ?n ?s)" for c j
    using in_set_takeD [OF that] by auto
  show ?thesis
  proof (intro exI conjI)
    show "mset (map fst (take ?n ?s) @ map fst (drop ?n ?s)) = mset pending" unfolding split by (rule m)
    have "length ?s = length pending" using mset_eq_length [OF m] by (simp only: length_map)
    then show "length (map fst (take ?n ?s)) = min ?n (length pending)"
      by (simp only: length_map length_take min.commute [of ?n])
    show "sorted (map o_created_at (map fst (take ?n ?s)))" using srt by (simp only: sorted_append)
    show "\<forall>c \<in> set (map fst (take ?n ?s)). \<forall>c' \<in> set (map fst (drop ?n ?s)). o_created_at c \<le> o_created_at c'"
      using srt by (simp only: sorted_append set_map) blast
    show "list_all2 ?P es (map fst (take ?n ?s))"
      unfolding es
    proof (rule list_all2_map)
      fix x
      assume "x \<in> set (take ?n ?s)"
      with entry [of "fst x" "snd x"] have "snd x \<in> set (jobs d) \<and> r_id (snd x) = o_job_id (fst x)"
        by (simp only: prod.collapse)
      then show "?P (?f x) (fst x)" by (auto simp: case_prod_beta)
    qed
  qed
qed

definition ex_db2 :: db where
  "ex_db2 = \<lparr>jobs = [ex_row ''j1'' StatusPending None, ex_row ''j2'' StatusPending None],
             outbox = [new_outbox_row (ex_pg\<lparr>pg_now := 9\<rparr>) ''o1'' ''j1'', new_outbox_row ex_pg ''o2'' ''j2'']\<rparr>"

lemma wf_ex_db2: "wf_db ex_db2"
  by (simp add: wf_db_def ex_db2_def ex_row_def new_outbox_row_def job_statuses_def outbox_statuses_def)

text \<open>Of two pending commands the older one is returned, although it stands second in the table.\<close>

theorem ClaimOutbox_batch_witness:
  "\<exists>e. ClaimOutbox ex_pg ex_db2 1 = Inr [e] \<and> oe_ID e = ''o2''"
proof -
  obtain es where es: "ClaimOutbox ex_pg ex_db2 1 = Inr es"
    by (auto simp: ClaimOutbox_def trip_error_def rows_error_def ex_pg_def)
  let ?o1 = "new_outbox_row (ex_pg\<lparr>pg_now := 9\<rparr>) ''o1'' ''j1''" and ?o2 = "new_outbox_row ex_pg ''o2'' ''j2''"
  have p: "filter (\<lambda>c. o_status c = ''pending'') (outbox ex_db2) = [?o1, ?o2]"
    by (simp add: ex_db2_def new_outbox_row_def OutboxPending_def)
  obtain cs left where c: "mset (cs @ left) = mset [?o1, ?o2]" "length cs = 1"
    "\<forall>c \<in> set cs. \<forall>c' \<in> set left. o_created_at c \<le> o_created_at c'"
    "list_all2 (\<lambda>e c. oe_ID e = o_id c \<and> oe_Attempts e = o_attempts c
            \<and> (\<exists>j \<in> set (jobs ex_db2). r_id j = o_job_id c \<and> oe_Job e = job_of_row j)) es cs"
    using ClaimOutbox_batch [OF wf_ex_db2 es] unfolding p by auto
  obtain x where x: "cs = [x]" using c(2) by (auto simp: length_Suc_conv)
  have "length left = 1" using mset_eq_length [OF c(1)] by (simp add: x)
  then obtain y where y: "left = [y]" by (auto simp: length_Suc_conv)
  have ne: "o_created_at ?o1 = 9" "o_created_at ?o2 = 7" by (simp_all add: new_outbox_row_def ex_pg_def)
  have "x \<in> set [?o1, ?o2]" by (rule mset_eq_setD [OF c(1), THEN equalityD1, THEN subsetD]) (simp add: x)
  moreover have "x \<noteq> ?o1"
  proof
    assume "x = ?o1"
    then have "y = ?o2" using c(1) by (simp add: x y)
    then show False using c(3) ne \<open>x = ?o1\<close> by (simp add: x y)
  qed
  ultimately have "x = ?o2" by simp
  then show ?thesis using c(4) es by (auto simp: x list_all2_Cons2 new_outbox_row_def)
qed

text \<open>
  C14 Every writing operation keeps the database well-formed: ids stay unique, statuses stay in
  the sets of the \<open>CHECK\<close> constraints, and every command names an existing job; whatever fails.
\<close>

theorem wf_db_preserved:
  assumes "wf_db d" "pg_ok p d"
  shows "wf_db (run_op p x d)"
  using assms by (rule wf_run_op)

theorem wf_db_preserved_witness:
  "wf_db (run_op ex_pg (Op_ReclaimJobs ''worker-1'') ex_db1)"
  by (rule wf_db_preserved [OF ex_db1_ok])

lemma filter_on_job:
  assumes "\<And>r. r_id (f r) = r_id r"
  shows "filter (\<lambda>r. r_id r = u) (jobs (on_job u f d)) = map f (filter (\<lambda>r. r_id r = u) (jobs d))"
  by (induction "jobs d" arbitrary: d) (simp_all add: on_job_def assms filter_map comp_def)

lemma MarkScheduled_done:
  assumes "pg_trip p 0 = Done" "pg_uuid_in p i = Some u" "filter (\<lambda>r. r_id r = u) (jobs d) = [r]"
  shows "MarkScheduled p d i w = (Inr (), on_job u (\<lambda>r. r\<lparr>r_status := StatusScheduled,
     r_assigned_worker_id := Some w, r_updated_at := pg_now p\<rparr>) d)"
  using assms by (simp add: MarkScheduled_def exec_def update_jobs_def on_job_def)

lemma MarkRunning_done:
  assumes "pg_trip p 0 = Done" "pg_uuid_in p i = Some u" "filter (\<lambda>r. r_id r = u) (jobs d) = [r]"
    and "r_attempts r < 2147483647"
  shows "MarkRunning p d i = (Inr (), on_job u (\<lambda>r. r\<lparr>r_status := StatusRunning, r_started_at := Some (pg_now p),
     r_attempts := r_attempts r + 1, r_updated_at := pg_now p\<rparr>) d)"
proof -
  have "\<not> (\<exists>r' \<in> set (jobs d). r_id r' = u \<and> 2147483647 \<le> r_attempts r')"
  proof
    assume "\<exists>r' \<in> set (jobs d). r_id r' = u \<and> 2147483647 \<le> r_attempts r'"
    then obtain r' where "r' \<in> set (filter (\<lambda>r. r_id r = u) (jobs d))" "2147483647 \<le> r_attempts r'" by auto
    with assms(3,4) show False by simp
  qed
  then show ?thesis using assms by (simp add: MarkRunning_def exec_def update_jobs_def on_job_def)
qed

lemma MarkFinished_done:
  assumes "pg_trip p 0 = Done" "pg_uuid_in p i = Some u" "filter (\<lambda>r. r_id r = u) (jobs d) = [r]"
  shows "MarkFinished p d i ok msg = (Inr (), on_job u (\<lambda>r. r\<lparr>
     r_status := (if \<not> ok then StatusFailed else StatusSucceeded), r_error := nullif_empty msg,
     r_finished_at := Some (pg_now p), r_updated_at := pg_now p\<rparr>) d)"
  using assms by (simp add: MarkFinished_def exec_def update_jobs_def on_job_def Let_def)

lemma GetJob_done:
  assumes "pg_trip p 0 = Done" "pg_uuid_in p i = Some u" "filter (\<lambda>r. r_id r = u) (jobs d) = [r]"
  shows "GetJob p d i = Inr (job_of_row r)"
  using assms by (simp add: GetJob_def scanJob_def trip_error_def) (cases "pg_order p"; simp)

end
