(* ===== verification/WorkerSvc.thy ===== *)
theory WorkerSvc
  imports Store
begin

section \<open>The worker service (internal/workersvc)\<close>

text \<open>
  \<open>src/internal/workersvc/workersvc.go\<close>.  The counter \<open>inflightN\<close> and the capacity are 32-bit
  words read as signed numbers, durations are 64-bit words of nanoseconds, so that the conversion
  of the capacity and the product \<open>DurationMS * time.Millisecond\<close> wrap as they do in Go.

  The RPC handler and the goroutine \<open>run\<close> that it starts touch the counter and the database from
  many goroutines at once.  \<open>thread_step\<close> is one atomic action of one goroutine (one atomic
  operation on the counter or the wait group, one store call, one execution), \<open>worker_step\<close>
  interleaves the goroutines of a worker with each other and with arbitrary changes of the
  database by other processes.  \<open>ExecuteJob\<close> and \<open>run\<close> are the same code as functions, without
  interruption; \<open>ExecuteJob_uninterrupted\<close> relates the two.

  How a payload is decoded is an argument \<open>decode\<close> here, so that the interleavings do not depend on
  it; \<open>JobPayload\<close> gives the decoder of the code (\<open>json.Unmarshal\<close> into the struct).
\<close>

subsection \<open>Data\<close>

record ExecuteJobRequest =
  xr_JobId :: string
  xr_Name :: string
  xr_Payload :: string

record ExecuteJobResponse =
  xs_WorkerInstance :: string

record payload =
  pl_DurationMS :: "64 word"
  pl_Fail :: bool

record WorkerServer =
  ws_instance :: string
  ws_capacity :: "32 word"
  ws_inflightN :: "32 word"
  ws_inflight :: nat
  ws_reporter :: bool

definition maxSleep :: "64 word" where
  "maxSleep = 60 * 1000000000"

definition defaultSleep :: "64 word" where
  "defaultSleep = 1 * 1000000000"

definition Millisecond :: "64 word" where
  "Millisecond = 1000000"

definition WorkerServer_New :: "string \<Rightarrow> int \<Rightarrow> bool \<Rightarrow> WorkerServer" where
  "WorkerServer_New instance_name capacity reporter =
     (let capacity = (if capacity < 1 then 1 else capacity)
      in \<lparr>ws_instance = instance_name, ws_capacity = word_of_int capacity, ws_inflightN = 0,
          ws_inflight = 0, ws_reporter = reporter\<rparr>)"

definition WorkerServer_Inflight :: "WorkerServer \<Rightarrow> int" where
  "WorkerServer_Inflight s = sint (ws_inflightN s)"

definition WorkerServer_Capacity :: "WorkerServer \<Rightarrow> int" where
  "WorkerServer_Capacity s = sint (ws_capacity s)"

subsection \<open>Executing a payload\<close>

text \<open>The sleep (nanoseconds, when the stub gets that far) and the error.\<close>

definition sleep_of :: "payload \<Rightarrow> 64 word" where
  "sleep_of p =
     (let sleep = (if 0 < sint (pl_DurationMS p) then pl_DurationMS p * Millisecond else defaultSleep)
      in if sint maxSleep < sint sleep then maxSleep else sleep)"

definition execute :: "(string \<Rightarrow> string + payload) \<Rightarrow> string \<Rightarrow> 64 word option \<times> string option" where
  "execute decode rawPayload =
     (case (if 0 < length rawPayload then decode rawPayload else Inr \<lparr>pl_DurationMS = 0, pl_Fail = False\<rparr>) of
        Inl e \<Rightarrow> (None, Some (''invalid payload: '' @ e))
      | Inr p \<Rightarrow>
          if sint (pl_DurationMS p) < 0 then (None, Some ''invalid payload: duration_ms must be >= 0'')
          else (Some (sleep_of p), if pl_Fail p then Some ''job requested failure'' else None))"

subsection \<open>The handler and the background run, uninterrupted\<close>

definition at_capacity :: "WorkerServer \<Rightarrow> 32 word \<Rightarrow> rpc_error" where
  "at_capacity s cur =
     RpcError ResourceExhausted (''worker '' @ ws_instance s @ '' at capacity ('' @ show_int (sint cur) @ ''/''
       @ show_int (sint (ws_capacity s)) @ '')'')"

definition not_recorded :: "ExecuteJobRequest \<Rightarrow> store_error \<Rightarrow> rpc_error" where
  "not_recorded req e =
     (case e of
        ErrNotFound \<Rightarrow> RpcError NotFound (''job '' @ xr_JobId req @ '' not found'')
      | StoreErr _ \<Rightarrow> RpcError Internal (''record acceptance: '' @ store_error_text e))"

text \<open>The result, the goroutine that was started (job and payload), the server and the database.\<close>

definition ExecuteJob ::
  "pg \<Rightarrow> WorkerServer \<Rightarrow> db \<Rightarrow> ExecuteJobRequest
     \<Rightarrow> ExecuteJobResponse rpc \<times> (string \<times> string) option \<times> WorkerServer \<times> db" where
  "ExecuteJob p s d req =
     (if xr_JobId req = [] then (Inl (RpcError InvalidArgument ''job_id is required''), None, s, d)
      else
        let cur = ws_inflightN s in
        if sint (ws_capacity s) \<le> sint cur then (Inl (at_capacity s cur), None, s, d)
        else
          let s1 = s\<lparr>ws_inflightN := cur + 1\<rparr> in
          case MarkScheduled p d (xr_JobId req) (ws_instance s) of
            (Inl e, d') \<Rightarrow> (Inl (not_recorded req e), None, s1\<lparr>ws_inflightN := ws_inflightN s1 - 1\<rparr>, d')
          | (Inr _, d') \<Rightarrow>
              (Inr \<lparr>xs_WorkerInstance = ws_instance s\<rparr>, Some (xr_JobId req, xr_Payload req),
               s1\<lparr>ws_inflight := ws_inflight s1 + 1\<rparr>, d'))"

text \<open>The report to the statemanagers that \<open>run\<close> makes, if any: job, worker, outcome.\<close>

definition run ::
  "(string \<Rightarrow> string + payload) \<Rightarrow> pg \<Rightarrow> pg \<Rightarrow> WorkerServer \<Rightarrow> db \<Rightarrow> string \<Rightarrow> string
     \<Rightarrow> (string \<times> string \<times> bool) option \<times> WorkerServer \<times> db" where
  "run decode p1 p2 s d jobID rawPayload =
     (let finally = s\<lparr>ws_inflightN := ws_inflightN s - 1, ws_inflight := ws_inflight s - 1\<rparr> in
      case MarkRunning p1 d jobID of
        (Inl e, d1) \<Rightarrow> (None, finally, d1)
      | (Inr _, d1) \<Rightarrow>
          (let execErr = snd (execute decode rawPayload);
               (succeeded, errMsg) = (case execErr of None \<Rightarrow> (True, []) | Some e \<Rightarrow> (False, e))
           in case MarkFinished p2 d1 jobID succeeded errMsg of
                (Inl e, d2) \<Rightarrow> (None, finally, d2)
              | (Inr _, d2) \<Rightarrow>
                  (if ws_reporter s then Some (jobID, ws_instance s, succeeded) else None, finally, d2)))"

text \<open>
  \<open>Drain\<close> looks at the wait group until the timeout, here at moments numbered from 0: whether it saw
  the group empty.
\<close>

definition Drain :: "(nat \<Rightarrow> WorkerServer) \<Rightarrow> nat \<Rightarrow> bool" where
  "Drain history timeout = list_ex (\<lambda>t. ws_inflight (history t) = 0) [0..<Suc timeout]"

subsection \<open>Goroutines\<close>

text \<open>
  Where a goroutine is.  A handler goes from \<open>Begin\<close> to \<open>Replied\<close>; the goroutine of \<open>run\<close> goes
  from \<open>Spawned\<close> to \<open>Ended\<close>.  \<open>Idle\<close> is a goroutine that does not exist yet.
\<close>

datatype pc =
    Idle
  | Begin ExecuteJobRequest
  | Loading ExecuteJobRequest
  | Loaded ExecuteJobRequest "32 word"
  | Reserved ExecuteJobRequest
  | Refusing ExecuteJobRequest store_error
  | Accepted ExecuteJobRequest
  | Replied "ExecuteJobResponse rpc"
  | Spawned string string
  | Executing string string
  | Finishing string bool string
  | Reporting string bool
  | Releasing
  | Leaving
  | Ended

text \<open>One action: the next position, a goroutine to start, the server, the database.\<close>

fun thread_step ::
  "(string \<Rightarrow> string + payload) \<Rightarrow> pg \<Rightarrow> WorkerServer \<Rightarrow> db \<Rightarrow> pc \<Rightarrow> pc \<times> pc option \<times> WorkerServer \<times> db" where
  "thread_step decode p s d (Begin req) =
     (if xr_JobId req = [] then (Replied (Inl (RpcError InvalidArgument ''job_id is required'')), None, s, d)
      else (Loading req, None, s, d))"
| "thread_step decode p s d (Loading req) =
     (let cur = ws_inflightN s
      in (if sint (ws_capacity s) \<le> sint cur then Replied (Inl (at_capacity s cur)) else Loaded req cur, None, s, d))"
| "thread_step decode p s d (Loaded req cur) =
     (if ws_inflightN s = cur then (Reserved req, None, s\<lparr>ws_inflightN := cur + 1\<rparr>, d)
      else (Loading req, None, s, d))"
| "thread_step decode p s d (Reserved req) =
     (case MarkScheduled p d (xr_JobId req) (ws_instance s) of
        (Inl e, d') \<Rightarrow> (Refusing req e, None, s, d')
      | (Inr _, d') \<Rightarrow> (Accepted req, None, s, d'))"
| "thread_step decode p s d (Refusing req e) =
     (Replied (Inl (not_recorded req e)), None, s\<lparr>ws_inflightN := ws_inflightN s - 1\<rparr>, d)"
| "thread_step decode p s d (Accepted req) =
     (Replied (Inr \<lparr>xs_WorkerInstance = ws_instance s\<rparr>), Some (Spawned (xr_JobId req) (xr_Payload req)),
      s\<lparr>ws_inflight := ws_inflight s + 1\<rparr>, d)"
| "thread_step decode p s d (Spawned jobID rawPayload) =
     (case MarkRunning p d jobID of
        (Inl e, d') \<Rightarrow> (Releasing, None, s, d')
      | (Inr _, d') \<Rightarrow> (Executing jobID rawPayload, None, s, d'))"
| "thread_step decode p s d (Executing jobID rawPayload) =
     (case snd (execute decode rawPayload) of
        None \<Rightarrow> (Finishing jobID True [], None, s, d)
      | Some e \<Rightarrow> (Finishing jobID False e, None, s, d))"
| "thread_step decode p s d (Finishing jobID succeeded errMsg) =
     (case MarkFinished p d jobID succeeded errMsg of
        (Inl e, d') \<Rightarrow> (Releasing, None, s, d')
      | (Inr _, d') \<Rightarrow> (if ws_reporter s then Reporting jobID succeeded else Releasing, None, s, d'))"
| "thread_step decode p s d (Reporting jobID succeeded) = (Releasing, None, s, d)"
| "thread_step decode p s d Releasing = (Leaving, None, s\<lparr>ws_inflightN := ws_inflightN s - 1\<rparr>, d)"
| "thread_step decode p s d Leaving = (Ended, None, s\<lparr>ws_inflight := ws_inflight s - 1\<rparr>, d)"
| "thread_step decode p s d pc = (pc, None, s, d)"

record worker_sys =
  wk_srv :: WorkerServer
  wk_th :: "nat \<Rightarrow> pc"
  wk_db :: db

inductive worker_step :: "(string \<Rightarrow> string + payload) \<Rightarrow> worker_sys \<Rightarrow> worker_sys \<Rightarrow> bool" for decode where
  receive: "wk_th x t = Idle \<Longrightarrow> worker_step decode x (x\<lparr>wk_th := (wk_th x)(t := Begin req)\<rparr>)"
| act: "thread_step decode p (wk_srv x) (wk_db x) (wk_th x t) = (pc, None, s', d') \<Longrightarrow>
     worker_step decode x \<lparr>wk_srv = s', wk_th = (wk_th x)(t := pc), wk_db = d'\<rparr>"
| spawn: "thread_step decode p (wk_srv x) (wk_db x) (wk_th x t) = (pc, Some g, s', d') \<Longrightarrow>
     t' \<noteq> t \<Longrightarrow> wk_th x t' = Idle \<Longrightarrow>
     worker_step decode x \<lparr>wk_srv = s', wk_th = (wk_th x)(t := pc, t' := g), wk_db = d'\<rparr>"
| others: "worker_step decode x (x\<lparr>wk_db := d\<rparr>)"

inductive worker_reach :: "(string \<Rightarrow> string + payload) \<Rightarrow> worker_sys \<Rightarrow> bool" for decode where
  start: "worker_reach decode \<lparr>wk_srv = WorkerServer_New i c rep, wk_th = (\<lambda>_. Idle), wk_db = d\<rparr>"
| step: "worker_reach decode x \<Longrightarrow> worker_step decode x y \<Longrightarrow> worker_reach decode y"

inductive_cases worker_stepE [elim]: "worker_step decode x y"

subsection \<open>Slots\<close>

fun holds_slot :: "pc \<Rightarrow> bool" where
  "holds_slot (Reserved _) = True"
| "holds_slot (Refusing _ _) = True"
| "holds_slot (Accepted _) = True"
| "holds_slot (Spawned _ _) = True"
| "holds_slot (Executing _ _) = True"
| "holds_slot (Finishing _ _ _) = True"
| "holds_slot (Reporting _ _) = True"
| "holds_slot Releasing = True"
| "holds_slot _ = False"

fun in_group :: "pc \<Rightarrow> bool" where
  "in_group (Spawned _ _) = True"
| "in_group (Executing _ _) = True"
| "in_group (Finishing _ _ _) = True"
| "in_group (Reporting _ _) = True"
| "in_group Releasing = True"
| "in_group Leaving = True"
| "in_group _ = False"

fun executing :: "pc \<Rightarrow> bool" where
  "executing (Executing _ _) = True"
| "executing _ = False"

text \<open>A goroutine that is about to swap has seen a free slot.\<close>

fun saw_free :: "WorkerServer \<Rightarrow> pc \<Rightarrow> bool" where
  "saw_free s (Loaded _ cur) = (sint cur < sint (ws_capacity s))"
| "saw_free s _ = True"

definition slots :: "(pc \<Rightarrow> bool) \<Rightarrow> (nat \<Rightarrow> pc) \<Rightarrow> int" where
  "slots P th = int (card {t. P (th t)})"

definition slot_inv :: "worker_sys \<Rightarrow> bool" where
  "slot_inv x \<longleftrightarrow> finite {t. wk_th x t \<noteq> Idle}
     \<and> sint (ws_inflightN (wk_srv x)) = slots holds_slot (wk_th x)
     \<and> int (ws_inflight (wk_srv x)) = slots in_group (wk_th x)
     \<and> slots holds_slot (wk_th x) \<le> max 0 (sint (ws_capacity (wk_srv x)))
     \<and> (\<forall>t. saw_free (wk_srv x) (wk_th x t))"

lemma finite_slots: "finite {t. th t \<noteq> Idle} \<Longrightarrow> \<not> P Idle \<Longrightarrow> finite {t. P (th t)}"
  by (erule rev_finite_subset) auto

lemma slots_upd:
  assumes "finite {t. th t \<noteq> Idle}" "\<not> P Idle"
  shows "slots P (th(t := pc)) = slots P th + of_bool (P pc) - of_bool (P (th t))"
proof -
  have fin: "finite {u. P (th u)}" using assms by (rule finite_slots)
  have "{u. P ((th(t := pc)) u)} = (if P pc then insert t {u. P (th u)} else {u. P (th u)} - {t})" by auto
  moreover have "card {u. P (th u)} > 0" if "P (th t)" using fin that by (auto simp: card_gt_0_iff)
  ultimately show ?thesis using fin by (auto simp: slots_def card_insert_if card_Diff_singleton_if)
qed

lemma sint_add_small:
  fixes n :: "32 word"
  assumes "- (2 ^ 31) \<le> sint n + k" "sint n + k < 2 ^ 31"
  shows "sint (n + word_of_int k) = sint n + k"
proof -
  have "n + word_of_int k = word_of_int (sint n + k)" by simp
  moreover have "sint (word_of_int j :: 32 word) = j" if "- (2 ^ 31) \<le> j" "j < 2 ^ 31" for j
    using that by (simp add: signed_of_int signed_take_bit_int_eq_self)
  ultimately show ?thesis using assms by presburger
qed

lemma sint_word32_less: "sint (w :: 32 word) < 2 ^ 31"
  using sint_lt [of w] by simp

text \<open>What one action does to the two counters, against the positions before and after.\<close>

lemma thread_step_counts:
  assumes "thread_step decode p s d pc = (pc', g, s', d')"
  shows "ws_inflightN s' = ws_inflightN s
           + word_of_int (of_bool (holds_slot pc') + (case g of None \<Rightarrow> 0 | Some q \<Rightarrow> of_bool (holds_slot q)) - of_bool (holds_slot pc))"
    and "in_group pc \<longrightarrow> 0 < ws_inflight s \<Longrightarrow>
         int (ws_inflight s') = int (ws_inflight s)
           + (of_bool (in_group pc') + (case g of None \<Rightarrow> 0 | Some q \<Rightarrow> of_bool (in_group q)) - of_bool (in_group pc))"
    and "ws_capacity s' = ws_capacity s" "ws_instance s' = ws_instance s"
    and "saw_free s pc'" "\<And>q. g = Some q \<Longrightarrow> saw_free s q"
    and "holds_slot pc' \<Longrightarrow> \<not> holds_slot pc \<Longrightarrow> ws_inflightN s = ws_inflightN s' - 1 \<and> (saw_free s pc \<longrightarrow> sint (ws_inflightN s) < sint (ws_capacity s))"
    and "pc = Idle \<Longrightarrow> pc' = Idle \<and> g = None"
    and "g \<noteq> None \<Longrightarrow> holds_slot pc \<and> \<not> holds_slot pc' \<and> pc' \<noteq> Idle"
  using assms
  by (cases pc; auto simp: Let_def split: if_splits sum.splits prod.splits option.splits)+

lemma slot_inv_start: "slot_inv \<lparr>wk_srv = WorkerServer_New i c rep, wk_th = (\<lambda>_. Idle), wk_db = d\<rparr>"
  by (simp add: slot_inv_def WorkerServer_New_def Let_def slots_def)

lemma saw_free_cong: "ws_capacity s' = ws_capacity s \<Longrightarrow> saw_free s' pc = saw_free s pc"
  by (cases pc) simp_all

text \<open>One action, with the positions of the goroutines after it, keeps the invariant.\<close>

lemma slot_inv_thread:
  assumes inv: "slot_inv x" and ts: "thread_step decode p (wk_srv x) (wk_db x) (wk_th x t) = (pc, g, s', d')"
    and th: "th' = (case g of None \<Rightarrow> (wk_th x)(t := pc) | Some q \<Rightarrow> (wk_th x)(t := pc, t' := q))"
    and t': "g \<noteq> None \<Longrightarrow> t' \<noteq> t \<and> wk_th x t' = Idle"
  shows "slot_inv \<lparr>wk_srv = s', wk_th = th', wk_db = d'\<rparr>"
proof -
  let ?s = "wk_srv x" and ?th = "wk_th x"
  let ?d = "\<lambda>P. of_bool (P pc) + (case g of None \<Rightarrow> 0 | Some q \<Rightarrow> of_bool (P q)) - of_bool (P (?th t)) :: int"
  note ic = thread_step_counts [OF ts]
  have fin: "finite {t. ?th t \<noteq> Idle}" using inv by (simp add: slot_inv_def)
  have fin1: "finite {u. (?th(t := pc)) u \<noteq> Idle}"
    by (rule finite_subset [of _ "insert t {t. ?th t \<noteq> Idle}"]) (auto simp: fin)
  have fin': "finite {u. th' u \<noteq> Idle}"
    by (rule finite_subset [of _ "insert t (insert t' {t. ?th t \<noteq> Idle})"]) (auto simp: fin th split: option.splits if_splits)
  have cnt: "slots P th' = slots P ?th + ?d P" if "\<not> P Idle" for P
    using that fin fin1 t' by (cases g) (auto simp: th slots_upd)
  have N: "sint (ws_inflightN ?s) = slots holds_slot ?th" and le: "slots holds_slot ?th \<le> max 0 (sint (ws_capacity ?s))"
    and free: "\<And>u. saw_free ?s (?th u)" and wg: "int (ws_inflight ?s) = slots in_group ?th"
    using inv by (auto simp: slot_inv_def)
  have up: "slots holds_slot th' \<le> max 0 (sint (ws_capacity ?s))"
  proof (cases "holds_slot pc \<and> \<not> holds_slot (?th t)")
    case True
    then have "g = None" using ic(9) by blast
    moreover have "sint (ws_inflightN ?s) < sint (ws_capacity ?s)" using ic(7) True free by blast
    ultimately show ?thesis using True N by (simp add: cnt)
  next
    case False
    then have "?d holds_slot \<le> 0" using ic(9) by (cases g) (auto simp: of_bool_def)
    then show ?thesis using le cnt [of holds_slot] by simp
  qed
  have "0 \<le> slots holds_slot th'" by (simp add: slots_def)
  moreover have "slots holds_slot th' < 2 ^ 31" using up sint_word32_less [of "ws_capacity ?s"] by simp
  moreover have now: "slots holds_slot th' = sint (ws_inflightN ?s) + ?d holds_slot" by (simp add: cnt N)
  ultimately have "sint (ws_inflightN s') = slots holds_slot th'"
    unfolding ic(1) now by (intro sint_add_small) linarith+
  moreover have "0 < ws_inflight ?s" if "in_group (?th t)"
  proof -
    have "finite {u. in_group (?th u)}" by (rule finite_slots) (simp_all add: fin)
    with that have "0 < slots in_group ?th" by (auto simp: slots_def card_gt_0_iff)
    then show ?thesis using wg by simp
  qed
  then have "int (ws_inflight s') = slots in_group th'" using ic(2) wg by (simp add: cnt)
  moreover have "saw_free s' (th' u)" for u
    using free [of u] ic(5,6) by (auto simp: saw_free_cong [OF ic(3)] th split: option.splits)
  ultimately show ?thesis using fin' up by (simp add: slot_inv_def ic(3))
qed

lemma slot_inv_step: "slot_inv x \<Longrightarrow> worker_step decode x y \<Longrightarrow> slot_inv y"
proof (erule worker_stepE)
  fix t req
  assume inv: "slot_inv x" and y: "y = x\<lparr>wk_th := (wk_th x)(t := Begin req)\<rparr>" and t: "wk_th x t = Idle"
  have fin: "finite {t. wk_th x t \<noteq> Idle}" using inv by (simp add: slot_inv_def)
  have "finite {u. ((wk_th x)(t := Begin req)) u \<noteq> Idle}"
    by (rule finite_subset [of _ "insert t {t. wk_th x t \<noteq> Idle}"]) (auto simp: fin)
  then show "slot_inv y" using inv by (auto simp: slot_inv_def y slots_upd [OF fin] t)
next
  fix p t pc s' d'
  assume "slot_inv x" "y = \<lparr>wk_srv = s', wk_th = (wk_th x)(t := pc), wk_db = d'\<rparr>"
    and "thread_step decode p (wk_srv x) (wk_db x) (wk_th x t) = (pc, None, s', d')"
  then show "slot_inv y" using slot_inv_thread [of x decode p t pc None] by simp
next
  fix p t pc g s' d' t'
  assume "slot_inv x" "y = \<lparr>wk_srv = s', wk_th = (wk_th x)(t := pc, t' := g), wk_db = d'\<rparr>"
    and "thread_step decode p (wk_srv x) (wk_db x) (wk_th x t) = (pc, Some g, s', d')" "t' \<noteq> t" "wk_th x t' = Idle"
  then show "slot_inv y" using slot_inv_thread [of x decode p t pc "Some g" s' d' _ t'] by simp
qed (simp add: slot_inv_def)

lemma slot_inv_reach: "worker_reach decode x \<Longrightarrow> slot_inv x"
  by (induction rule: worker_reach.induct) (auto simp: slot_inv_start intro: slot_inv_step)

text \<open>A drained worker has no accepted job left that is not finished.\<close>

lemma Drain_no_jobs:
  assumes "\<And>t. worker_reach decode (x t)"
  shows "Drain (\<lambda>t. wk_srv (x t)) timeout \<longleftrightarrow> (\<exists>t \<le> timeout. \<forall>g. \<not> in_group (wk_th (x t) g))"
proof -
  have "ws_inflight (wk_srv (x t)) = 0 \<longleftrightarrow> (\<forall>g. \<not> in_group (wk_th (x t) g))" for t
  proof -
    have inv: "slot_inv (x t)" by (rule slot_inv_reach [OF assms])
    then have "finite {g. in_group (wk_th (x t) g)}" by (auto simp: slot_inv_def intro: finite_slots)
    then show ?thesis using inv by (auto simp: slot_inv_def slots_def)
  qed
  then show ?thesis by (auto simp: Drain_def list_ex_iff less_Suc_eq_le simp del: upt_Suc)
qed

text \<open>
  C11 In every interleaving of the goroutines of a worker, the counter is exactly the number of
  goroutines that hold a slot, it never exceeds the capacity, so that at most \<open>capacity\<close> jobs are
  executing at once, and the wait group counts exactly the background runs that have not ended.
\<close>

theorem capacity_respected:
  assumes "worker_reach decode x"
  shows "WorkerServer_Inflight (wk_srv x) = int (card {t. holds_slot (wk_th x t)})
       \<and> WorkerServer_Inflight (wk_srv x) \<le> max 0 (WorkerServer_Capacity (wk_srv x))
       \<and> int (card {t. executing (wk_th x t)}) \<le> max 0 (WorkerServer_Capacity (wk_srv x))
       \<and> ws_inflight (wk_srv x) = card {t. in_group (wk_th x t)}"
proof -
  have inv: "slot_inv x" by (rule slot_inv_reach [OF assms])
  then have "finite {t. holds_slot (wk_th x t)}" by (auto simp: slot_inv_def intro: finite_slots)
  moreover have "executing pc \<Longrightarrow> holds_slot pc" for pc by (cases pc) simp_all
  then have "{t. executing (wk_th x t)} \<subseteq> {t. holds_slot (wk_th x t)}" by blast
  ultimately have "card {t. executing (wk_th x t)} \<le> card {t. holds_slot (wk_th x t)}" by (rule card_mono)
  then show ?thesis using inv by (simp add: slot_inv_def slots_def WorkerServer_Inflight_def WorkerServer_Capacity_def)
qed

definition ex_req :: ExecuteJobRequest where
  "ex_req = \<lparr>xr_JobId = ''j1'', xr_Name = ''demo'', xr_Payload = []\<rparr>"

definition ex_srv :: WorkerServer where
  "ex_srv = WorkerServer_New ''worker-1'' 2 True"

theorem capacity_respected_witness:
  "\<exists>x. worker_reach (\<lambda>_. Inl []) x \<and> wk_th x 0 = Reserved ex_req \<and> wk_th x 1 = Loaded ex_req 0
     \<and> WorkerServer_Inflight (wk_srv x) = 1 \<and> card {t. holds_slot (wk_th x t)} = 1"
proof -
  let ?R = "worker_reach (\<lambda>_. Inl [])"
  let ?st = "\<lambda>n f. \<lparr>wk_srv = ex_srv\<lparr>ws_inflightN := n\<rparr>, wk_th = f, wk_db = ex_db1\<rparr>"
  have act: "?R (?st m (f(t := pc)))" if "?R (?st n f)"
      "thread_step (\<lambda>_. Inl []) ex_pg (ex_srv\<lparr>ws_inflightN := n\<rparr>) ex_db1 (f t) = (pc, None, ex_srv\<lparr>ws_inflightN := m\<rparr>, ex_db1)"
    for n m f t pc
    using worker_reach.step [OF that(1) worker_step.act [of _ ex_pg "?st n f" t pc]] that(2) by simp
  have recv: "?R (?st n (f(t := Begin ex_req)))" if "?R (?st n f)" "f t = Idle" for n f t
    using worker_reach.step [OF that(1) worker_step.receive [of "?st n f" t _ ex_req]] that(2) by simp
  have s: "ws_capacity ex_srv = 2" "ws_inflightN ex_srv = 0" "xr_JobId ex_req \<noteq> []"
    by (simp_all add: ex_srv_def WorkerServer_New_def ex_req_def)
  have "?R (?st 0 (\<lambda>_. Idle))"
    using worker_reach.start [of _ "''worker-1''" 2 True ex_db1] by (simp add: ex_srv_def WorkerServer_New_def)
  then have "?R (?st 0 ((\<lambda>_. Idle)(0 := Begin ex_req)))" by (rule recv) simp
  then have "?R (?st 0 ((\<lambda>_. Idle)(0 := Begin ex_req, 1 := Begin ex_req)))" by (rule recv) simp
  then have "?R (?st 0 ((\<lambda>_. Idle)(0 := Begin ex_req, 1 := Begin ex_req, 0 := Loading ex_req)))"
    by (rule act) (simp add: s)
  then have "?R (?st 0 ((\<lambda>_. Idle)(0 := Begin ex_req, 1 := Begin ex_req, 0 := Loading ex_req, 1 := Loading ex_req)))"
    by (rule act) (simp add: s)
  then have "?R (?st 0 ((\<lambda>_. Idle)(0 := Begin ex_req, 1 := Begin ex_req, 0 := Loading ex_req, 1 := Loading ex_req,
      0 := Loaded ex_req 0)))"
    by (rule act) (simp add: s)
  then have "?R (?st 0 ((\<lambda>_. Idle)(0 := Begin ex_req, 1 := Begin ex_req, 0 := Loading ex_req, 1 := Loading ex_req,
      0 := Loaded ex_req 0, 1 := Loaded ex_req 0)))"
    by (rule act) (simp add: s)
  then have r: "?R (?st 1 ((\<lambda>_. Idle)(0 := Begin ex_req, 1 := Begin ex_req, 0 := Loading ex_req, 1 := Loading ex_req,
      0 := Loaded ex_req 0, 1 := Loaded ex_req 0, 0 := Reserved ex_req)))"
    by (rule act) (simp add: s)
  define x where "x = ?st 1 ((\<lambda>_. Idle)(0 := Begin ex_req, 1 := Begin ex_req, 0 := Loading ex_req, 1 := Loading ex_req,
      0 := Loaded ex_req 0, 1 := Loaded ex_req 0, 0 := Reserved ex_req))"
  have "?R x" "wk_th x 0 = Reserved ex_req" "wk_th x 1 = Loaded ex_req 0" "WorkerServer_Inflight (wk_srv x) = 1"
    using r by (simp_all add: x_def WorkerServer_Inflight_def)
  with capacity_respected [of "\<lambda>_. Inl []" x] show ?thesis by auto
qed

subsection \<open>The functions against the goroutines\<close>

text \<open>A goroutine that runs \<open>n\<close> actions without interruption; the first goroutine it starts.\<close>

fun alone ::
  "(string \<Rightarrow> string + payload) \<Rightarrow> pg \<Rightarrow> nat \<Rightarrow> WorkerServer \<Rightarrow> db \<Rightarrow> pc \<Rightarrow> pc \<times> pc option \<times> WorkerServer \<times> db" where
  "alone decode p 0 s d pc = (pc, None, s, d)"
| "alone decode p (Suc n) s d pc =
     (case thread_step decode p s d pc of (pc1, g, s1, d1) \<Rightarrow>
        (case alone decode p n s1 d1 pc1 of (pc2, g', s2, d2) \<Rightarrow>
           (pc2, (case g of None \<Rightarrow> g' | Some q \<Rightarrow> Some q), s2, d2)))"

text \<open>What \<open>MarkScheduled\<close> answers and does, for every way its round trip may end.\<close>

lemma MarkScheduled_effect:
  assumes "MarkScheduled p d i w = (res, d')"
  defines "f \<equiv> \<lambda>r. r\<lparr>r_status := ''scheduled'', r_assigned_worker_id := Some w, r_updated_at := pg_now p\<rparr>"
  shows "res = Inr () \<longleftrightarrow> pg_trip p 0 = Done \<and> (\<exists>u. pg_uuid_in p i = Some u \<and> u \<in> r_id ` set (jobs d))"
    and "res = Inr () \<Longrightarrow> \<exists>u. pg_uuid_in p i = Some u \<and> d' = on_job u f d"
    and "res = Inl e \<Longrightarrow> d' = d \<or> (\<exists>e u. pg_trip p 0 = Lost e \<and> pg_uuid_in p i = Some u \<and> d' = on_job u f d)"
    and "res = Inl e \<Longrightarrow> e = ErrNotFound \<longleftrightarrow> pg_trip p 0 = Done \<and> pg_uuid_in p i \<noteq> None"
proof -
  have ex: "length (filter (\<lambda>r. r_id r = u) (jobs d)) = 0 \<longleftrightarrow> u \<notin> r_id ` set (jobs d)" for u
    by (auto simp: filter_empty_conv image_iff)
  have no: "on_job u f d = d" if "u \<notin> r_id ` set (jobs d)" for u
    using map_idI [of "jobs d" "\<lambda>r. if r_id r = u then f r else r"] that by (force simp: on_job_def image_iff)
  have r: "(res, d') = (case pg_trip p 0 of
        Failed e \<Rightarrow> (Inl (StoreErr (''store: '' @ e)), d)
      | Lost e \<Rightarrow> (Inl (StoreErr (''store: '' @ e)), case pg_uuid_in p i of None \<Rightarrow> d | Some u \<Rightarrow> on_job u f d)
      | Done \<Rightarrow> (case pg_uuid_in p i of
            None \<Rightarrow> (Inl (StoreErr (''store: '' @ uuid_error)), d)
          | Some u \<Rightarrow> if u \<notin> r_id ` set (jobs d) then (Inl ErrNotFound, d) else (Inr (), on_job u f d)))"
    using assms(1) ex no
    by (cases "pg_uuid_in p i"; cases "pg_trip p 0")
      (auto simp: MarkScheduled_def exec_def update_jobs_def on_job_def [symmetric] f_def [symmetric] StatusScheduled_def simp flip: on_job_def)
  show "res = Inr () \<longleftrightarrow> pg_trip p 0 = Done \<and> (\<exists>u. pg_uuid_in p i = Some u \<and> u \<in> r_id ` set (jobs d))"
    "res = Inr () \<Longrightarrow> \<exists>u. pg_uuid_in p i = Some u \<and> d' = on_job u f d"
    "res = Inl e \<Longrightarrow> d' = d \<or> (\<exists>e u. pg_trip p 0 = Lost e \<and> pg_uuid_in p i = Some u \<and> d' = on_job u f d)"
    "res = Inl e \<Longrightarrow> e = ErrNotFound \<longleftrightarrow> pg_trip p 0 = Done \<and> pg_uuid_in p i \<noteq> None"
    using r by (auto split: trip.splits option.splits if_splits)
qed

lemma alone_Suc_0: "alone decode p (Suc 0) s d pc = thread_step decode p s d pc"
  by (auto split: prod.splits option.splits)

text \<open>
  The two models of the handler agree: a handler goroutine that is not interrupted replies within five actions, with the result,
  the started run, the server and the database that \<open>ExecuteJob\<close> gives.
\<close>

lemma ExecuteJob_uninterrupted:
  assumes "ExecuteJob p s d req = (res, started, s', d')"
  shows "alone decode p 5 s d (Begin req) =
     (Replied res, map_option (\<lambda>(jobID, rawPayload). Spawned jobID rawPayload) started, s', d')"
proof -
  have five: "(5::nat) = Suc (Suc (Suc (Suc (Suc 0))))" by simp
  show ?thesis
    using assms unfolding five
    by (auto simp: ExecuteJob_def Let_def split: if_splits prod.splits sum.splits)
qed

lemma ExecuteJob_uninterrupted_example:
  "\<exists>d'. alone (\<lambda>_. Inl []) ex_pg 5 ex_srv ex_db1 (Begin ex_req) =
     (Replied (Inr \<lparr>xs_WorkerInstance = ''worker-1''\<rparr>), Some (Spawned ''j1'' []),
      ex_srv\<lparr>ws_inflightN := 1, ws_inflight := 1\<rparr>, d')"
proof -
  obtain d' where "ExecuteJob ex_pg ex_srv ex_db1 ex_req =
      (Inr \<lparr>xs_WorkerInstance = ''worker-1''\<rparr>, Some (''j1'', []), ex_srv\<lparr>ws_inflightN := 1, ws_inflight := 1\<rparr>, d')"
    by (simp add: ExecuteJob_def ex_req_def ex_srv_def WorkerServer_New_def MarkScheduled_def exec_def update_jobs_def
        ex_pg_def ex_db1_def ex_row_def)
  from ExecuteJob_uninterrupted [OF this] show ?thesis by auto
qed

text \<open>
  C18 The handler accepts a job exactly if the request names one, a slot is free, and the update that
  records the acceptance was acknowledged, which needs a row of that id.  An accepted job is
  scheduled on this worker, with nothing else in the database changed, its run is started and holds
  one slot more.  Every refusal starts nothing, leaves the slots as they were, and leaves the database
  as it was, but for one case: the update took effect and its answer was lost.  The code of the refusal tells
  the cause: no id, no free slot, no such job, or a failing store.
\<close>

theorem ExecuteJob_branches:
  assumes "ExecuteJob p s d req = (res, started, s', d')"
  defines "scheduled \<equiv> \<lambda>u. on_job u (\<lambda>r. r\<lparr>r_status := ''scheduled'', r_assigned_worker_id := Some (ws_instance s), r_updated_at := pg_now p\<rparr>) d"
  shows "(\<not> isl res \<longleftrightarrow> xr_JobId req \<noteq> [] \<and> WorkerServer_Inflight s < WorkerServer_Capacity s \<and> pg_trip p 0 = Done
            \<and> (\<exists>u. pg_uuid_in p (xr_JobId req) = Some u \<and> u \<in> r_id ` set (jobs d)))
       \<and> (\<not> isl res \<longrightarrow> res = Inr \<lparr>xs_WorkerInstance = ws_instance s\<rparr> \<and> started = Some (xr_JobId req, xr_Payload req)
            \<and> WorkerServer_Inflight s' = WorkerServer_Inflight s + 1 \<and> ws_inflight s' = ws_inflight s + 1
            \<and> (\<exists>u. pg_uuid_in p (xr_JobId req) = Some u \<and> d' = scheduled u))
       \<and> (isl res \<longrightarrow> started = None \<and> s' = s
            \<and> (d' = d \<or> (\<exists>e u. pg_trip p 0 = Lost e \<and> pg_uuid_in p (xr_JobId req) = Some u \<and> d' = scheduled u)))
       \<and> (isl res \<longrightarrow> err_code (projl res) =
            (if xr_JobId req = [] then InvalidArgument
             else if WorkerServer_Capacity s \<le> WorkerServer_Inflight s then ResourceExhausted
             else if pg_trip p 0 = Done \<and> pg_uuid_in p (xr_JobId req) \<noteq> None then NotFound else Internal))"
proof (cases "xr_JobId req = []"; cases "sint (ws_capacity s) \<le> sint (ws_inflightN s)")
  assume "xr_JobId req \<noteq> []" "sint (ws_capacity s) \<le> sint (ws_inflightN s)"
  then show ?thesis using assms(1)
    by (auto simp: ExecuteJob_def at_capacity_def WorkerServer_Inflight_def WorkerServer_Capacity_def)
next
  assume ne: "xr_JobId req \<noteq> []" and "\<not> sint (ws_capacity s) \<le> sint (ws_inflightN s)"
  then have free: "sint (ws_inflightN s) < sint (ws_capacity s)" by simp
  then have plus: "sint (ws_inflightN s + 1) = sint (ws_inflightN s) + 1"
    using sint_add_small [of "ws_inflightN s" 1] sint_word32_less [of "ws_capacity s"] sint_ge [of "ws_inflightN s"] by simp
  obtain r d1 where m: "MarkScheduled p d (xr_JobId req) (ws_instance s) = (r, d1)" by fastforce
  note eff = MarkScheduled_effect [OF m]
  have same: "s\<lparr>ws_inflightN := ws_inflightN s + 1\<rparr>\<lparr>ws_inflightN := ws_inflightN s + 1 - 1\<rparr> = s" by simp
  show ?thesis
  proof (cases r)
    case (Inl e)
    then have "res = Inl (not_recorded req e)" "started = None" "s' = s" "d' = d1"
      using assms(1) ne free m by (auto simp: ExecuteJob_def Let_def)
    then show ?thesis using eff ne free Inl
      by (auto simp: scheduled_def not_recorded_def WorkerServer_Capacity_def WorkerServer_Inflight_def split: store_error.splits)
  next
    case (Inr _)
    then have "d' = d1" "res = Inr \<lparr>xs_WorkerInstance = ws_instance s\<rparr>" "started = Some (xr_JobId req, xr_Payload req)"
        "s' = s\<lparr>ws_inflightN := ws_inflightN s + 1, ws_inflight := ws_inflight s + 1\<rparr>"
      using assms(1) free ne m by (simp_all add: ExecuteJob_def Let_def)
    then show ?thesis using eff ne free plus Inr by (auto simp: scheduled_def WorkerServer_Inflight_def WorkerServer_Capacity_def)
  qed
qed (use assms(1) in \<open>auto simp: ExecuteJob_def WorkerServer_Inflight_def WorkerServer_Capacity_def\<close>)

theorem ExecuteJob_branches_witness:
  "err_code (projl (fst (ExecuteJob ex_pg (ex_srv\<lparr>ws_inflightN := 2\<rparr>) ex_db1 ex_req))) = ResourceExhausted
   \<and> \<not> isl (fst (ExecuteJob ex_pg ex_srv ex_db1 ex_req))
   \<and> map r_status (jobs (snd (snd (snd (ExecuteJob ex_pg ex_srv ex_db1 ex_req))))) = [''scheduled'', ''succeeded'']"
proof -
  let ?s = "ex_srv\<lparr>ws_inflightN := 2\<rparr>"
  obtain res st s' d' where r: "ExecuteJob ex_pg ?s ex_db1 ex_req = (res, st, s', d')" by (metis prod_cases4)
  obtain res2 st2 s2' d2' where r2: "ExecuteJob ex_pg ex_srv ex_db1 ex_req = (res2, st2, s2', d2')" by (metis prod_cases4)
  have c: "WorkerServer_Capacity ?s \<le> WorkerServer_Inflight ?s" "xr_JobId ex_req = ''j1''"
    "WorkerServer_Inflight ex_srv < WorkerServer_Capacity ex_srv" by code_simp+
  have p: "pg_trip ex_pg 0 = Done" "pg_uuid_in ex_pg ''j1'' = Some ''j1''" "''j1'' \<in> r_id ` set (jobs ex_db1)"
    by (simp_all add: ex_pg_def ex_db1_def ex_row_def)
  have full: "isl res" "err_code (projl res) = ResourceExhausted" using ExecuteJob_branches [OF r] c by auto
  have "\<not> isl res2" using ExecuteJob_branches [OF r2] c p by simp
  moreover from this have "map r_status (jobs d2') = [''scheduled'', ''succeeded'']"
    using ExecuteJob_branches [OF r2] c p by (auto simp: ex_db1_def ex_row_def StatusSucceeded_def)
  ultimately show ?thesis using r r2 full by simp
qed

subsection \<open>Background runs\<close>

text \<open>
  C19 Whatever the store answers, a background run gives its slot back and leaves the wait group;
  it touches only its own job and no command.  It reports exactly if a reporter is configured and the
  store acknowledged both the start and the outcome, and then it reports the outcome of the payload,
  which is the terminal status of the job.  (An outcome whose acknowledgement is lost stays recorded
  but is not reported.)
\<close>

theorem run_outcome:
  assumes "run decode p1 p2 s d jobID rawPayload = (rep, s', d')"
  shows "s' = s\<lparr>ws_inflightN := ws_inflightN s - 1, ws_inflight := ws_inflight s - 1\<rparr>
       \<and> outbox d' = outbox d
       \<and> list_all2 (\<lambda>r r'. r' = r \<or> Some (r_id r) \<in> {pg_uuid_in p1 jobID, pg_uuid_in p2 jobID} \<and> r_id r' = r_id r)
           (jobs d) (jobs d')
       \<and> (rep \<noteq> None \<longleftrightarrow> ws_reporter s \<and> fst (MarkRunning p1 d jobID) = Inr ()
            \<and> fst (MarkFinished p2 (snd (MarkRunning p1 d jobID)) jobID (snd (execute decode rawPayload) = None)
                 (case snd (execute decode rawPayload) of None \<Rightarrow> [] | Some e \<Rightarrow> e)) = Inr ())
       \<and> (rep \<noteq> None \<longrightarrow> rep = Some (jobID, ws_instance s, snd (execute decode rawPayload) = None)
            \<and> (\<exists>u. pg_uuid_in p2 jobID = Some u \<and> u \<in> r_id ` set (jobs d')
                 \<and> (\<forall>r \<in> set (jobs d'). r_id r = u \<longrightarrow>
                      r_status r = (if snd (execute decode rawPayload) = None then StatusSucceeded else StatusFailed)
                      \<and> r_finished_at r = Some (pg_now p2))))"
proof -
  let ?P = "\<lambda>r r'. r' = r \<or> Some (r_id r) \<in> {pg_uuid_in p1 jobID, pg_uuid_in p2 jobID} \<and> r_id r' = r_id r"
  let ?ok = "snd (execute decode rawPayload) = None"
  let ?msg = "case snd (execute decode rawPayload) of None \<Rightarrow> [] | Some e \<Rightarrow> e"
  obtain r1 d1 where m1: "MarkRunning p1 d jobID = (r1, d1)" by fastforce
  obtain r2 d2 where m2: "MarkFinished p2 d1 jobID ?ok ?msg = (r2, d2)" by fastforce
  note f1 = job_update_frame [OF MarkRunning_update m1]
  note f2 = job_update_frame [OF MarkFinished_update m2]
  have o1: "outbox d1 = outbox d" "outbox d2 = outbox d1" using f1(1) f2(1) by simp_all
  have p1: "list_all2 ?P (jobs d) (jobs d1)" using f1(2) by (rule list.rel_mono_strong) auto
  have p2: "list_all2 ?P (jobs d1) (jobs d2)" using f2(2) by (rule list.rel_mono_strong) auto
  have p12: "list_all2 ?P (jobs d) (jobs d2)" by (rule list_all2_trans [OF _ p1 p2]) auto
  show ?thesis
  proof (cases r1)
    case (Inl e)
    then show ?thesis using assms m1 o1(1) p1 by (simp add: run_def)
  next
    case (Inr _)
    have eq: "(case r2 of Inl e \<Rightarrow> None | Inr _ \<Rightarrow> if ws_reporter s then Some (jobID, ws_instance s, ?ok) else None) = rep"
        "s' = s\<lparr>ws_inflightN := ws_inflightN s - 1, ws_inflight := ws_inflight s - 1\<rparr>" "d' = d2"
      using assms m1 m2 Inr by (auto simp: run_def Let_def split: option.splits sum.splits)
    moreover have "\<exists>u. pg_uuid_in p2 jobID = Some u \<and> u \<in> r_id ` set (jobs d2)
        \<and> (\<forall>r \<in> set (jobs d2). r_id r = u \<longrightarrow> r_status r = (if ?ok then StatusSucceeded else StatusFailed)
             \<and> r_finished_at r = Some (pg_now p2))" if "\<not> isl r2"
      using MarkFinished_update m2
    proof (cases rule: job_updateE)
      case (row u)
      have "r2 = Inr ()" using that by (cases r2) simp_all
      then have "u \<in> r_id ` set (jobs d1)" using row(3) by blast
      then have "u \<in> r_id ` set (jobs d2)" unfolding row(2) by (subst ids_on_job) simp_all
      moreover have "\<forall>r \<in> set (jobs d2). r_id r = u \<longrightarrow> r_status r = (if ?ok then StatusSucceeded else StatusFailed)
          \<and> r_finished_at r = Some (pg_now p2)"
        unfolding row(2) by (intro ballI impI, erule on_job_rowE) simp_all
      ultimately show ?thesis using row(1) by blast
    qed (use that in simp)
    moreover have "\<not> isl r2 \<and> rep = Some (jobID, ws_instance s, ?ok)" if "rep \<noteq> None"
      using eq(1) that by (cases r2) (auto split: if_splits)
    moreover have "rep \<noteq> None \<longleftrightarrow> ws_reporter s \<and> fst (MarkRunning p1 d jobID) = Inr ()
        \<and> fst (MarkFinished p2 (snd (MarkRunning p1 d jobID)) jobID ?ok ?msg) = Inr ()"
      using eq(1) m1 m2 Inr by (cases r2) (auto split: if_splits)
    ultimately show ?thesis using o1 p12 by presburger
  qed
qed

theorem run_outcome_witness:
  "\<exists>s' d'. run (\<lambda>_. Inl []) ex_pg ex_pg ex_srv ex_db1 ''j1'' [] = (Some (''j1'', ''worker-1'', True), s', d')
     \<and> (\<exists>r \<in> set (jobs d'). r_id r = ''j1'' \<and> r_status r = StatusSucceeded)"
proof -
  obtain rep s' d' where r: "run (\<lambda>_. Inl []) ex_pg ex_pg ex_srv ex_db1 ''j1'' [] = (rep, s', d')"
    by (metis prod_cases3)
  have "fst (run (\<lambda>_. Inl []) ex_pg ex_pg ex_srv ex_db1 ''j1'' []) = Some (''j1'', ''worker-1'', True)" by code_simp
  with r have "rep = Some (''j1'', ''worker-1'', True)" by simp
  with run_outcome [OF r] r show ?thesis
    by (auto simp: ex_pg_def execute_def)
qed

lemma sint_small_int: "0 \<le> k \<Longrightarrow> k < 2 ^ 63 \<Longrightarrow> sint (word_of_int k :: 64 word) = k"
  by (simp add: signed_of_int signed_take_bit_int_eq_self)

text \<open>
  A decoded payload never makes the worker sleep longer than 60 seconds, for any 64-bit
  duration; up to 9223372036854 ms, where the product does not overflow, the sleep is the requested
  duration capped at 60 s, with 1 s for an absent one.
\<close>

lemma sleep_bounded:
  "fst (execute decode raw) = Some sl \<Longrightarrow>
     sint sl \<le> 60000000000
     \<and> (\<exists>p. (raw = [] \<and> p = \<lparr>pl_DurationMS = 0, pl_Fail = False\<rparr> \<or> decode raw = Inr p) \<and> 0 \<le> sint (pl_DurationMS p)
          \<and> (sint (pl_DurationMS p) \<le> 9223372036854 \<longrightarrow>
               sint sl = (if sint (pl_DurationMS p) = 0 then 1000000000
                          else min 60000000000 (sint (pl_DurationMS p) * 1000000))))"
proof -
  assume "fst (execute decode raw) = Some sl"
  then obtain p where p: "raw = [] \<and> p = \<lparr>pl_DurationMS = 0, pl_Fail = False\<rparr> \<or> decode raw = Inr p"
      "0 \<le> sint (pl_DurationMS p)" "sl = sleep_of p"
  proof (cases "raw = []")
    case True
    with that [of "\<lparr>pl_DurationMS = 0, pl_Fail = False\<rparr>"] \<open>fst (execute decode raw) = Some sl\<close> show ?thesis
      by (simp add: execute_def)
  next
    case False
    with that \<open>fst (execute decode raw) = Some sl\<close> show ?thesis
      by (auto simp: execute_def split: sum.splits if_splits)
  qed
  have c: "sint maxSleep = 60000000000" "sint defaultSleep = 1000000000" by code_simp+
  have "sint sl \<le> 60000000000" using p(3) c by (auto simp: sleep_of_def Let_def)
  moreover have "sint sl = (if sint (pl_DurationMS p) = 0 then 1000000000 else min 60000000000 (sint (pl_DurationMS p) * 1000000))"
    if le: "sint (pl_DurationMS p) \<le> 9223372036854"
  proof -
    have "pl_DurationMS p * Millisecond = word_of_int (sint (pl_DurationMS p) * 1000000)" by (simp add: Millisecond_def)
    moreover have "0 \<le> sint (pl_DurationMS p) * 1000000" "sint (pl_DurationMS p) * 1000000 < 2 ^ 63" using le p(2) by simp_all
    ultimately have "sint (pl_DurationMS p * Millisecond) = sint (pl_DurationMS p) * 1000000" by (simp only: sint_small_int)
    then show ?thesis using p(2,3) c by (simp add: sleep_of_def Let_def)
  qed
  ultimately show ?thesis using p(1,2) by blast
qed

text \<open>A requested duration of 9223372036855 ms overflows: the job does not sleep at all.\<close>

lemma sleep_overflow:
  "fst (execute (\<lambda>_. Inr \<lparr>pl_DurationMS = 9223372036855, pl_Fail = False\<rparr>) ''x'') = Some sl \<Longrightarrow> sint sl < 0"
proof -
  assume "fst (execute (\<lambda>_. Inr \<lparr>pl_DurationMS = 9223372036855, pl_Fail = False\<rparr>) ''x'') = Some sl"
  moreover have "map_option sint (fst (execute (\<lambda>_. Inr \<lparr>pl_DurationMS = 9223372036855, pl_Fail = False\<rparr>) ''x''))
      = Some (- 9223372036854551616)" by code_simp
  ultimately show ?thesis by simp
qed

end
