(* ===== verification/Registry.thy ===== *)
theory Registry
  imports Prelude
begin

section \<open>The heartbeat registry (internal/registry)\<close>

text \<open>
  The table of workers that each scheduler keeps (\<open>src/internal/registry/registry.go\<close>).  Every
  method holds the mutex for its whole body, so each is one step; the clock \<open>r.now()\<close> is an
  argument.  Durations are nanoseconds; \<open>Time.Sub\<close> saturates at the ends of the 64-bit range.
  \<open>Capacity\<close> and \<open>Inflight\<close> come from 32-bit fields of the RPCs and are integers here.
  \<open>sort.Slice\<close> is not stable; where the comparison is total on the table (names are keys) the result
  is the sorted list, whatever the order of the loop over the map.

  Shown: what \<open>Available\<close>, \<open>Dead\<close> and \<open>Snapshot\<close> contain and in which order, that no worker is
  offered work and presumed dead at the same time, and the laws that the dispatcher and the reaper
  rely on, as the locale \<open>liveness_table\<close>, interpreted on the registry.
\<close>

record WorkerState =
  w_Instance :: string
  w_Capacity :: int
  w_Inflight :: int
  w_LastSeen :: int
  w_Alive :: bool

record Registry =
  reg_workers :: "(string, WorkerState) fmap"
  reg_staleTTL :: int
  reg_deadTTL :: int

definition Registry_New :: "int \<Rightarrow> int \<Rightarrow> Registry" where
  "Registry_New staleTTL deadTTL =
     \<lparr>reg_workers = fmempty, reg_staleTTL = staleTTL, reg_deadTTL = deadTTL\<rparr>"

text \<open>\<open>time.Time.Sub\<close>.\<close>

definition time_Sub :: "int \<Rightarrow> int \<Rightarrow> int" where
  "time_Sub t u = max (- (2 ^ 63)) (min (2 ^ 63 - 1) (t - u))"

definition Registry_Record :: "int \<Rightarrow> Registry \<Rightarrow> string \<Rightarrow> int \<Rightarrow> int \<Rightarrow> Registry" where
  "Registry_Record now r instance_name capacity inflight =
     r\<lparr>reg_workers := fmupd instance_name
        \<lparr>w_Instance = instance_name, w_Capacity = capacity, w_Inflight = inflight,
         w_LastSeen = now, w_Alive = False\<rparr> (reg_workers r)\<rparr>"

text \<open>The workers in the order in which the loop over the map meets them.\<close>

definition range_workers :: "choice \<Rightarrow> Registry \<Rightarrow> WorkerState list" where
  "range_workers ch r =
     List.map_filter (fmlookup (reg_workers r)) (range_keys ch (reg_workers r))"

definition Registry_Snapshot :: "choice \<Rightarrow> int \<Rightarrow> Registry \<Rightarrow> WorkerState list" where
  "Registry_Snapshot ch now r =
     sort_key w_Instance
       (map (\<lambda>w. w\<lparr>w_Alive := (time_Sub now (w_LastSeen w) \<le> reg_deadTTL r)\<rparr>) (range_workers ch r))"

definition eligible_worker :: "int \<Rightarrow> Registry \<Rightarrow> WorkerState \<Rightarrow> bool" where
  "eligible_worker now r w \<longleftrightarrow>
     time_Sub now (w_LastSeen w) \<le> reg_staleTTL r \<and> w_Inflight w < w_Capacity w"

text \<open>A candidate is its name and its headroom; most headroom first, ties by name.\<close>

definition Registry_Available :: "choice \<Rightarrow> int \<Rightarrow> Registry \<Rightarrow> string list" where
  "Registry_Available ch now r =
     map fst (sort_key (\<lambda>(name, free). (- free, name))
       (map (\<lambda>w. (w_Instance w, w_Capacity w - w_Inflight w))
         (filter (eligible_worker now r) (range_workers ch r))))"

definition Registry_Dead :: "choice \<Rightarrow> int \<Rightarrow> Registry \<Rightarrow> string list" where
  "Registry_Dead ch now r =
     sort (map w_Instance
       (filter (\<lambda>w. time_Sub now (w_LastSeen w) > reg_deadTTL r) (range_workers ch r)))"

definition Registry_Forget :: "Registry \<Rightarrow> string \<Rightarrow> Registry" where
  "Registry_Forget r instance_name = r\<lparr>reg_workers := fmdrop instance_name (reg_workers r)\<rparr>"

subsection \<open>Well-formed tables\<close>

text \<open>Each worker is stored under its own name.\<close>

definition wf_registry :: "Registry \<Rightarrow> bool" where
  "wf_registry r \<longleftrightarrow> fmpred (\<lambda>k w. w_Instance w = k) (reg_workers r)"

lemma wf_registry_New: "wf_registry (Registry_New s d)"
  by (simp add: wf_registry_def Registry_New_def)

lemma wf_registry_Record: "wf_registry r \<Longrightarrow> wf_registry (Registry_Record now r i c n)"
  by (auto simp: wf_registry_def Registry_Record_def fmpred_iff)

lemma wf_registry_Forget: "wf_registry r \<Longrightarrow> wf_registry (Registry_Forget r i)"
  by (auto simp: wf_registry_def Registry_Forget_def fmpred_iff)

lemma wf_registryD: "wf_registry r \<Longrightarrow> fmlookup (reg_workers r) k = Some w \<Longrightarrow> w_Instance w = k"
  by (auto simp: wf_registry_def)

lemma range_workers_map: "range_workers ch r = map (\<lambda>k. the (fmlookup (reg_workers r) k)) (range_keys ch (reg_workers r))"
proof -
  have "List.map_filter (fmlookup m) ks = map (\<lambda>k. the (fmlookup m k)) ks" if "set ks \<subseteq> fset (fmdom m)"
    for ks and m :: "(string, WorkerState) fmap"
    using that by (induction ks) (auto simp: map_filter_simps fmlookup_dom_iff)
  then show ?thesis by (simp add: range_workers_def)
qed

lemma set_range_workers: "set (range_workers ch r) = {w. \<exists>k. fmlookup (reg_workers r) k = Some w}"
  by (force simp: range_workers_map fmlookup_dom_iff image_iff)

lemma map_Instance_range_workers:
  "wf_registry r \<Longrightarrow> map w_Instance (range_workers ch r) = range_keys ch (reg_workers r)"
  by (auto simp: range_workers_map fmlookup_dom_iff wf_registryD intro!: map_idI)

lemma distinct_range_workers: "wf_registry r \<Longrightarrow> distinct (map w_Instance (range_workers ch r))"
  by (simp add: map_Instance_range_workers)

lemma mset_range_workers: "mset (range_workers ch r) = mset (range_workers ch' r)"
  by (simp add: range_workers_map mset_range_keys [of ch _ ch'])

subsection \<open>Membership and order\<close>

lemma range_workers_inj: "wf_registry r \<Longrightarrow> inj_on w_Instance (set (range_workers ch r))"
  using distinct_range_workers by (simp add: distinct_map)

lemma sorted_by_sort_key: "sorted_wrt (\<lambda>x y. f x \<le> f y) (sort_key f xs)"
  by (metis sorted_sort_key sorted_wrt_map)

lemma Registry_Dead_iff:
  assumes "wf_registry r"
  shows "i \<in> set (Registry_Dead ch now r) \<longleftrightarrow>
    (\<exists>w. fmlookup (reg_workers r) i = Some w \<and> reg_deadTTL r < time_Sub now (w_LastSeen w))"
  using assms by (auto simp: Registry_Dead_def set_range_workers dest: wf_registryD)

lemma Registry_Available_iff:
  assumes "wf_registry r"
  shows "i \<in> set (Registry_Available ch now r) \<longleftrightarrow>
    (\<exists>w. fmlookup (reg_workers r) i = Some w \<and> eligible_worker now r w)"
  using assms by (force simp: Registry_Available_def set_range_workers dest: wf_registryD)

definition headroom :: "Registry \<Rightarrow> string \<Rightarrow> int" where
  "headroom r i = (case fmlookup (reg_workers r) i of None \<Rightarrow> 0 | Some w \<Rightarrow> w_Capacity w - w_Inflight w)"

text \<open>The candidates as pairs of name and headroom, before they are sorted.\<close>

definition candidates :: "choice \<Rightarrow> int \<Rightarrow> Registry \<Rightarrow> (string \<times> int) list" where
  "candidates ch now r =
     map (\<lambda>w. (w_Instance w, w_Capacity w - w_Inflight w)) (filter (eligible_worker now r) (range_workers ch r))"

lemma candidates_headroom:
  "wf_registry r \<Longrightarrow> (i, f) \<in> set (candidates ch now r) \<Longrightarrow> f = headroom r i"
  by (auto simp: candidates_def set_range_workers headroom_def dest: wf_registryD)

lemma distinct_candidates: "wf_registry r \<Longrightarrow> distinct (map fst (candidates ch now r))"
  using distinct_range_workers [of r ch] by (simp add: candidates_def comp_def distinct_map_filter)

lemma sorted_wrt_map_impl:
  assumes "sorted_wrt P xs" "\<And>x y. x \<in> set xs \<Longrightarrow> y \<in> set xs \<Longrightarrow> P x y \<Longrightarrow> Q (f x) (f y)"
  shows "sorted_wrt Q (map f xs)"
  using assms by (simp add: sorted_wrt_map sorted_wrt_mono_rel [of xs P])

lemma sorted_wrt_distinct: "distinct xs \<Longrightarrow> sorted_wrt P xs \<Longrightarrow> sorted_wrt (\<lambda>x y. P x y \<and> x \<noteq> y) xs"
  by (induction xs) auto

lemma Registry_Available_sorted:
  assumes "wf_registry r"
  shows "distinct (Registry_Available ch now r)"
    and "sorted_wrt (\<lambda>i j. (- headroom r i, i) \<le> (- headroom r j, j)) (Registry_Available ch now r)"
proof -
  let ?key = "\<lambda>(name, free). (- free, name) :: int \<times> string"
  have a: "Registry_Available ch now r = map fst (sort_key ?key (candidates ch now r))"
    by (simp add: Registry_Available_def candidates_def)
  have "mset (map fst (sort_key ?key (candidates ch now r))) = mset (map fst (candidates ch now r))" by simp
  then show "distinct (Registry_Available ch now r)"
    unfolding a using distinct_candidates [OF assms] mset_eq_imp_distinct_iff by blast
  have "sorted_wrt (\<lambda>x y. ?key x \<le> ?key y) (sort_key ?key (candidates ch now r))"
    by (rule sorted_by_sort_key)
  then show "sorted_wrt (\<lambda>i j. (- headroom r i, i) \<le> (- headroom r j, j)) (Registry_Available ch now r)"
    unfolding a
  proof (rule sorted_wrt_map_impl)
    fix x y
    assume "x \<in> set (sort_key ?key (candidates ch now r))" "y \<in> set (sort_key ?key (candidates ch now r))"
      and "?key x \<le> ?key y"
    then show "(- headroom r (fst x), fst x) \<le> (- headroom r (fst y), fst y)"
      using candidates_headroom [OF assms, of "fst x" "snd x" ch now] candidates_headroom [OF assms, of "fst y" "snd y" ch now]
      by (simp add: case_prod_beta)
  qed
qed

lemma Registry_Dead_sorted:
  assumes "wf_registry r"
  shows "distinct (Registry_Dead ch now r)" "sorted (Registry_Dead ch now r)"
  using distinct_range_workers [OF assms, of ch] by (simp_all add: Registry_Dead_def distinct_map_filter)

text \<open>Two lists with the same elements, distinct and sorted by a total order, are equal.\<close>

lemma Registry_Dead_choice:
  assumes "wf_registry r"
  shows "Registry_Dead ch now r = Registry_Dead ch' now r"
  using Registry_Dead_sorted [OF assms] Registry_Dead_iff [OF assms]
  by (intro sorted_distinct_set_unique) auto

lemma Registry_Available_choice:
  assumes "wf_registry r"
  shows "Registry_Available ch now r = Registry_Available ch' now r"
proof -
  let ?k = "\<lambda>i. (- headroom r i, i)"
  have "inj_on ?k S" for S by (auto simp: inj_on_def)
  then have "map ?k (Registry_Available ch now r) = map ?k (Registry_Available ch' now r)"
    using Registry_Available_sorted [OF assms] Registry_Available_iff [OF assms]
    by (intro sorted_distinct_set_unique) (auto simp: sorted_wrt_map distinct_map image_iff)
  then show ?thesis by (rule map_injective) (simp add: inj_def)
qed

subsection \<open>The interface to the reaper and the dispatcher\<close>

text \<open>
  What a liveness table promises its clients: a recorded worker is alive, a forgotten one is gone,
  other workers are not affected, and no worker is at once dead and a candidate.
\<close>

locale liveness_table =
  fixes wf :: "'r \<Rightarrow> bool"
    and dead :: "int \<Rightarrow> 'r \<Rightarrow> string list"
    and available :: "int \<Rightarrow> 'r \<Rightarrow> string list"
    and beat :: "int \<Rightarrow> 'r \<Rightarrow> string \<Rightarrow> int \<Rightarrow> int \<Rightarrow> 'r"
    and forget :: "'r \<Rightarrow> string \<Rightarrow> 'r"
  assumes wf_beat: "wf r \<Longrightarrow> wf (beat now r i c n)"
    and wf_forget: "wf r \<Longrightarrow> wf (forget r i)"
    and dead_forget: "wf r \<Longrightarrow> set (dead now (forget r i)) = set (dead now r) - {i}"
    and dead_beat: "wf r \<Longrightarrow> j \<noteq> i \<Longrightarrow> j \<in> set (dead now (beat t r i c n)) \<longleftrightarrow> j \<in> set (dead now r)"
    and distinct_dead: "wf r \<Longrightarrow> distinct (dead now r)"
begin

lemma wf_forget_all: "wf r \<Longrightarrow> wf (fold (\<lambda>i r. forget r i) is r)"
  by (induction "is" arbitrary: r) (simp_all add: wf_forget)

text \<open>Forgetting a list of workers removes exactly these from the dead ones.\<close>

lemma dead_forget_all: "wf r \<Longrightarrow> set (dead now (fold (\<lambda>i r. forget r i) is r)) = set (dead now r) - set is"
  by (induction "is" arbitrary: r) (auto simp: wf_forget dead_forget)

end

interpretation reg: liveness_table wf_registry "Registry_Dead ch" "Registry_Available ch" Registry_Record Registry_Forget for ch
proof
  fix r now i
  assume wf: "wf_registry r"
  show "set (Registry_Dead ch now (Registry_Forget r i)) = set (Registry_Dead ch now r) - {i}"
    using wf wf_registry_Forget [OF wf, of i]
    by (auto simp: Registry_Dead_iff Registry_Forget_def split: if_splits)
next
  fix r j i now t c n
  assume wf: "wf_registry r" and ne: "(j::string) \<noteq> i"
  show "j \<in> set (Registry_Dead ch now (Registry_Record t r i c n)) \<longleftrightarrow> j \<in> set (Registry_Dead ch now r)"
    using wf wf_registry_Record [OF wf, of t i c n] ne
    by (auto simp: Registry_Dead_iff Registry_Record_def)
qed (simp_all add: wf_registry_Record wf_registry_Forget Registry_Dead_sorted)

subsection \<open>Properties\<close>

text \<open>
  The placement candidates are exactly the workers with a heartbeat not older than the stale
  limit and free capacity, each once, most headroom first and ties by name, whatever the order of
  the loop over the map.
\<close>

lemma Available_spec:
  assumes "wf_registry r"
  shows "distinct (Registry_Available ch now r)
       \<and> set (Registry_Available ch now r) =
           {i. \<exists>w. fmlookup (reg_workers r) i = Some w
              \<and> time_Sub now (w_LastSeen w) \<le> reg_staleTTL r \<and> w_Inflight w < w_Capacity w}
       \<and> sorted_wrt (\<lambda>i j. headroom r i > headroom r j \<or> headroom r i = headroom r j \<and> i < j)
           (Registry_Available ch now r)
       \<and> Registry_Available ch now r = Registry_Available ch' now r"
proof (intro conjI)
  let ?A = "Registry_Available ch now r"
  note sorted = Registry_Available_sorted [OF assms, of ch now]
  show "distinct ?A" by (rule sorted)
  have "sorted_wrt (\<lambda>i j. (- headroom r i, i) \<le> (- headroom r j, j) \<and> i \<noteq> j) ?A"
    using sorted by (rule sorted_wrt_distinct)
  then show "sorted_wrt (\<lambda>i j. headroom r i > headroom r j \<or> headroom r i = headroom r j \<and> i < j) ?A"
    by (rule sorted_wrt_mono_rel [rotated]) (auto simp: less_eq_prod_def)
  show "set ?A = {i. \<exists>w. fmlookup (reg_workers r) i = Some w
      \<and> time_Sub now (w_LastSeen w) \<le> reg_staleTTL r \<and> w_Inflight w < w_Capacity w}"
    using Registry_Available_iff [OF assms] by (auto simp: eligible_worker_def)
  show "?A = Registry_Available ch' now r" by (rule Registry_Available_choice [OF assms])
qed

definition ex_registry :: Registry where
  "ex_registry = Registry_Record 95 (Registry_Record 100 (Registry_Record 10 (Registry_New 20 50) ''w3'' 4 0)
     ''w2'' 4 1) ''w1'' 4 1"

lemma wf_ex_registry: "wf_registry ex_registry"
  by (simp add: ex_registry_def wf_registry_New wf_registry_Record)

lemma Available_spec_example:
  "Registry_Available (\<lambda>_. [1]) 100 ex_registry = [''w1'', ''w2''] \<and> distinct (Registry_Available (\<lambda>_. [1]) 100 ex_registry)"
proof -
  have "Registry_Available (\<lambda>_. []) 100 ex_registry = [''w1'', ''w2'']" by code_simp
  then show ?thesis using Available_spec [OF wf_ex_registry, of "\<lambda>_. [1]" 100 "\<lambda>_. []"] by simp
qed

text \<open>
  C21 With a stale limit not above the dead limit, no worker is offered work and presumed dead at
  the same time; the snapshot lists every worker once by name and calls alive exactly those that
  are not presumed dead; and a heartbeat makes its sender alive, and a candidate exactly when it
  reports free capacity.
\<close>

theorem liveness_verdicts:
  assumes "wf_registry r" "0 \<le> reg_staleTTL r" "reg_staleTTL r \<le> reg_deadTTL r"
  shows "set (Registry_Available ch now r) \<inter> set (Registry_Dead ch' now r) = {}
       \<and> map w_Instance (Registry_Snapshot ch now r) = sorted_list_of_fset (fmdom (reg_workers r))
       \<and> set (map w_Instance (filter w_Alive (Registry_Snapshot ch now r))) =
           fset (fmdom (reg_workers r)) - set (Registry_Dead ch' now r)
       \<and> i \<notin> set (Registry_Dead ch' now (Registry_Record now r i capacity inflight))
       \<and> (i \<in> set (Registry_Available ch now (Registry_Record now r i capacity inflight)) \<longleftrightarrow> inflight < capacity)"
proof (intro conjI)
  note wf = assms(1)
  show "set (Registry_Available ch now r) \<inter> set (Registry_Dead ch' now r) = {}"
    using assms(3) by (auto simp: Registry_Available_iff [OF wf] Registry_Dead_iff [OF wf] eligible_worker_def)
  let ?alive = "\<lambda>w. w\<lparr>w_Alive := (time_Sub now (w_LastSeen w) \<le> reg_deadTTL r)\<rparr>"
  let ?ws = "map ?alive (range_workers ch r)"
  have "mset (map w_Instance (Registry_Snapshot ch now r)) = mset (range_keys ch (reg_workers r))"
    by (simp add: Registry_Snapshot_def multiset.map_comp comp_def flip: map_Instance_range_workers [OF wf])
  moreover have "sorted (map w_Instance (Registry_Snapshot ch now r))" by (simp add: Registry_Snapshot_def)
  moreover have "mset (sorted_list_of_fset (fmdom (reg_workers r))) = mset (range_keys ch (reg_workers r))"
    by (simp add: range_keys_def Let_def)
  moreover have "sorted (sorted_list_of_fset (fmdom (reg_workers r)))" by (simp add: sorted_list_of_fset.rep_eq)
  ultimately show "map w_Instance (Registry_Snapshot ch now r) = sorted_list_of_fset (fmdom (reg_workers r))"
    by (metis properties_for_sort)
  show "set (map w_Instance (filter w_Alive (Registry_Snapshot ch now r))) =
      fset (fmdom (reg_workers r)) - set (Registry_Dead ch' now r)"
    using wf_registryD [OF wf]
    by (force simp: Registry_Snapshot_def set_range_workers Registry_Dead_iff [OF wf] fmlookup_dom_iff image_iff)
  have wf': "wf_registry (Registry_Record now r i capacity inflight)" by (rule wf_registry_Record [OF wf])
  have z: "time_Sub now now = 0" by (simp add: time_Sub_def)
  show "i \<notin> set (Registry_Dead ch' now (Registry_Record now r i capacity inflight))"
    unfolding Registry_Dead_iff [OF wf'] using assms(2,3) by (simp add: Registry_Record_def z)
  show "i \<in> set (Registry_Available ch now (Registry_Record now r i capacity inflight)) \<longleftrightarrow> inflight < capacity"
    unfolding Registry_Available_iff [OF wf'] using assms(2)
    by (simp add: eligible_worker_def Registry_Record_def z)
qed

theorem liveness_verdicts_witness:
  "set (Registry_Available (\<lambda>_. []) 100 ex_registry) \<inter> {''w3''} = {} \<and> Registry_Dead (\<lambda>_. []) 100 ex_registry = [''w3'']"
proof -
  have "0 \<le> reg_staleTTL ex_registry" "reg_staleTTL ex_registry \<le> reg_deadTTL ex_registry"
    and d: "Registry_Dead (\<lambda>_. []) 100 ex_registry = [''w3'']" by code_simp+
  from liveness_verdicts [OF wf_ex_registry this(1,2), of "\<lambda>_. []" 100 "\<lambda>_. []"] d show ?thesis by simp
qed

end
