(* ===== verification/Dispatch.thy ===== *)
theory Dispatch
  imports WorkerSvc Registry
begin

section \<open>The dispatcher (internal/dispatch)\<close>

text \<open>
  \<open>src/internal/dispatch/dispatch.go\<close>.  The state of everything outside the dispatcher (workers,
  database, registry) is a type parameter \<open>'w\<close>; a worker's client is a function that sends one
  \<open>ExecuteJob\<close> request to it and changes that state, and the candidate provider reads it.  The
  round-robin cursor is a 64-bit word.  A connection is its address; \<open>Close\<close> gives the list of
  connections it closes.

  Shown: which worker gets the job and that no other did, that the round robin visits every worker
  and starts one further each time, and that with the heartbeat registry as provider only live
  workers with free capacity are asked, the one with most headroom first.
\<close>

record 'w worker =
  dw_name :: string
  dw_client :: "ExecuteJobRequest \<Rightarrow> 'w \<Rightarrow> ExecuteJobResponse rpc \<times> 'w"
  dw_close :: "string option"

record 'w Dispatcher =
  dp_workers :: "'w worker list"
  dp_byName :: "(string, 'w worker) fmap"
  dp_candidates :: "('w \<Rightarrow> string list) option"
  dp_next :: "64 word"

definition Dispatcher_Close :: "'w Dispatcher \<Rightarrow> string list" where
  "Dispatcher_Close d = List.map_filter dw_close (dp_workers d)"

text \<open>
  The loop of \<open>New\<close> over the sorted names.  \<open>dial\<close> stands for \<open>grpc.NewClient\<close>: an error or the
  client for an address.  On an error the connections made so far are closed.
\<close>

fun dial_all ::
  "(string \<Rightarrow> string + (ExecuteJobRequest \<Rightarrow> 'w \<Rightarrow> ExecuteJobResponse rpc \<times> 'w)) \<Rightarrow> (string, string) fmap
     \<Rightarrow> string list \<Rightarrow> 'w Dispatcher \<Rightarrow> (string \<times> string list) + 'w Dispatcher" where
  "dial_all dial workers [] d = Inr d"
| "dial_all dial workers (name # names) d =
     (let addr = at_or [] workers name in
      case dial addr of
        Inl e \<Rightarrow> Inl (''dispatch: client for '' @ name @ '': '' @ e, Dispatcher_Close d)
      | Inr c \<Rightarrow>
          (let w = \<lparr>dw_name = name, dw_client = c, dw_close = Some addr\<rparr>
           in dial_all dial workers names
                (d\<lparr>dp_workers := dp_workers d @ [w], dp_byName := fmupd name w (dp_byName d)\<rparr>)))"

definition Dispatcher_New ::
  "choice \<Rightarrow> (string \<Rightarrow> string + (ExecuteJobRequest \<Rightarrow> 'w \<Rightarrow> ExecuteJobResponse rpc \<times> 'w)) \<Rightarrow> (string, string) fmap
     \<Rightarrow> ('w \<Rightarrow> string list) option \<Rightarrow> (string \<times> string list) + 'w Dispatcher" where
  "Dispatcher_New ch dial workers cands =
     (if workers = fmempty then Inl (''dispatch: no workers configured (IRONWORK_WORKERS)'', [])
      else
        let names = sort (range_keys ch workers)
        in dial_all dial workers names
             \<lparr>dp_workers = [], dp_byName = fmempty, dp_candidates = cands, dp_next = 0\<rparr>)"

definition eligible :: "'w Dispatcher \<Rightarrow> 'w \<Rightarrow> 'w worker list \<times> 'w Dispatcher" where
  "eligible d s =
     (case dp_candidates d of
        None \<Rightarrow>
          (let start = dp_next d + 1 - 1; n = word_of_nat (length (dp_workers d)) :: 64 word
           in (map (\<lambda>i. dp_workers d ! unat ((start + word_of_nat i) mod n)) [0..<length (dp_workers d)],
               d\<lparr>dp_next := dp_next d + 1\<rparr>))
      | Some cands \<Rightarrow> (List.map_filter (fmlookup (dp_byName d)) (cands s), d))"

definition request_of :: "Job \<Rightarrow> ExecuteJobRequest" where
  "request_of job = \<lparr>xr_JobId = j_ID job, xr_Name = j_Name job, xr_Payload = j_Payload job\<rparr>"

text \<open>The loop of \<open>Dispatch\<close>: the first acceptance, or the last error (\<open>nil\<close> at the start).\<close>

fun offer_all ::
  "ExecuteJobRequest \<Rightarrow> 'w worker list \<Rightarrow> rpc_error option \<Rightarrow> 'w \<Rightarrow> (rpc_error option + string) \<times> 'w" where
  "offer_all req [] lastErr s = (Inl lastErr, s)"
| "offer_all req (w # ws) lastErr s =
     (case dw_client w req s of
        (Inr resp, s') \<Rightarrow> (Inr (xs_WorkerInstance resp), s')
      | (Inl e, s') \<Rightarrow> offer_all req ws (Some e) s')"

definition Dispatch :: "'w Dispatcher \<Rightarrow> Job \<Rightarrow> 'w \<Rightarrow> (string + string) \<times> 'w Dispatcher \<times> 'w" where
  "Dispatch d job s =
     (let (workers, d') = eligible d s in
      if workers = [] then (Inl (''dispatch: no available workers for job '' @ j_ID job), d', s)
      else
        (case offer_all (request_of job) workers None s of
           (Inr inst, s') \<Rightarrow> (Inr inst, d', s')
         | (Inl lastErr, s') \<Rightarrow>
             (Inl (''dispatch: no worker accepted job '' @ j_ID job @ '': ''
                @ (case lastErr of None \<Rightarrow> ''%!w(<nil>)'' | Some e \<Rightarrow> rpc_error_text e)), d', s')))"

subsection \<open>Offers\<close>

text \<open>A list of workers that all refuse, each asked once, from one state to another.\<close>

inductive refuse_all :: "ExecuteJobRequest \<Rightarrow> 'w worker list \<Rightarrow> 'w \<Rightarrow> rpc_error list \<Rightarrow> 'w \<Rightarrow> bool" for req where
  none: "refuse_all req [] s [] s"
| more: "dw_client w req s = (Inl e, s1) \<Longrightarrow> refuse_all req ws s1 es s' \<Longrightarrow> refuse_all req (w # ws) s (e # es) s'"

inductive_simps refuse_all_Nil [simp]: "refuse_all req [] s es s'"
inductive_simps refuse_all_Cons: "refuse_all req (w # ws) s es s'"

lemma refuse_all_length: "refuse_all req ws s es s' \<Longrightarrow> length es = length ws"
  by (induction rule: refuse_all.induct) simp_all

lemma offer_all_Inr:
  "offer_all req ws le s = (Inr inst, s') \<Longrightarrow>
     \<exists>pre w post es s1 resp. ws = pre @ w # post \<and> refuse_all req pre s es s1
       \<and> dw_client w req s1 = (Inr resp, s') \<and> inst = xs_WorkerInstance resp"
proof (induction req ws le s rule: offer_all.induct)
  case (2 req w ws le s)
  obtain r s1 where c: "dw_client w req s = (r, s1)" by fastforce
  show ?case
  proof (cases r)
    case (Inl e)
    with 2 c obtain pre w' post es s2 resp where "ws = pre @ w' # post" "refuse_all req pre s1 es s2"
        "dw_client w' req s2 = (Inr resp, s')" "inst = xs_WorkerInstance resp"
      by auto
    moreover from this(2) c Inl have "refuse_all req (w # pre) s (e # es) s2" by (auto intro: refuse_all.more)
    ultimately show ?thesis by (intro exI [of _ "w # pre"]) (auto intro!: exI)
  next
    case (Inr resp)
    with "2.prems" c show ?thesis by (intro exI [of _ "[]"]) auto
  qed
qed simp

lemma offer_all_Inl:
  "offer_all req ws le s = (Inl le', s') \<Longrightarrow>
     \<exists>es. refuse_all req ws s es s' \<and> le' = (if ws = [] then le else Some (last es))"
proof (induction req ws le s rule: offer_all.induct)
  case (2 req w ws le s)
  obtain r s1 where c: "dw_client w req s = (r, s1)" by fastforce
  with "2.prems" obtain e where r: "r = Inl e" by (cases r) auto
  with 2 c obtain es where es: "refuse_all req ws s1 es s'" "le' = (if ws = [] then Some e else Some (last es))" by auto
  have "refuse_all req (w # ws) s (e # es) s'" using c r es(1) by (auto intro: refuse_all.more)
  moreover have "ws = [] \<longleftrightarrow> es = []" using refuse_all_length [OF es(1)] by auto
  ultimately show ?case using es(2) by (intro exI [of _ "e # es"]) simp
qed simp

text \<open>
  C16 A dispatch asks the eligible workers one after the other, each at most once, and stops at the
  first that accepts: it succeeds with the name that worker answered when all before it refused and
  no later one was asked; it fails when there was nobody to ask, or when everybody was asked and
  refused, with the last refusal in the error.
\<close>

theorem Dispatch_first_acceptor:
  assumes "Dispatch d job s = (res, d', s')"
  shows "let ws = fst (eligible d s); req = request_of job in
     d' = snd (eligible d s)
   \<and> (case res of
        Inr inst \<Rightarrow> (\<exists>pre w post es s1 resp. ws = pre @ w # post \<and> refuse_all req pre s es s1
           \<and> dw_client w req s1 = (Inr resp, s') \<and> inst = xs_WorkerInstance resp)
      | Inl msg \<Rightarrow>
          ws = [] \<and> s' = s \<and> msg = ''dispatch: no available workers for job '' @ j_ID job
          \<or> ws \<noteq> [] \<and> (\<exists>es. refuse_all req ws s es s'
               \<and> msg = ''dispatch: no worker accepted job '' @ j_ID job @ '': '' @ rpc_error_text (last es)))"
proof -
  obtain ws d1 where e: "eligible d s = (ws, d1)" by fastforce
  show ?thesis
  proof (cases "ws = []")
    case True
    with assms e show ?thesis by (auto simp: Dispatch_def)
  next
    case False
    obtain r s1 where o1: "offer_all (request_of job) ws None s = (r, s1)" by fastforce
    show ?thesis
    proof (cases r)
      case (Inl le)
      with offer_all_Inl [of "request_of job" ws None s le s1] o1 False obtain es where
        "refuse_all (request_of job) ws s es s1" "le = Some (last es)" by auto
      with assms e False o1 Inl show ?thesis by (auto simp: Dispatch_def)
    next
      case (Inr inst)
      with assms e False o1 have "res = Inr inst" "d' = d1" "s' = s1" by (simp_all add: Dispatch_def)
      with offer_all_Inr [of "request_of job" ws None s inst s1] o1 Inr e show ?thesis by (simp add: Let_def)
    qed
  qed
qed

text \<open>A world for examples: the log of the workers asked; some accept.\<close>

definition ex_worker :: "string \<Rightarrow> bool \<Rightarrow> string list worker" where
  "ex_worker n ok = \<lparr>dw_name = n, dw_client = (\<lambda>req s. (if ok then Inr \<lparr>xs_WorkerInstance = n\<rparr>
     else Inl (RpcError ResourceExhausted ''full''), s @ [n])), dw_close = None\<rparr>"

definition ex_dispatcher :: "string list Dispatcher" where
  "ex_dispatcher = \<lparr>dp_workers = [ex_worker ''w1'' False, ex_worker ''w2'' True, ex_worker ''w3'' True],
     dp_byName = fmempty, dp_candidates = None, dp_next = 0\<rparr>"

theorem Dispatch_first_acceptor_witness:
  "\<exists>res d' s'. Dispatch ex_dispatcher (job_of_row (ex_row ''j1'' StatusPending None)) [] = (res, d', s')
     \<and> res = Inr ''w2'' \<and> s' = [''w1'', ''w2''] \<and> dp_next d' = 1"
proof -
  let ?j = "job_of_row (ex_row ''j1'' StatusPending None)"
  obtain res d' s' where r: "Dispatch ex_dispatcher ?j [] = (res, d', s')" by (metis prod_cases3)
  have "(\<lambda>(a, b, c). (a, c)) (Dispatch ex_dispatcher ?j []) = (Inr ''w2'', [''w1'', ''w2''])" by code_simp
  moreover have "d' = snd (eligible ex_dispatcher [])" using Dispatch_first_acceptor [OF r] by (simp add: Let_def)
  ultimately show ?thesis using r by (simp add: eligible_def ex_dispatcher_def)
qed

subsection \<open>Round robin\<close>

lemma unat_rotate_index:
  assumes "i < n" "unat (x :: 64 word) + n \<le> 2 ^ 64" "n < 2 ^ 64"
  shows "unat ((x + word_of_nat i) mod word_of_nat n) = (unat x + i) mod n"
proof -
  have "unat (word_of_nat i :: 64 word) = i" "unat (word_of_nat n :: 64 word) = n"
    using assms(1,3) by (simp_all add: unsigned_of_nat take_bit_nat_eq_self)
  moreover have "unat (x + word_of_nat i) = unat x + i"
    using assms \<open>unat (word_of_nat i :: 64 word) = i\<close> by (subst unat_add_lem [THEN iffD1]) simp_all
  ultimately show ?thesis by (simp add: unat_mod)
qed

lemma eligible_round_robin:
  assumes "dp_candidates d = None" "unat (dp_next d) + length (dp_workers d) \<le> 2 ^ 64" "length (dp_workers d) < 2 ^ 64"
  shows "eligible d s = (rotate (unat (dp_next d) mod length (dp_workers d)) (dp_workers d), d\<lparr>dp_next := dp_next d + 1\<rparr>)"
proof -
  let ?ws = "dp_workers d"
  have "map (\<lambda>i. ?ws ! unat ((dp_next d + word_of_nat i) mod word_of_nat (length ?ws))) [0..<length ?ws]
      = rotate (unat (dp_next d) mod length ?ws) ?ws"
  proof (rule nth_equalityI)
    fix i
    assume "i < length (map (\<lambda>i. ?ws ! unat ((dp_next d + word_of_nat i) mod word_of_nat (length ?ws))) [0..<length ?ws])"
    then have i: "i < length ?ws" by simp
    then show "map (\<lambda>i. ?ws ! unat ((dp_next d + word_of_nat i) mod word_of_nat (length ?ws))) [0..<length ?ws] ! i
        = rotate (unat (dp_next d) mod length ?ws) ?ws ! i"
      using unat_rotate_index [OF i assms(2,3)] by (simp add: nth_rotate mod_simps)
  qed simp
  then show ?thesis using assms(1) by (simp add: eligible_def Let_def)
qed

lemma mset_rotate [simp]: "mset (rotate n xs) = mset xs"
proof (induction n)
  case (Suc n)
  have "mset (rotate1 ys) = mset ys" for ys :: "'a list" by (cases ys) simp_all
  then show ?case by (simp add: Suc)
qed simp

text \<open>
  Without a candidate provider, and away from the wrap-around of the 64-bit cursor, every
  dispatch tries every configured worker exactly once, and over as many consecutive dispatches as
  there are workers each of them is tried first exactly once.
\<close>

lemma round_robin_fair:
  assumes "dp_candidates d = None" "dp_workers d \<noteq> []"
    and "unat (dp_next d) + 2 * length (dp_workers d) \<le> 2 ^ 64"
  shows "(\<forall>k < length (dp_workers d).
            mset (fst (eligible (((\<lambda>d. snd (eligible d s)) ^^ k) d) s)) = mset (dp_workers d))
       \<and> mset (map (\<lambda>k. hd (fst (eligible (((\<lambda>d. snd (eligible d s)) ^^ k) d) s))) [0..<length (dp_workers d)])
           = mset (dp_workers d)"
proof -
  let ?ws = "dp_workers d" and ?n = "length (dp_workers d)" and ?x = "unat (dp_next d)"
  let ?it = "\<lambda>k. ((\<lambda>d. snd (eligible d s)) ^^ k) d"
  have it: "?it k = d\<lparr>dp_next := dp_next d + word_of_nat k\<rparr>" for k
    using assms(1) by (induction k) (simp_all add: eligible_def Let_def algebra_simps)
  have el: "fst (eligible (?it k) s) = rotate ((?x + k) mod ?n) ?ws" if "k < ?n" for k
  proof -
    have "unat (word_of_nat k :: 64 word) = k" using that assms(3) by (simp add: unsigned_of_nat take_bit_nat_eq_self)
    then have "unat (dp_next d + word_of_nat k) = ?x + k"
      using that assms(3) by (subst unat_add_lem [THEN iffD1]) simp_all
    then show ?thesis using eligible_round_robin [of "?it k" s] that assms by (simp add: it)
  qed
  have "mset (fst (eligible (?it k) s)) = mset ?ws" if "k < ?n" for k
    using el [OF that] by simp
  moreover have "map (\<lambda>k. hd (fst (eligible (?it k) s))) [0..<?n] = rotate (?x mod ?n) ?ws"
  proof (rule nth_equalityI)
    fix i
    assume "i < length (map (\<lambda>k. hd (fst (eligible (?it k) s))) [0..<?n])"
    then have "i < ?n" by simp
    then show "map (\<lambda>k. hd (fst (eligible (?it k) s))) [0..<?n] ! i = rotate (?x mod ?n) ?ws ! i"
      using el [of i] assms(2) by (simp add: nth_rotate hd_rotate_conv_nth mod_simps)
  qed simp
  then have "mset (map (\<lambda>k. hd (fst (eligible (?it k) s))) [0..<?n]) = mset ?ws"
    by (simp del: mset_map)
  ultimately show ?thesis by blast
qed

lemma round_robin_fair_example:
  "mset (map (\<lambda>k. hd (fst (eligible (((\<lambda>d. snd (eligible d [])) ^^ k) ex_dispatcher) []))) [0..<3])
     = mset (dp_workers ex_dispatcher)"
proof -
  have "dp_candidates ex_dispatcher = None" "length (dp_workers ex_dispatcher) = 3" "dp_workers ex_dispatcher \<noteq> []"
      "dp_next ex_dispatcher = 0"
    by (simp_all add: ex_dispatcher_def)
  with round_robin_fair [of ex_dispatcher "[]"] show ?thesis by simp
qed

subsection \<open>Building a dispatcher, and placement by heartbeats\<close>

text \<open>A dispatcher knows each of its workers under its own name.\<close>

definition wf_dispatcher :: "'w Dispatcher \<Rightarrow> bool" where
  "wf_dispatcher d \<longleftrightarrow>
     distinct (map dw_name (dp_workers d))
     \<and> (\<forall>n. fmlookup (dp_byName d) n = List.find (\<lambda>w. dw_name w = n) (dp_workers d))"

lemma find_append: "List.find P (xs @ ys) = (case List.find P xs of None \<Rightarrow> List.find P ys | Some x \<Rightarrow> Some x)"
  by (induction xs) simp_all

lemma dial_all_Inr:
  assumes "dial_all dial workers names d = Inr d'" "wf_dispatcher d"
    and "distinct (map dw_name (dp_workers d) @ names)"
  shows "wf_dispatcher d' \<and> map dw_name (dp_workers d') = map dw_name (dp_workers d) @ names
       \<and> dp_candidates d' = dp_candidates d \<and> dp_next d' = dp_next d"
  using assms
proof (induction names arbitrary: d)
  case Nil
  then show ?case by simp
next
  case (Cons name names)
  let ?w = "\<lambda>c. \<lparr>dw_name = name, dw_client = c, dw_close = Some (at_or [] workers name)\<rparr>"
  from Cons.prems(1) obtain c where c: "dial (at_or [] workers name) = Inr c"
      and rest: "dial_all dial workers names (d\<lparr>dp_workers := dp_workers d @ [?w c], dp_byName := fmupd name (?w c) (dp_byName d)\<rparr>) = Inr d'"
    by (auto simp: Let_def split: sum.splits)
  have "List.find (\<lambda>w. dw_name w = name) (dp_workers d) = None"
    using Cons.prems(3) by (auto simp: find_None_iff)
  then have "wf_dispatcher (d\<lparr>dp_workers := dp_workers d @ [?w c], dp_byName := fmupd name (?w c) (dp_byName d)\<rparr>)"
    using Cons.prems(2,3) by (auto simp: wf_dispatcher_def find_append split: option.splits)
  from Cons.IH [OF rest this] Cons.prems(3) show ?case by auto
qed

lemma map_filter_Some: "map f xs = map (\<lambda>n. Some (g n)) ns \<Longrightarrow> List.map_filter f xs = map g ns"
  by (induction xs arbitrary: ns) (auto simp: map_filter_simps)

lemma dial_all_Inl:
  assumes "dial_all dial workers names d = Inl (msg, closed)"
    and "map dw_close (dp_workers d) = map (\<lambda>n. Some (at_or [] workers n)) done_names"
  shows "\<exists>pre name post e. names = pre @ name # post \<and> dial (at_or [] workers name) = Inl e
       \<and> msg = ''dispatch: client for '' @ name @ '': '' @ e
       \<and> closed = map (at_or [] workers) (done_names @ pre)"
  using assms
proof (induction names arbitrary: d done_names)
  case Nil
  then show ?case by simp
next
  case (Cons name names)
  show ?case
  proof (cases "dial (at_or [] workers name)")
    case (Inl e)
    have "Dispatcher_Close d = map (at_or [] workers) done_names"
      using map_filter_Some [OF Cons.prems(2)] by (simp add: Dispatcher_Close_def)
    with Inl Cons.prems(1) show ?thesis
      by (intro exI [where x = "[] :: string list"], intro exI [where x = name]) (auto simp: Let_def)
  next
    case (Inr c)
    let ?w = "\<lparr>dw_name = name, dw_client = c, dw_close = Some (at_or [] workers name)\<rparr>"
    let ?d = "d\<lparr>dp_workers := dp_workers d @ [?w], dp_byName := fmupd name ?w (dp_byName d)\<rparr>"
    have "dial_all dial workers names ?d = Inl (msg, closed)" using Cons.prems(1) Inr by (simp add: Let_def)
    moreover have "map dw_close (dp_workers ?d) = map (\<lambda>n. Some (at_or [] workers n)) (done_names @ [name])"
      using Cons.prems(2) by simp
    ultimately obtain pre n post e where "names = pre @ n # post" "dial (at_or [] workers n) = Inl e"
        "msg = ''dispatch: client for '' @ n @ '': '' @ e" "closed = map (at_or [] workers) ((done_names @ [name]) @ pre)"
      using Cons.IH by blast
    then show ?thesis by (intro exI [of _ "name # pre"]) auto
  qed
qed

lemma sort_range_keys: "sort (range_keys ch m) = sorted_list_of_fset (fmdom m)"
  by (rule properties_for_sort) (simp_all add: range_keys_def Let_def sorted_list_of_fset.rep_eq)

lemma Dispatcher_New_Inr:
  assumes "Dispatcher_New ch dial workers cands = Inr d"
  shows "workers \<noteq> fmempty \<and> wf_dispatcher d \<and> map dw_name (dp_workers d) = sorted_list_of_fset (fmdom workers)
       \<and> dp_candidates d = cands \<and> dp_next d = 0"
proof -
  let ?d0 = "\<lparr>dp_workers = [], dp_byName = fmempty, dp_candidates = cands, dp_next = 0\<rparr> :: 'a Dispatcher"
  from assms have "workers \<noteq> fmempty" "dial_all dial workers (sorted_list_of_fset (fmdom workers)) ?d0 = Inr d"
    by (auto simp: Dispatcher_New_def sort_range_keys split: if_splits)
  with dial_all_Inr [OF this(2)] show ?thesis by (simp add: wf_dispatcher_def sorted_list_of_fset.rep_eq)
qed

text \<open>
  Building a dispatcher gives one worker per configured name, sorted by name, found by that
  name, with the cursor at zero, whatever the order of the map; it fails only for an empty
  configuration or at a worker whose client cannot be made, and then every connection made before
  is closed.
\<close>

lemma Dispatcher_New_spec:
  "case Dispatcher_New ch dial workers cands of
     Inr d \<Rightarrow> workers \<noteq> fmempty \<and> wf_dispatcher d \<and> map dw_name (dp_workers d) = sorted_list_of_fset (fmdom workers)
       \<and> dp_candidates d = cands \<and> dp_next d = 0
   | Inl (msg, closed) \<Rightarrow>
       workers = fmempty \<and> closed = []
       \<or> (\<exists>pre name post e. sorted_list_of_fset (fmdom workers) = pre @ name # post
            \<and> dial (at_or [] workers name) = Inl e \<and> msg = ''dispatch: client for '' @ name @ '': '' @ e
            \<and> closed = map (at_or [] workers) pre)"
proof (cases "Dispatcher_New ch dial workers cands")
  case (Inr d)
  with Dispatcher_New_Inr [OF Inr] show ?thesis by simp
next
  case (Inl x)
  obtain msg closed where x: "x = (msg, closed)" by fastforce
  show ?thesis
  proof (cases "workers = fmempty")
    case True
    then show ?thesis by (simp add: Dispatcher_New_def)
  next
    case False
    let ?d0 = "\<lparr>dp_workers = [], dp_byName = fmempty, dp_candidates = cands, dp_next = 0\<rparr> :: 'a Dispatcher"
    have "dial_all dial workers (sorted_list_of_fset (fmdom workers)) ?d0 = Inl (msg, closed)"
      using Inl x False by (simp add: Dispatcher_New_def sort_range_keys)
    from dial_all_Inl [OF this, of "[]"] show ?thesis unfolding Inl x by simp
  qed
qed

text \<open>
  C17 With the heartbeat registry as candidate provider, the workers asked are exactly those that
  are configured, have a fresh heartbeat and report free capacity, each once, most headroom first.
\<close>

theorem placement_by_headroom:
  assumes "wf_dispatcher d" "dp_candidates d = Some (\<lambda>s. Registry_Available ch now (reg s))" "wf_registry (reg s)"
  shows "set (map dw_name (fst (eligible d s))) =
           {i \<in> set (map dw_name (dp_workers d)). \<exists>w. fmlookup (reg_workers (reg s)) i = Some w
              \<and> time_Sub now (w_LastSeen w) \<le> reg_staleTTL (reg s) \<and> w_Inflight w < w_Capacity w}
       \<and> distinct (map dw_name (fst (eligible d s)))
       \<and> sorted_wrt (\<lambda>i j. headroom (reg s) i \<ge> headroom (reg s) j) (map dw_name (fst (eligible d s)))
       \<and> set (fst (eligible d s)) \<subseteq> set (dp_workers d)"
proof -
  let ?A = "Registry_Available ch now (reg s)"
  have look: "fmlookup (dp_byName d) n = Some w \<Longrightarrow> w \<in> set (dp_workers d) \<and> dw_name w = n" for n w
    using assms(1) by (auto simp: wf_dispatcher_def find_Some_iff)
  have some: "(\<exists>w. fmlookup (dp_byName d) n = Some w) \<longleftrightarrow> n \<in> dw_name ` set (dp_workers d)" for n
    using assms(1) find_None_iff [of "\<lambda>w. dw_name w = n" "dp_workers d"]
    by (cases "fmlookup (dp_byName d) n") (auto simp: wf_dispatcher_def)
  have el: "fst (eligible d s) = List.map_filter (fmlookup (dp_byName d)) ?A" using assms(2) by (simp add: eligible_def)
  have "map dw_name (List.map_filter (fmlookup (dp_byName d)) ns) = filter (\<lambda>n. n \<in> dw_name ` set (dp_workers d)) ns" for ns
  proof (induction ns)
    case (Cons n ns)
    then show ?case using some [of n] look [of n]
      by (cases "fmlookup (dp_byName d) n") (auto simp: map_filter_simps)
  qed (simp add: map_filter_simps)
  then have names: "map dw_name (fst (eligible d s)) = filter (\<lambda>n. n \<in> dw_name ` set (dp_workers d)) ?A"
    using el by simp
  have "set (fst (eligible d s)) \<subseteq> set (dp_workers d)"
    unfolding el set_map_filter using look by auto
  moreover have "sorted_wrt (\<lambda>i j. headroom (reg s) i \<ge> headroom (reg s) j) ?A"
    using Registry_Available_sorted(2) [OF assms(3), of ch now] by (rule sorted_wrt_mono_rel [rotated]) auto
  ultimately show ?thesis
    unfolding names using Registry_Available_sorted(1) [OF assms(3)]
    by (auto simp: Registry_Available_iff [OF assms(3)] eligible_worker_def sorted_wrt_filter)
qed

definition ex_dial :: "string \<Rightarrow> string + (ExecuteJobRequest \<Rightarrow> Registry \<Rightarrow> ExecuteJobResponse rpc \<times> Registry)" where
  "ex_dial a = Inr (\<lambda>req s. (Inr \<lparr>xs_WorkerInstance = a\<rparr>, s))"

theorem placement_by_headroom_witness:
  "\<exists>d. Dispatcher_New (\<lambda>_. []) ex_dial (fmupd ''w2'' ''b'' (fmupd ''w1'' ''a'' fmempty)) (Some (\<lambda>s. Registry_Available (\<lambda>_. []) 100 s)) = Inr d
     \<and> set (map dw_name (fst (eligible d ex_registry))) = {''w1'', ''w2''}
     \<and> distinct (map dw_name (fst (eligible d ex_registry)))"
proof -
  let ?new = "Dispatcher_New (\<lambda>_. []) ex_dial (fmupd ''w2'' ''b'' (fmupd ''w1'' ''a'' fmempty)) (Some (\<lambda>s. Registry_Available (\<lambda>_. []) 100 s))"
  have "\<not> isl ?new" by code_simp
  then obtain d where d: "?new = Inr d" by (cases ?new) auto
  let ?names = "map dw_name (fst (eligible (projr ?new) ex_registry))"
  have n: "?names = [''w1'', ''w2'']" by code_simp
  from Dispatcher_New_Inr [OF d] have "wf_dispatcher d" "dp_candidates d = Some (\<lambda>s. Registry_Available (\<lambda>_. []) 100 s)" by simp_all
  from placement_by_headroom [OF this wf_ex_registry] have "distinct (map dw_name (fst (eligible d ex_registry)))" by blast
  moreover have "map dw_name (fst (eligible d ex_registry)) = [''w1'', ''w2'']" using n d by simp
  ultimately have "set (map dw_name (fst (eligible d ex_registry))) = {''w1'', ''w2''}"
      "distinct (map dw_name (fst (eligible d ex_registry)))" by (simp_all del: set_map)
  with d show ?thesis by blast
qed

end
