(* ===== verification/Relay.thy ===== *)
theory Relay
  imports Store
begin

section \<open>The outbox relay (internal/outbox)\<close>

text \<open>
  \<open>src/internal/outbox/relay.go\<close>.  The four interfaces that the relay is built from (store,
  dispatcher, leadership, placement log) are the fields of a record of functions on a state \<open>'w\<close>
  of the rest of the system, one field per interface method.  The wake channel has one slot: it is
  a boolean.  \<open>Relay_Run\<close> is the loop of \<open>Run\<close>, driven by the list of events that \<open>select\<close> picks.

  The locale \<open>relay_laws\<close> states what the relay needs of a healthy store: each call does what its
  name says to the table of commands, and the other calls leave that table alone.  From this the
  relay's retry budget follows: every command is resolved after finitely many sweeps.  The locale
  is interpreted on the wiring of the scheduler in the theory \<open>Scheduler\<close>.
\<close>

definition drainBatch :: int where "drainBatch = 50"
definition maxDispatchAttempts :: int where "maxDispatchAttempts = 30"
definition maxExecutionAttempts :: int where "maxExecutionAttempts = 3"

record 'w relay_deps =
  rd_ClaimOutbox :: "int \<Rightarrow> 'w \<Rightarrow> OutboxEntry list stored \<times> 'w"
  rd_MarkOutboxDispatched :: "string \<Rightarrow> 'w \<Rightarrow> unit stored \<times> 'w"
  rd_RecordOutboxFailure :: "string \<Rightarrow> string \<Rightarrow> 'w \<Rightarrow> unit stored \<times> 'w"
  rd_MarkOutboxFailed :: "string \<Rightarrow> string \<Rightarrow> 'w \<Rightarrow> unit stored \<times> 'w"
  rd_MarkFinished :: "string \<Rightarrow> bool \<Rightarrow> string \<Rightarrow> 'w \<Rightarrow> unit stored \<times> 'w"
  rd_Dispatch :: "Job \<Rightarrow> 'w \<Rightarrow> (string + string) \<times> 'w"
  rd_IsLeader :: "'w \<Rightarrow> bool \<times> 'w"
  rd_ApplyPlacement :: "string \<Rightarrow> string \<Rightarrow> 'w \<Rightarrow> (string + unit) \<times> 'w"

definition abandon :: "'w relay_deps \<Rightarrow> OutboxEntry \<Rightarrow> string \<Rightarrow> 'w \<Rightarrow> 'w" where
  "abandon r e reason w =
     (let (_, w1) = rd_MarkOutboxFailed r (oe_ID e) reason w;
          (_, w2) = rd_MarkFinished r (j_ID (oe_Job e)) False reason w1
      in w2)"

definition handle :: "'w relay_deps \<Rightarrow> OutboxEntry \<Rightarrow> 'w \<Rightarrow> 'w" where
  "handle r e w =
     (if j_Status (oe_Job e) \<noteq> StatusPending then snd (rd_MarkOutboxDispatched r (oe_ID e) w)
      else if j_Attempts (oe_Job e) \<ge> maxExecutionAttempts then
        abandon r e (''gave up after '' @ show_int (j_Attempts (oe_Job e)) @ '' execution attempts'') w
      else if oe_Attempts e \<ge> maxDispatchAttempts then
        abandon r e (''undispatchable after '' @ show_int (oe_Attempts e) @ '' attempts'') w
      else
        (case rd_Dispatch r (oe_Job e) w of
           (Inl err, w1) \<Rightarrow> snd (rd_RecordOutboxFailure r (oe_ID e) err w1)
         | (Inr worker, w1) \<Rightarrow>
             (let (_, w2) = rd_MarkOutboxDispatched r (oe_ID e) w1;
                  (_, w3) = rd_ApplyPlacement r (j_ID (oe_Job e)) worker w2
              in w3)))"

definition drain :: "'w relay_deps \<Rightarrow> 'w \<Rightarrow> 'w" where
  "drain r w =
     (case rd_ClaimOutbox r drainBatch w of
        (Inl err, w1) \<Rightarrow> w1
      | (Inr entries, w1) \<Rightarrow> fold (handle r) entries w1)"

text \<open>A send to the one-slot channel that does not block: the slot is full afterwards.\<close>

definition Relay_Wake :: "bool \<Rightarrow> bool" where
  "Relay_Wake wake = True"

text \<open>
  What \<open>Run\<close> waits for, and the wake calls of the producers.  A receive is only possible when the
  slot is full.
\<close>

datatype relay_event = CtxDone | Ticker | WakeReceived | WakeCalled

definition sweep_if_leader :: "'w relay_deps \<Rightarrow> 'w \<Rightarrow> 'w" where
  "sweep_if_leader r w = (case rd_IsLeader r w of (lead, w1) \<Rightarrow> if lead then drain r w1 else w1)"

fun Relay_Run :: "'w relay_deps \<Rightarrow> relay_event list \<Rightarrow> bool \<times> 'w \<Rightarrow> bool \<times> 'w" where
  "Relay_Run r [] st = st"
| "Relay_Run r (CtxDone # evs) st = st"
| "Relay_Run r (Ticker # evs) (wake, w) = Relay_Run r evs (wake, sweep_if_leader r w)"
| "Relay_Run r (WakeReceived # evs) (wake, w) =
     (if wake then Relay_Run r evs (False, sweep_if_leader r w) else Relay_Run r evs (wake, w))"
| "Relay_Run r (WakeCalled # evs) (wake, w) = Relay_Run r evs (Relay_Wake wake, w)"

subsection \<open>What the relay needs, and what follows\<close>

text \<open>
  The table of commands as the relay sees it: a status and a number of dispatch attempts for each
  command id.
\<close>

type_synonym command_table = "string \<Rightarrow> (string \<times> int) option"

definition pending_in :: "command_table \<Rightarrow> string set" where
  "pending_in t = {c. \<exists>a. t c = Some (OutboxPending, a)}"

definition budget :: "int \<Rightarrow> nat" where
  "budget a = (if a \<le> 30 then nat (31 - a) else 1)"

definition potential :: "command_table \<Rightarrow> nat" where
  "potential t = (\<Sum>c \<in> pending_in t. budget (snd (the (t c))))"

locale relay_laws =
  fixes r :: "'w relay_deps" and tbl :: "'w \<Rightarrow> command_table" and healthy :: "'w \<Rightarrow> bool"
  assumes finite_tbl: "healthy w \<Longrightarrow> finite (dom (tbl w))"
    and attempts_nonneg: "healthy w \<Longrightarrow> tbl w c = Some (s, a) \<Longrightarrow> 0 \<le> a"
    and claim: "healthy w \<Longrightarrow> 0 \<le> n \<Longrightarrow> \<exists>es w'. rd_ClaimOutbox r n w = (Inr es, w') \<and> healthy w' \<and> tbl w' = tbl w
        \<and> distinct (map oe_ID es) \<and> (\<forall>e \<in> set es. tbl w (oe_ID e) = Some (OutboxPending, oe_Attempts e))
        \<and> length es = min (nat n) (card (pending_in (tbl w)))"
    and mark_dispatched: "healthy w \<Longrightarrow> tbl w c = Some (s, a) \<Longrightarrow> rd_MarkOutboxDispatched r c w = (x, w') \<Longrightarrow>
        healthy w' \<and> tbl w' = (tbl w)(c \<mapsto> (OutboxDispatched, a))"
    and record_failure: "healthy w \<Longrightarrow> tbl w c = Some (s, a) \<Longrightarrow> a < 30 \<Longrightarrow> rd_RecordOutboxFailure r c e w = (x, w') \<Longrightarrow>
        healthy w' \<and> tbl w' = (tbl w)(c \<mapsto> (s, a + 1))"
    and mark_failed: "healthy w \<Longrightarrow> tbl w c = Some (s, a) \<Longrightarrow> rd_MarkOutboxFailed r c e w = (x, w') \<Longrightarrow>
        healthy w' \<and> tbl w' = (tbl w)(c \<mapsto> (OutboxFailed, a))"
    and finished: "healthy w \<Longrightarrow> rd_MarkFinished r j ok e w = (x, w') \<Longrightarrow> healthy w' \<and> tbl w' = tbl w"
    and dispatch: "healthy w \<Longrightarrow> rd_Dispatch r job w = (y, w') \<Longrightarrow> healthy w' \<and> tbl w' = tbl w"
    and placed: "healthy w \<Longrightarrow> rd_ApplyPlacement r j i w = (z, w') \<Longrightarrow> healthy w' \<and> tbl w' = tbl w"
begin

text \<open>What one command becomes: closed, given up, or pending with one more attempt below the budget.\<close>

definition resolved :: "int \<Rightarrow> string \<times> int \<Rightarrow> bool" where
  "resolved a y \<longleftrightarrow> y = (OutboxDispatched, a) \<or> y = (OutboxFailed, a) \<or> y = (OutboxPending, a + 1) \<and> a < 30"

lemma abandon_tbl:
  assumes "healthy w" "tbl w (oe_ID e) = Some (s, a)"
  shows "healthy (abandon r e m w) \<and> tbl (abandon r e m w) = (tbl w)(oe_ID e \<mapsto> (OutboxFailed, a))"
proof -
  obtain x w1 where 1: "rd_MarkOutboxFailed r (oe_ID e) m w = (x, w1)" by fastforce
  obtain y w2 where 2: "rd_MarkFinished r (j_ID (oe_Job e)) False m w1 = (y, w2)" by fastforce
  from mark_failed [OF assms 1] have h: "healthy w1" "tbl w1 = (tbl w)(oe_ID e \<mapsto> (OutboxFailed, a))" by simp_all
  from finished [OF h(1) 2] h(2) 1 2 show ?thesis by (simp add: abandon_def)
qed

lemma handle_tbl:
  assumes "healthy w" "tbl w (oe_ID e) = Some (OutboxPending, oe_Attempts e)"
  shows "healthy (handle r e w)
       \<and> (\<exists>y. tbl (handle r e w) = (tbl w)(oe_ID e \<mapsto> y) \<and> resolved (oe_Attempts e) y)"
proof -
  consider (moved) "j_Status (oe_Job e) \<noteq> StatusPending"
    | (given_up) "j_Status (oe_Job e) = StatusPending" "j_Attempts (oe_Job e) \<ge> maxExecutionAttempts \<or> oe_Attempts e \<ge> maxDispatchAttempts"
    | (offer) "j_Status (oe_Job e) = StatusPending" "\<not> j_Attempts (oe_Job e) \<ge> maxExecutionAttempts"
        "\<not> oe_Attempts e \<ge> maxDispatchAttempts"
    by blast
  then show ?thesis
  proof cases
    case moved
    obtain x w1 where "rd_MarkOutboxDispatched r (oe_ID e) w = (x, w1)" by fastforce
    with mark_dispatched [OF assms this] moved show ?thesis by (auto simp: handle_def resolved_def)
  next
    case given_up
    then obtain m where "handle r e w = abandon r e m w"
      by (cases "j_Attempts (oe_Job e) \<ge> maxExecutionAttempts") (auto simp: handle_def)
    with abandon_tbl [OF assms, of m] show ?thesis by (auto simp: resolved_def)
  next
    case offer
    then have lt: "oe_Attempts e < 30" by (simp add: maxDispatchAttempts_def)
    obtain res w1 where d: "rd_Dispatch r (oe_Job e) w = (res, w1)" by fastforce
    from dispatch [OF assms(1) d] have h1: "healthy w1" "tbl w1 (oe_ID e) = Some (OutboxPending, oe_Attempts e)" "tbl w1 = tbl w"
      using assms(2) by simp_all
    show ?thesis
    proof (cases res)
      case (Inl err)
      obtain x w2 where "rd_RecordOutboxFailure r (oe_ID e) err w1 = (x, w2)" by fastforce
      with record_failure [OF h1(1,2) lt this] h1(3) offer d Inl lt show ?thesis by (auto simp: handle_def resolved_def)
    next
      case (Inr i)
      obtain x w2 where m: "rd_MarkOutboxDispatched r (oe_ID e) w1 = (x, w2)" by fastforce
      obtain z w3 where p: "rd_ApplyPlacement r (j_ID (oe_Job e)) i w2 = (z, w3)" by fastforce
      from mark_dispatched [OF h1(1,2) m] have h2: "healthy w2" "tbl w2 = (tbl w)(oe_ID e \<mapsto> (OutboxDispatched, oe_Attempts e))"
        using h1(3) by simp_all
      from placed [OF h2(1) p] h2(2) offer d Inr m p show ?thesis by (auto simp: handle_def resolved_def)
    qed
  qed
qed

lemma handles_tbl:
  assumes "healthy w" "distinct (map oe_ID es)" "\<forall>e \<in> set es. tbl w (oe_ID e) = Some (OutboxPending, oe_Attempts e)"
  shows "healthy (fold (handle r) es w)
       \<and> (\<forall>e \<in> set es. \<exists>y. tbl (fold (handle r) es w) (oe_ID e) = Some y \<and> resolved (oe_Attempts e) y)
       \<and> (\<forall>c. c \<notin> oe_ID ` set es \<longrightarrow> tbl (fold (handle r) es w) c = tbl w c)"
  using assms
proof (induction es arbitrary: w)
  case Nil
  then show ?case by simp
next
  case (Cons e es)
  obtain y where y: "tbl (handle r e w) = (tbl w)(oe_ID e \<mapsto> y)" "resolved (oe_Attempts e) y" "healthy (handle r e w)"
    using handle_tbl [of w e] Cons.prems by auto
  have "\<forall>e' \<in> set es. tbl (handle r e w) (oe_ID e') = Some (OutboxPending, oe_Attempts e')"
    using Cons.prems(2,3) y(1) by (auto simp: image_iff)
  with Cons.IH [OF y(3)] Cons.prems(2) have IH:
      "healthy (fold (handle r) es (handle r e w))"
      "\<forall>e' \<in> set es. \<exists>y. tbl (fold (handle r) es (handle r e w)) (oe_ID e') = Some y \<and> resolved (oe_Attempts e') y"
      "\<forall>c. c \<notin> oe_ID ` set es \<longrightarrow> tbl (fold (handle r) es (handle r e w)) c = tbl (handle r e w) c"
    by simp_all
  moreover have "tbl (fold (handle r) es (handle r e w)) (oe_ID e) = Some y"
    using IH(3) y(1) Cons.prems(2) by auto
  ultimately show ?case using y by (cases y) auto
qed

text \<open>One sweep: some pending commands, all of them when they fit in the batch, are resolved.\<close>

lemma drain_tbl:
  assumes "healthy w"
  shows "healthy (drain r w) \<and> (\<exists>C \<subseteq> pending_in (tbl w). card C = min 50 (card (pending_in (tbl w)))
     \<and> (\<forall>c \<in> C. \<exists>a y. tbl w c = Some (OutboxPending, a) \<and> tbl (drain r w) c = Some y \<and> resolved a y)
     \<and> (\<forall>c. c \<notin> C \<longrightarrow> tbl (drain r w) c = tbl w c))"
proof -
  from claim [OF assms, of drainBatch] obtain es w1 where c: "rd_ClaimOutbox r drainBatch w = (Inr es, w1)" "healthy w1"
      "tbl w1 = tbl w" "distinct (map oe_ID es)" "\<forall>e \<in> set es. tbl w (oe_ID e) = Some (OutboxPending, oe_Attempts e)"
      "length es = min 50 (card (pending_in (tbl w)))"
    by (auto simp: drainBatch_def)
  have d: "drain r w = fold (handle r) es w1" using c(1) by (simp add: drain_def)
  note h = handles_tbl [OF c(2,4), unfolded c(3), OF c(5)]
  have "oe_ID ` set es \<subseteq> pending_in (tbl w)" using c(5) by (auto simp: pending_in_def)
  moreover have "card (oe_ID ` set es) = min 50 (card (pending_in (tbl w)))"
    using c(4,6) by (metis distinct_card length_map set_map)
  moreover have "\<forall>i \<in> oe_ID ` set es. \<exists>a y. tbl w i = Some (OutboxPending, a) \<and> tbl (drain r w) i = Some y \<and> resolved a y"
    using h c(5) d by fastforce
  ultimately show ?thesis using h d c(3) by (intro conjI exI [of _ "oe_ID ` set es"]) auto
qed

lemma finite_pending: "healthy w \<Longrightarrow> finite (pending_in (tbl w))"
  by (rule finite_subset [OF _ finite_tbl]) (auto simp: pending_in_def)

lemma resolved_budget:
  assumes "resolved a (s, b)" "0 \<le> a"
  shows "s = OutboxPending \<Longrightarrow> budget b < budget a" "0 < budget a"
  using assms by (auto simp: resolved_def budget_def status_defs)

lemma pending_after_drain: "healthy w \<Longrightarrow> pending_in (tbl (drain r w)) \<subseteq> pending_in (tbl w)"
proof
  fix c
  assume h: "healthy w" and c: "c \<in> pending_in (tbl (drain r w))"
  from drain_tbl [OF h] obtain C where "C \<subseteq> pending_in (tbl w)" "\<forall>c. c \<notin> C \<longrightarrow> tbl (drain r w) c = tbl w c" by blast
  then show "c \<in> pending_in (tbl w)" using c by (cases "c \<in> C") (auto simp: pending_in_def)
qed

text \<open>Every sweep with something pending uses up part of the budget.\<close>

lemma drain_potential:
  assumes "healthy w" "pending_in (tbl w) \<noteq> {}"
  shows "potential (tbl (drain r w)) < potential (tbl w)"
proof -
  let ?t = "tbl w" and ?u = "tbl (drain r w)"
  let ?b = "\<lambda>t c. budget (snd (the (t c)))"
  from drain_tbl [OF assms(1)] obtain C where C: "C \<subseteq> pending_in ?t" "card C = min 50 (card (pending_in ?t))"
      "\<forall>c \<in> C. \<exists>a y. ?t c = Some (OutboxPending, a) \<and> ?u c = Some y \<and> resolved a y"
      "\<forall>c. c \<notin> C \<longrightarrow> ?u c = ?t c" by blast
  have fin: "finite (pending_in ?t)" by (rule finite_pending [OF assms(1)])
  have le: "?b ?u c < ?b ?t c" if "c \<in> C" "c \<in> pending_in ?u" for c
    using C(3) that resolved_budget(1) attempts_nonneg [OF assms(1)] by (fastforce simp: pending_in_def)
  have pos: "0 < ?b ?t c" if "c \<in> C" for c
    using C(3) that resolved_budget(2) attempts_nonneg [OF assms(1)] by fastforce
  have sub: "pending_in ?u \<subseteq> pending_in ?t" by (rule pending_after_drain [OF assms(1)])
  have "potential ?u \<le> (\<Sum>c \<in> pending_in ?t. if c \<in> pending_in ?u then ?b ?u c else 0)"
    unfolding potential_def using fin sub by (simp add: sum.If_cases inf_absorb2)
  also have "\<dots> < (\<Sum>c \<in> pending_in ?t. ?b ?t c)"
  proof (rule sum_strict_mono_ex1 [OF fin])
    show "\<forall>c \<in> pending_in ?t. (if c \<in> pending_in ?u then ?b ?u c else 0) \<le> ?b ?t c"
      using le C(4) by (auto simp: less_imp_le) (metis le nat_less_le order_refl)
    have "0 < card (pending_in ?t)" using assms(2) fin by (simp add: card_gt_0_iff)
    then have "C \<noteq> {}" using C(2) by auto
    then obtain c where "c \<in> C" by blast
    then show "\<exists>c \<in> pending_in ?t. (if c \<in> pending_in ?u then ?b ?u c else 0) < ?b ?t c"
      using C(1) le pos by (intro bexI [of _ c]) auto
  qed
  finally show ?thesis by (simp add: potential_def)
qed

lemma drains_healthy: "healthy w \<Longrightarrow> healthy ((drain r ^^ n) w)"
  by (induction n) (simp_all add: drain_tbl)

lemma drains_empty: "healthy w \<Longrightarrow> \<exists>n \<le> potential (tbl w). pending_in (tbl ((drain r ^^ n) w)) = {}"
proof (induction "potential (tbl w)" arbitrary: w rule: less_induct)
  case less
  show ?case
  proof (cases "pending_in (tbl w) = {}")
    case True
    then show ?thesis by (intro exI [of _ 0]) simp
  next
    case False
    have "healthy (drain r w)" using drain_tbl [OF less.prems] by blast
    with less.hyps [OF drain_potential [OF less.prems False]] obtain n where
      n: "n \<le> potential (tbl (drain r w))" "pending_in (tbl ((drain r ^^ n) (drain r w))) = {}" by blast
    then have "pending_in (tbl ((drain r ^^ Suc n) w)) = {}" by (simp add: funpow_swap1)
    moreover have "Suc n \<le> potential (tbl w)" using n(1) drain_potential [OF less.prems False] by simp
    ultimately show ?thesis by blast
  qed
qed

lemma potential_bound: "healthy w \<Longrightarrow> potential (tbl w) \<le> 31 * card (pending_in (tbl w))"
proof -
  assume h: "healthy w"
  have "budget (snd (the (tbl w c))) \<le> 31" if "c \<in> pending_in (tbl w)" for c
    using that attempts_nonneg [OF h, of c OutboxPending] by (force simp: pending_in_def budget_def)
  then have "potential (tbl w) \<le> (\<Sum>c \<in> pending_in (tbl w). 31)"
    unfolding potential_def by (intro sum_mono) auto
  then show ?thesis by simp
qed

text \<open>When all pending commands fit in one batch, a command still pending after \<open>n\<close> sweeps has \<open>n\<close> more attempts.\<close>

lemma drains_attempts:
  assumes "healthy w" "card (pending_in (tbl w)) \<le> 50"
  shows "tbl ((drain r ^^ n) w) c = Some (OutboxPending, a) \<Longrightarrow>
     \<exists>a0. tbl w c = Some (OutboxPending, a0) \<and> a = a0 + int n \<and> (0 < n \<longrightarrow> a \<le> 30)"
proof (induction n arbitrary: a c)
  case 0
  then show ?case by simp
next
  case (Suc n)
  let ?v = "(drain r ^^ n) w"
  have h: "healthy ?v" by (rule drains_healthy [OF assms(1)])
  have sub: "pending_in (tbl ?v) \<subseteq> pending_in (tbl w)"
    unfolding pending_in_def using Suc.IH by blast
  from drain_tbl [OF h] obtain C where C: "C \<subseteq> pending_in (tbl ?v)" "card C = min 50 (card (pending_in (tbl ?v)))"
      "\<forall>c \<in> C. \<exists>a y. tbl ?v c = Some (OutboxPending, a) \<and> tbl (drain r ?v) c = Some y \<and> resolved a y"
      "\<forall>c. c \<notin> C \<longrightarrow> tbl (drain r ?v) c = tbl ?v c" by blast
  have "card (pending_in (tbl ?v)) \<le> 50"
    using card_mono [OF finite_pending [OF assms(1)] sub] assms(2) by simp
  with C(1,2) have "C = pending_in (tbl ?v)" using finite_pending [OF h] by (intro card_subset_eq) simp_all
  moreover have now: "tbl (drain r ?v) c = Some (OutboxPending, a)" using Suc.prems by simp
  moreover have "c \<in> pending_in (tbl ?v)"
    using pending_after_drain [OF h] now by (auto simp: pending_in_def)
  ultimately obtain a1 where "tbl ?v c = Some (OutboxPending, a1)" "resolved a1 (OutboxPending, a)"
    using C(3) by fastforce
  with Suc.IH [of c a1] show ?case by (auto simp: resolved_def status_defs)
qed

lemma drains_31: "healthy w \<Longrightarrow> card (pending_in (tbl w)) \<le> 50 \<Longrightarrow> pending_in (tbl ((drain r ^^ 31) w)) = {}"
  using drains_attempts [of w 31] attempts_nonneg [of w] by (fastforce simp: pending_in_def)

end

text \<open>A wake call is not lost: until a receive (or the end) the slot stays full.\<close>

lemma wake_kept:
  "WakeReceived \<notin> set evs \<Longrightarrow> CtxDone \<notin> set evs \<Longrightarrow> wake \<or> WakeCalled \<in> set evs \<Longrightarrow> fst (Relay_Run r evs (wake, w))"
proof (induction evs arbitrary: wake w)
  case (Cons ev evs)
  then show ?case by (cases ev) (auto simp: Relay_Wake_def)
qed simp

end
