(* ===== verification/Reaper.thy ===== *)
theory Reaper
  imports Store
begin

section \<open>The crash reaper (internal/reaper)\<close>

text \<open>
  \<open>src/internal/reaper/reaper.go\<close>.  As in the relay, the interfaces are the fields of a record of
  functions on a state \<open>'w\<close>.  The locale \<open>reaper_laws\<close> states what the sweep needs: a successful
  reclaim takes back exactly the jobs in flight on that worker and leaves every other job as it is, a
  failed one changes nothing or took effect with a lost answer, and forgetting strikes one worker from the
  table and does nothing else.  It is interpreted on the store and the registry in the theory \<open>Scheduler\<close>.
\<close>

record 'w reaper_deps =
  rp_ReclaimJobs :: "string \<Rightarrow> 'w \<Rightarrow> Job list stored \<times> 'w"
  rp_Dead :: "'w \<Rightarrow> string list"
  rp_Forget :: "string \<Rightarrow> 'w \<Rightarrow> 'w"
  rp_IsLeader :: "'w \<Rightarrow> bool \<times> 'w"
  rp_Wake :: "'w \<Rightarrow> 'w"

fun sweep_loop :: "'w reaper_deps \<Rightarrow> string list \<Rightarrow> bool \<Rightarrow> 'w \<Rightarrow> bool \<times> 'w" where
  "sweep_loop r [] reenqueued w = (reenqueued, w)"
| "sweep_loop r (x # xs) reenqueued w =
     (case rp_ReclaimJobs r x w of
        (Inl err, w1) \<Rightarrow> sweep_loop r xs reenqueued w1
      | (Inr js, w1) \<Rightarrow>
          (let w2 = rp_Forget r x w1
           in if length js = 0 then sweep_loop r xs reenqueued w2 else sweep_loop r xs True w2))"

definition sweep :: "'w reaper_deps \<Rightarrow> 'w \<Rightarrow> 'w" where
  "sweep r w =
     (case sweep_loop r (rp_Dead r w) False w of
        (reenqueued, w1) \<Rightarrow> if reenqueued then rp_Wake r w1 else w1)"

datatype reaper_event = ReaperDone | ReaperTick

fun Reaper_Run :: "'w reaper_deps \<Rightarrow> reaper_event list \<Rightarrow> 'w \<Rightarrow> 'w" where
  "Reaper_Run r [] w = w"
| "Reaper_Run r (ReaperDone # evs) w = w"
| "Reaper_Run r (ReaperTick # evs) w =
     (case rp_IsLeader r w of
        (lead, w1) \<Rightarrow> if \<not> lead then Reaper_Run r evs w1 else Reaper_Run r evs (sweep r w1))"

text \<open>The answers of the reclaims of one sweep: the ids taken back, or nothing on an error.\<close>

fun outcomes :: "'w reaper_deps \<Rightarrow> string list \<Rightarrow> 'w \<Rightarrow> (string \<times> string list option) list" where
  "outcomes r [] w = []"
| "outcomes r (x # xs) w =
     (case rp_ReclaimJobs r x w of
        (Inl err, w1) \<Rightarrow> (x, None) # outcomes r xs w1
      | (Inr js, w1) \<Rightarrow> (x, Some (map j_ID js)) # outcomes r xs (rp_Forget r x w1))"

definition reclaimed_workers :: "(string \<times> string list option) list \<Rightarrow> string list" where
  "reclaimed_workers os = map fst (filter (\<lambda>(x, a). a \<noteq> None) os)"

lemma reclaimed_workers_simps [simp]:
  "reclaimed_workers ((x, None) # os) = reclaimed_workers os"
  "reclaimed_workers ((x, Some js) # os) = x # reclaimed_workers os" "reclaimed_workers [] = []"
  by (simp_all add: reclaimed_workers_def)

lemma set_reclaimed_workers: "set (reclaimed_workers os) = {x. \<exists>js. (x, Some js) \<in> set os}"
  by (force simp: reclaimed_workers_def image_iff)

lemma map_fst_outcomes: "map fst (outcomes r xs w) = xs"
  by (induction r xs w rule: outcomes.induct) (auto split: prod.splits sum.splits)

lemma set_fst_outcomes: "(x, y) \<in> set (outcomes r xs w) \<Longrightarrow> x \<in> set xs"
  by (metis fst_conv image_eqI map_fst_outcomes set_map)

lemma sweep_loop_flag:
  "fst (sweep_loop r xs b w) \<longleftrightarrow> b \<or> (\<exists>x js. (x, Some js) \<in> set (outcomes r xs w) \<and> js \<noteq> [])"
  by (induction r xs b w rule: sweep_loop.induct) (auto simp: Let_def split: prod.splits sum.splits)

locale reaper_laws =
  fixes r :: "'w reaper_deps" and ok :: "'w \<Rightarrow> bool"
    and table :: "'w \<Rightarrow> 'r" and strike :: "string \<Rightarrow> 'r \<Rightarrow> 'r"
    and held :: "'w \<Rightarrow> string \<Rightarrow> 'j set" and free :: "'w \<Rightarrow> 'j set" and name :: "'j \<Rightarrow> string"
    and woken :: "'w \<Rightarrow> bool"
  assumes distinct_dead: "ok w \<Longrightarrow> distinct (rp_Dead r w)"
    and reclaim_frame: "ok w \<Longrightarrow> rp_ReclaimJobs r x w = (res, w') \<Longrightarrow>
        ok w' \<and> table w' = table w \<and> woken w' = woken w \<and> free w \<subseteq> free w' \<and> (\<forall>y. y \<noteq> x \<longrightarrow> held w' y = held w y)"
    and reclaim_done: "ok w \<Longrightarrow> rp_ReclaimJobs r x w = (Inr js, w') \<Longrightarrow> j_ID ` set js = name ` held w x \<and> held w' x = {}"
    and reclaim_error: "ok w \<Longrightarrow> rp_ReclaimJobs r x w = (Inl e, w') \<Longrightarrow> held w' x = held w x \<or> held w' x = {}"
    and forget: "ok w \<Longrightarrow> ok (rp_Forget r x w) \<and> table (rp_Forget r x w) = strike x (table w)
        \<and> held (rp_Forget r x w) = held w \<and> free (rp_Forget r x w) = free w \<and> woken (rp_Forget r x w) = woken w"
    and wake: "ok w \<Longrightarrow> ok (rp_Wake r w) \<and> table (rp_Wake r w) = table w \<and> held (rp_Wake r w) = held w
        \<and> free (rp_Wake r w) = free w \<and> woken (rp_Wake r w)"
begin

text \<open>The loop: which workers are struck from the table (their reclaim succeeded), and what became of the jobs.\<close>

lemma sweep_loop_spec:
  assumes "ok w" "distinct xs" "sweep_loop r xs b w = (b', w')"
  shows "ok w' \<and> woken w' = woken w \<and> table w' = fold strike (reclaimed_workers (outcomes r xs w)) (table w)
       \<and> free w \<subseteq> free w' \<and> (\<forall>x. x \<notin> set xs \<longrightarrow> held w' x = held w x)
       \<and> (\<forall>x js. (x, Some js) \<in> set (outcomes r xs w) \<longrightarrow> set js = name ` held w x \<and> held w' x = {})
       \<and> (\<forall>x. (x, None) \<in> set (outcomes r xs w) \<longrightarrow> held w' x = held w x \<or> held w' x = {})"
  using assms
proof (induction xs arbitrary: b w)
  case Nil
  then show ?case by simp
next
  case (Cons x xs)
  obtain res w1 where rec: "rp_ReclaimJobs r x w = (res, w1)" by fastforce
  note fr = reclaim_frame [OF Cons.prems(1) rec]
  have x: "(x, y) \<notin> set (outcomes r xs v)" for y v using set_fst_outcomes [of x y r xs v] Cons.prems(2) by auto
  have other: "held w1 y = held w y" if "(y, z) \<in> set (outcomes r xs v)" for y z v
    using that x fr by metis
  show ?case
  proof (cases res)
    case (Inl e)
    have h: "held w1 x = held w x \<or> held w1 x = {}" using reclaim_error Cons.prems(1) rec Inl by blast
    from Cons.prems(3) rec Inl have l: "sweep_loop r xs b w1 = (b', w')" by simp
    have "ok w1" "distinct xs" using fr Cons.prems(2) by simp_all
    note IH = Cons.IH [OF this l]
    have "held w' x = held w1 x" using IH Cons.prems(2) by simp
    then show ?thesis using IH fr h other x rec Inl by auto
  next
    case (Inr js)
    note dn = reclaim_done [OF Cons.prems(1) rec [unfolded Inr]]
    let ?w2 = "rp_Forget r x w1"
    have fo: "ok ?w2" "table ?w2 = strike x (table w)" "held ?w2 = held w1" "free ?w2 = free w1" "woken ?w2 = woken w"
      using forget [of w1 x] fr by simp_all
    from Cons.prems(3) rec Inr have l: "sweep_loop r xs (b \<or> js \<noteq> []) ?w2 = (b', w')"
      by (cases "js = []"; cases b) (simp_all add: Let_def)
    have "distinct xs" using Cons.prems(2) by simp
    note IH = Cons.IH [OF fo(1) this l]
    have "held w' x = {}" using IH Cons.prems(2) fo(3) dn by simp
    then show ?thesis using IH fr dn other x rec Inr fo by auto
  qed
qed

text \<open>
  A sweep: the workers whose reclaim succeeded, and only they, are struck from the table, and hold no
  job; the others keep their record for the next sweep; workers that were not dead keep their jobs as
  they are, and jobs that nobody held stay as they are; the relay is woken when a job came back.
\<close>

lemma sweep_spec:
  assumes "ok w"
  defines "os \<equiv> outcomes r (rp_Dead r w) w"
  shows "map fst os = rp_Dead r w \<and> table (sweep r w) = fold strike (reclaimed_workers os) (table w)
       \<and> free w \<subseteq> free (sweep r w) \<and> (\<forall>x. x \<notin> set (rp_Dead r w) \<longrightarrow> held (sweep r w) x = held w x)
       \<and> (\<forall>x js. (x, Some js) \<in> set os \<longrightarrow> set js = name ` held w x \<and> held (sweep r w) x = {})
       \<and> (\<forall>x. (x, None) \<in> set os \<longrightarrow> held (sweep r w) x = held w x \<or> held (sweep r w) x = {})
       \<and> (woken (sweep r w) \<longleftrightarrow> woken w \<or> (\<exists>x js. (x, Some js) \<in> set os \<and> js \<noteq> []))"
proof -
  obtain b w1 where l: "sweep_loop r (rp_Dead r w) False w = (b, w1)" by fastforce
  note sp = sweep_loop_spec [OF assms(1) distinct_dead [OF assms(1)] l]
  have b: "b \<longleftrightarrow> (\<exists>x js. (x, Some js) \<in> set os \<and> js \<noteq> [])"
    using sweep_loop_flag [of r "rp_Dead r w" False w] l by (simp add: os_def)
  have eq: "sweep r w = (if b then rp_Wake r w1 else w1)" using l by (simp add: sweep_def)
  have "table (sweep r w) = table w1" "held (sweep r w) = held w1" "free (sweep r w) = free w1"
      "woken (sweep r w) \<longleftrightarrow> woken w1 \<or> b"
    using wake [of w1] sp eq by auto
  then show ?thesis using sp map_fst_outcomes [of r "rp_Dead r w" w] unfolding b by (simp add: os_def)
qed

end

end
