(* ===== verification/Scheduler.thy ===== *)
theory Scheduler
  imports Dispatch Relay Reaper
begin

section \<open>The scheduler process (cmd/scheduler)\<close>

text \<open>
  How \<open>src/cmd/scheduler/main.go\<close> wires the store, the registry, the dispatcher, the relay and the
  reaper, and the laws of the relay and the reaper discharged for that wiring.

  The state \<open>world\<close> holds the database, this scheduler's registry, the wake slot, the worker
  servers by address, the goroutines they started and the committed placements.  What the outside
  contributes is a sequence of environments, one per call, consumed in order: how a store call ends
  (\<open>pg\<close>), how an RPC ends, the clock, what raft answers.  Theorems hold for every sequence.
\<close>

definition workerStaleTTL :: int where "workerStaleTTL = 5 * 1000000000"
definition workerDeadTTL :: int where "workerDeadTTL = 8 * 1000000000"

record env =
  en_pg :: pg
  en_rpc :: trip
  en_now :: int
  en_leader :: bool
  en_raft :: "string option"
  en_order :: choice

record world =
  wd_db :: db
  wd_reg :: Registry
  wd_wake :: bool
  wd_servers :: "string \<Rightarrow> WorkerServer option"
  wd_tasks :: "(string \<times> string \<times> string) list"
  wd_placed :: "(string \<times> string) list"
  wd_env :: "nat \<Rightarrow> env"
  wd_tick :: nat

definition env_of :: "world \<Rightarrow> env" where
  "env_of w = wd_env w (wd_tick w)"

definition ticked :: "world \<Rightarrow> world" where
  "ticked w = w\<lparr>wd_tick := Suc (wd_tick w)\<rparr>"

text \<open>One store call.\<close>

definition on_store :: "(pg \<Rightarrow> db \<Rightarrow> 'a \<times> db) \<Rightarrow> world \<Rightarrow> 'a \<times> world" where
  "on_store f w = (case f (en_pg (env_of w)) (wd_db w) of (x, d) \<Rightarrow> (x, (ticked w)\<lparr>wd_db := d\<rparr>))"

text \<open>
  One \<open>ExecuteJob\<close> RPC to the server at an address: not delivered, or handled with the answer lost,
  or handled and answered.
\<close>

definition worker_client :: "string \<Rightarrow> ExecuteJobRequest \<Rightarrow> world \<Rightarrow> ExecuteJobResponse rpc \<times> world" where
  "worker_client addr req w =
     (case wd_servers w addr of
        None \<Rightarrow> (Inl (RpcError Unavailable ''no server''), ticked w)
      | Some s \<Rightarrow>
          (case en_rpc (env_of w) of
             Failed e \<Rightarrow> (Inl (RpcError Unavailable e), ticked w)
           | t \<Rightarrow>
               (case ExecuteJob (en_pg (env_of w)) s (wd_db w) req of
                  (res, started, s', d') \<Rightarrow>
                    ((case t of Lost e \<Rightarrow> Inl (RpcError DeadlineExceeded e) | _ \<Rightarrow> res),
                     (ticked w)\<lparr>wd_db := d', wd_servers := (wd_servers w)(addr := Some s'),
                       wd_tasks := wd_tasks w @ (case started of None \<Rightarrow> [] | Some (j, p) \<Rightarrow> [(addr, j, p)])\<rparr>))))"

definition candidates_of :: "world \<Rightarrow> string list" where
  "candidates_of w = Registry_Available (en_order (env_of w)) (en_now (env_of w)) (wd_reg w)"

definition scheduler_dispatcher :: "choice \<Rightarrow> (string, string) fmap \<Rightarrow> (string \<times> string list) + world Dispatcher" where
  "scheduler_dispatcher ch workers = Dispatcher_New ch (\<lambda>addr. Inr (worker_client addr)) workers (Some candidates_of)"

definition node_IsLeader :: "world \<Rightarrow> bool \<times> world" where
  "node_IsLeader w = (en_leader (env_of w), ticked w)"

definition node_ApplyPlacement :: "string \<Rightarrow> string \<Rightarrow> world \<Rightarrow> (string + unit) \<times> world" where
  "node_ApplyPlacement jobID inst w =
     (case en_raft (env_of w) of
        Some e \<Rightarrow> (Inl (''raftnode: apply placement: '' @ e), ticked w)
      | None \<Rightarrow> (Inr (), (ticked w)\<lparr>wd_placed := wd_placed w @ [(jobID, inst)]\<rparr>))"

definition relay_wake :: "world \<Rightarrow> world" where
  "relay_wake w = w\<lparr>wd_wake := Relay_Wake (wd_wake w)\<rparr>"

definition scheduler_relay :: "world Dispatcher \<Rightarrow> world relay_deps" where
  "scheduler_relay disp =
     \<lparr>rd_ClaimOutbox = (\<lambda>limit. on_store (\<lambda>p d. (ClaimOutbox p d limit, d))),
      rd_MarkOutboxDispatched = (\<lambda>i. on_store (\<lambda>p d. MarkOutboxDispatched p d i)),
      rd_RecordOutboxFailure = (\<lambda>i e. on_store (\<lambda>p d. RecordOutboxFailure p d i e)),
      rd_MarkOutboxFailed = (\<lambda>i e. on_store (\<lambda>p d. MarkOutboxFailed p d i e)),
      rd_MarkFinished = (\<lambda>i ok e. on_store (\<lambda>p d. MarkFinished p d i ok e)),
      rd_Dispatch = (\<lambda>job w. case Dispatch disp job w of (res, _, w') \<Rightarrow> (res, w')),
      rd_IsLeader = node_IsLeader,
      rd_ApplyPlacement = node_ApplyPlacement\<rparr>"

definition scheduler_reaper :: "world reaper_deps" where
  "scheduler_reaper =
     \<lparr>rp_ReclaimJobs = (\<lambda>x. on_store (\<lambda>p d. ReclaimJobs p d x)),
      rp_Dead = (\<lambda>w. Registry_Dead (en_order (env_of w)) (en_now (env_of w)) (wd_reg w)),
      rp_Forget = (\<lambda>x w. w\<lparr>wd_reg := Registry_Forget (wd_reg w) x\<rparr>),
      rp_IsLeader = node_IsLeader,
      rp_Wake = relay_wake\<rparr>"

subsection \<open>The table of commands in the database\<close>

definition cell :: "outbox_row \<Rightarrow> string \<times> int" where
  "cell c = (o_status c, o_attempts c)"

definition commands :: "db \<Rightarrow> command_table" where
  "commands d = map_of (map (\<lambda>c. (o_id c, cell c)) (outbox d))"

lemma commands_Some:
  "wf_db d \<Longrightarrow> commands d i = Some y \<longleftrightarrow> (\<exists>c \<in> set (outbox d). o_id c = i \<and> cell c = y)"
  by (auto simp: commands_def wf_db_def map_of_eq_Some_iff comp_def)

lemma commands_on_command:
  assumes "\<And>c. o_id (f c) = o_id c" "\<And>c. cell (f c) = h (cell c)"
  shows "commands (on_command u f d) = (\<lambda>x. if x = u then map_option h (commands d u) else commands d x)"
proof -
  have "map_of (map (\<lambda>c. (o_id c, cell c)) (map (\<lambda>c. if o_id c = u then f c else c) cs))
      = (\<lambda>x. if x = u then map_option h (map_of (map (\<lambda>c. (o_id c, cell c)) cs) u)
             else map_of (map (\<lambda>c. (o_id c, cell c)) cs) x)" for cs
    by (induction cs) (auto simp: assms fun_eq_iff)
  then show ?thesis unfolding commands_def on_command_sel .
qed

lemma commands_cong: "outbox d' = outbox d \<Longrightarrow> commands d' = commands d"
  by (simp add: commands_def)

definition pending_rows :: "db \<Rightarrow> outbox_row list" where
  "pending_rows d = filter (\<lambda>c. o_status c = OutboxPending) (outbox d)"

lemma claim_ids:
  assumes "wf_db d" "ClaimOutbox p d limit = Inr es"
  shows "distinct (map oe_ID es)" "length es = min (nat limit) (length (pending_rows d))"
proof -
  let ?j = "concat (map (\<lambda>c. map (Pair c) (filter (\<lambda>j. r_id j = o_job_id c) (jobs d))) (pending_rows d))"
  let ?s = "sort_key (\<lambda>(c, j). o_created_at c) (reorder (pg_order p) ?j)"
  have es: "es = map (\<lambda>(c, j). \<lparr>oe_ID = o_id c, oe_Attempts = o_attempts c, oe_Job = job_of_row j\<rparr>) (take (nat limit) ?s)"
    using ClaimOutbox_Inr(3) [OF assms(2)] by (simp add: pending_rows_def)
  have j: "map fst ?j = pending_rows d" by (rule join_fst [OF assms(1)]) (auto simp: pending_rows_def)
  from arg_cong [OF j, of length] have len: "length ?j = length (pending_rows d)" by (simp only: length_map)
  show "length es = min (nat limit) (length (pending_rows d))"
    by (simp only: es length_map length_take length_sort length_reorder len min.commute)
  have "mset (map (o_id \<circ> fst) ?s) = mset (map (o_id \<circ> fst) ?j)" by (simp only: mset_map mset_sort mset_reorder)
  also have "map (o_id \<circ> fst) ?j = map o_id (pending_rows d)" by (simp only: j flip: map_map)
  finally have "distinct (map (o_id \<circ> fst) ?s) \<longleftrightarrow> distinct (map o_id (pending_rows d))"
    by (rule mset_eq_imp_distinct_iff)
  also have "distinct (map o_id (pending_rows d))"
    using assms(1) by (simp add: pending_rows_def wf_db_def distinct_map_filter)
  finally have "distinct (map (o_id \<circ> fst) ?s)" by simp
  then have "distinct (take (nat limit) (map (o_id \<circ> fst) ?s))" by simp
  moreover have "map oe_ID es = take (nat limit) (map (o_id \<circ> fst) ?s)"
    by (simp add: es take_map case_prod_beta comp_def)
  ultimately show "distinct (map oe_ID es)" by simp
qed

lemma pending_commands:
  assumes "wf_db d"
  shows "pending_in (commands d) = o_id ` set (pending_rows d)" "card (pending_in (commands d)) = length (pending_rows d)"
proof -
  show p: "pending_in (commands d) = o_id ` set (pending_rows d)"
    by (auto simp: pending_in_def commands_Some [OF assms] pending_rows_def cell_def)
  have "distinct (map o_id (pending_rows d))" using assms by (simp add: pending_rows_def wf_db_def distinct_map_filter)
  then show "card (pending_in (commands d)) = length (pending_rows d)" unfolding p by (metis distinct_card length_map set_map)
qed

subsection \<open>Healthy environments\<close>

text \<open>From now on every store round trip is done, and ids read back as themselves.\<close>

definition env_fine :: "string set \<Rightarrow> env \<Rightarrow> bool" where
  "env_fine I e \<longleftrightarrow> pg_trip (en_pg e) = (\<lambda>_. Done) \<and> (\<forall>u \<in> I. pg_uuid_in (en_pg e) u = Some u)"

definition healthy :: "world \<Rightarrow> bool" where
  "healthy w \<longleftrightarrow> wf_db (wd_db w) \<and> (\<forall>c \<in> set (outbox (wd_db w)). 0 \<le> o_attempts c)
     \<and> (\<forall>n \<ge> wd_tick w. env_fine (ids (wd_db w)) (wd_env w n))"

text \<open>What a step may do to a world without spoiling its health.\<close>

lemma healthy_step:
  assumes "healthy w" "wf_db (wd_db w')" "ids (wd_db w') = ids (wd_db w)" "wd_env w' = wd_env w" "wd_tick w \<le> wd_tick w'"
    and "\<forall>c \<in> set (outbox (wd_db w')). 0 \<le> o_attempts c"
  shows "healthy w'"
  using assms by (simp add: healthy_def)

lemma healthy_env: "healthy w \<Longrightarrow> env_fine (ids (wd_db w)) (env_of w)"
  by (simp add: healthy_def env_of_def)

lemma ticked_sel [simp]:
  "wd_db (ticked w) = wd_db w" "wd_env (ticked w) = wd_env w" "wd_tick (ticked w) = Suc (wd_tick w)"
  "wd_reg (ticked w) = wd_reg w" "wd_wake (ticked w) = wd_wake w"
  by (simp_all add: ticked_def)

lemma healthy_ticked: "healthy w \<Longrightarrow> healthy (ticked w)"
  by (simp add: healthy_def)

text \<open>Updates of jobs leave the commands alone, whatever happens.\<close>

lemma ids_same:
  assumes "map r_id (jobs d') = map r_id (jobs d)" "map o_id (outbox d') = map o_id (outbox d)"
  shows "ids d' = ids d"
  using arg_cong [OF assms(1), of set] arg_cong [OF assms(2), of set] by (simp add: ids_def)

lemma healthy_job_update:
  assumes "job_update F p i f" "F (wd_db w) = (res, d')" "healthy w"
    and "\<And>r. r_id (f r) = r_id r" "\<And>r. r_status (f r) \<in> job_statuses"
    and "wd_db w' = d'" "wd_env w' = wd_env w" "wd_tick w \<le> wd_tick w'"
  shows "healthy w' \<and> commands (wd_db w') = commands (wd_db w)"
proof -
  from assms(3) have wf: "wf_db (wd_db w)" by (simp add: healthy_def)
  have "wf_db d'" by (rule wf_job_update [OF assms(1,2) wf assms(4,5)])
  moreover have fr: "outbox d' = outbox (wd_db w)" by (rule job_update_frame(1) [OF assms(1,2,4)])
  moreover have "map r_id (jobs d') = map r_id (jobs (wd_db w))"
    using job_update_frame(2) [OF assms(1,2,4)] by (auto simp: list_all2_conv_all_nth intro!: nth_equalityI)
  then have "ids d' = ids (wd_db w)" using fr by (intro ids_same) simp_all
  moreover have "\<forall>c \<in> set (outbox (wd_db w)). 0 \<le> o_attempts c" using assms(3) by (simp add: healthy_def)
  ultimately have "healthy w'" using assms(6-8) by (intro healthy_step [OF assms(3)]) simp_all
  then show ?thesis using commands_cong [OF fr] assms(6) by simp
qed

lemma healthy_command_update:
  assumes h: "healthy w" and i: "commands (wd_db w) i = Some y"
    and w': "w' = (ticked w)\<lparr>wd_db := on_command i f (wd_db w)\<rparr>"
    and f: "\<And>c. o_id (f c) = o_id c" "\<And>c. o_job_id (f c) = o_job_id c" "\<And>c. cell (f c) = g (cell c)"
    and ok: "\<And>s a. s \<in> outbox_statuses \<Longrightarrow> fst (g (s, a)) \<in> outbox_statuses" "\<And>s a. 0 \<le> a \<Longrightarrow> 0 \<le> snd (g (s, a))"
  shows "healthy w' \<and> commands (wd_db w') = (commands (wd_db w))(i \<mapsto> g y)"
proof -
  let ?d = "wd_db w"
  have wf: "wf_db ?d" and nn: "\<forall>c \<in> set (outbox ?d). 0 \<le> o_attempts c" using h by (simp_all add: healthy_def)
  have st: "o_status (f c) = fst (g (o_status c, o_attempts c))" "o_attempts (f c) = snd (g (o_status c, o_attempts c))" for c
    using arg_cong [OF f(3) [of c], of fst] arg_cong [OF f(3) [of c], of snd] by (simp_all add: cell_def)
  have "wf_db (on_command i f ?d)" by (rule wf_db_on_command [OF wf f(1,2)]) (simp add: st ok(1))
  moreover have "map o_id (outbox (on_command i f ?d)) = map o_id (outbox ?d)" by (simp add: f(1))
  then have "ids (on_command i f ?d) = ids ?d" by (intro ids_same) simp_all
  moreover have "\<forall>c \<in> set (outbox (on_command i f ?d)). 0 \<le> o_attempts c" using nn by (auto simp: st ok(2))
  ultimately have "healthy w'" using w' by (intro healthy_step [OF h]) simp_all
  moreover have "commands (on_command i f ?d) = (commands ?d)(i \<mapsto> g y)"
    using i by (auto simp: commands_on_command [of f g, OF f(1,3)])
  ultimately show ?thesis using w' by simp
qed

text \<open>What the three command updates do when the round trip is done.\<close>

lemma command_writes:
  assumes "pg_trip p = (\<lambda>_. Done)" "pg_uuid_in p i = Some i"
  shows "snd (MarkOutboxDispatched p d i) = on_command i (\<lambda>r. r\<lparr>o_status := OutboxDispatched, o_dispatched_at := Some (pg_now p)\<rparr>) d"
    and "snd (MarkOutboxFailed p d i e) = on_command i (\<lambda>r. r\<lparr>o_status := OutboxFailed, o_last_error := Some e\<rparr>) d"
    and "\<forall>r \<in> set (outbox d). o_id r = i \<longrightarrow> o_attempts r < 2147483647 \<Longrightarrow>
      snd (RecordOutboxFailure p d i e) = on_command i (\<lambda>r. r\<lparr>o_attempts := o_attempts r + 1, o_last_error := Some e\<rparr>) d"
  using assms
  by (auto simp: MarkOutboxDispatched_def MarkOutboxFailed_def RecordOutboxFailure_def exec_def update_outbox_def on_command_def)

lemma on_store_eq: "on_store f w = (fst (f (en_pg (env_of w)) (wd_db w)), (ticked w)\<lparr>wd_db := snd (f (en_pg (env_of w)) (wd_db w))\<rparr>)"
  by (simp add: on_store_def case_prod_beta)

subsection \<open>The relay's laws\<close>

text \<open>One RPC to a worker, and a whole dispatch, touch jobs only.\<close>

lemma worker_client_healthy:
  assumes "healthy w" "worker_client addr req w = (res, w')"
  shows "healthy w' \<and> commands (wd_db w') = commands (wd_db w)"
proof (cases "wd_servers w addr")
  case None
  then show ?thesis using assms healthy_ticked [OF assms(1)] by (auto simp: worker_client_def)
next
  case (Some s)
  obtain r st s' d' where x: "ExecuteJob (en_pg (env_of w)) s (wd_db w) req = (r, st, s', d')" by (metis prod_cases4)
  show ?thesis
  proof (cases "\<exists>e. en_rpc (env_of w) = Failed e")
    case True
    then show ?thesis using assms Some healthy_ticked [OF assms(1)] by (auto simp: worker_client_def)
  next
    case False
    then have w': "wd_db w' = d'" "wd_env w' = wd_env w" "wd_tick w \<le> wd_tick w'"
      using assms(2) Some x by (auto simp: worker_client_def split: trip.splits)
    show ?thesis
    proof (cases "d' = wd_db w")
      case True
      with w' assms(1) show ?thesis by (auto simp: healthy_def)
    next
      case changed: False
      obtain r1 d1 where m: "MarkScheduled (en_pg (env_of w)) (wd_db w) (xr_JobId req) (ws_instance s) = (r1, d1)" by fastforce
      with x changed have "d' = d1" by (auto simp: ExecuteJob_def Let_def split: if_splits sum.splits)
      then show ?thesis
        using healthy_job_update [OF MarkScheduled_update m assms(1)] w' by (simp add: job_statuses_def)
    qed
  qed
qed

lemma offer_all_healthy:
  assumes "\<And>x w r w'. x \<in> set ws \<Longrightarrow> healthy w \<Longrightarrow> dw_client x req w = (r, w') \<Longrightarrow>
      healthy w' \<and> commands (wd_db w') = commands (wd_db w)"
    and "healthy w" "offer_all req ws le w = (res, w')"
  shows "healthy w' \<and> commands (wd_db w') = commands (wd_db w)"
  using assms
proof (induction ws arbitrary: le w)
  case Nil
  then show ?case by simp
next
  case (Cons x ws)
  obtain r w1 where c: "dw_client x req w = (r, w1)" by fastforce
  have h: "healthy w1" "commands (wd_db w1) = commands (wd_db w)" using Cons.prems(1) [of x, OF _ Cons.prems(2) c] by simp_all
  show ?case
  proof (cases r)
    case (Inl e)
    then have "offer_all req ws (Some e) w1 = (res, w')" using Cons.prems(3) c by simp
    moreover have "\<And>y w r w'. y \<in> set ws \<Longrightarrow> healthy w \<Longrightarrow> dw_client y req w = (r, w') \<Longrightarrow>
        healthy w' \<and> commands (wd_db w') = commands (wd_db w)"
      using Cons.prems(1) by (metis list.set_intros(2))
    ultimately show ?thesis using Cons.IH [OF _ h(1)] h(2) by metis
  next
    case (Inr y)
    then show ?thesis using Cons.prems(3) c h by simp
  qed
qed

text \<open>The workers of the scheduler's dispatcher are the clients of the RPC above.\<close>

definition rpc_dispatcher :: "world Dispatcher \<Rightarrow> bool" where
  "rpc_dispatcher disp \<longleftrightarrow> wf_dispatcher disp \<and> dp_candidates disp = Some candidates_of
     \<and> (\<forall>x \<in> set (dp_workers disp). \<exists>addr. dw_client x = worker_client addr)"

lemma dial_all_clients:
  assumes "dial_all (\<lambda>addr. Inr (worker_client addr)) workers names d = Inr d'"
    and "\<forall>x \<in> set (dp_workers d). \<exists>addr. dw_client x = worker_client addr"
  shows "\<forall>x \<in> set (dp_workers d'). \<exists>addr. dw_client x = worker_client addr"
  using assms
proof (induction names arbitrary: d)
  case (Cons n names)
  let ?w = "\<lparr>dw_name = n, dw_client = worker_client (at_or [] workers n), dw_close = Some (at_or [] workers n)\<rparr>"
  have "dial_all (\<lambda>addr. Inr (worker_client addr)) workers names
      (d\<lparr>dp_workers := dp_workers d @ [?w], dp_byName := fmupd n ?w (dp_byName d)\<rparr>) = Inr d'"
    using Cons.prems(1) by (simp add: Let_def)
  from Cons.IH [OF this] Cons.prems(2) show ?case by auto
qed simp

lemma scheduler_dispatcher_rpc:
  assumes "scheduler_dispatcher ch workers = Inr disp"
  shows "rpc_dispatcher disp"
proof -
  from assms have "\<forall>x \<in> set (dp_workers disp). \<exists>addr. dw_client x = worker_client addr"
    by (auto simp: scheduler_dispatcher_def Dispatcher_New_def Let_def split: if_splits dest!: dial_all_clients)
  then show ?thesis
    using Dispatcher_New_Inr [OF assms [unfolded scheduler_dispatcher_def]] by (simp add: rpc_dispatcher_def)
qed

lemma rpc_dispatcher_eligible:
  assumes "rpc_dispatcher disp" "x \<in> set (fst (eligible disp w))"
  obtains addr where "dw_client x = worker_client addr" "x \<in> set (dp_workers disp)"
proof -
  from assms obtain n where "fmlookup (dp_byName disp) n = Some x"
    by (auto simp: rpc_dispatcher_def eligible_def set_map_filter)
  then have "x \<in> set (dp_workers disp)" using assms(1) by (auto simp: rpc_dispatcher_def wf_dispatcher_def find_Some_iff)
  with assms(1) that show ?thesis by (auto simp: rpc_dispatcher_def)
qed

lemma Dispatch_healthy:
  assumes "rpc_dispatcher disp" "healthy w" "Dispatch disp job w = (res, disp', w')"
  shows "healthy w' \<and> commands (wd_db w') = commands (wd_db w)"
proof (cases "fst (eligible disp w) = []")
  case True
  then show ?thesis using assms(2,3) by (auto simp: Dispatch_def case_prod_beta Let_def)
next
  case False
  let ?ws = "fst (eligible disp w)"
  obtain r w1 where offers: "offer_all (request_of job) ?ws None w = (r, w1)" by fastforce
  have "w' = w1" using assms(3) False offers by (auto simp: Dispatch_def case_prod_beta Let_def split: sum.splits)
  moreover have "healthy w1 \<and> commands (wd_db w1) = commands (wd_db w)"
  proof (rule offer_all_healthy [OF _ assms(2) offers])
    fix x v r v'
    assume "x \<in> set ?ws" "healthy v" "dw_client x (request_of job) v = (r, v')"
    then show "healthy v' \<and> commands (wd_db v') = commands (wd_db v)"
      using rpc_dispatcher_eligible [OF assms(1), of x w] worker_client_healthy by metis
  qed
  ultimately show ?thesis by simp
qed

lemma scheduler_claim:
  assumes "healthy w" "0 \<le> n"
  shows "\<exists>es w'. on_store (\<lambda>p d. (ClaimOutbox p d n, d)) w = (Inr es, w') \<and> healthy w' \<and> commands (wd_db w') = commands (wd_db w)
    \<and> distinct (map oe_ID es) \<and> (\<forall>e \<in> set es. commands (wd_db w) (oe_ID e) = Some (OutboxPending, oe_Attempts e))
    \<and> length es = min (nat n) (card (pending_in (commands (wd_db w))))"
proof -
  let ?p = "en_pg (env_of w)" and ?d = "wd_db w"
  have wf: "wf_db ?d" using assms(1) by (simp add: healthy_def)
  have "pg_trip ?p = (\<lambda>_. Done)" using healthy_env [OF assms(1)] by (simp add: env_fine_def)
  then obtain es where es: "ClaimOutbox ?p ?d n = Inr es" using assms(2) by (auto simp: ClaimOutbox_def trip_error_def rows_error_def)
  have "\<forall>e \<in> set es. commands ?d (oe_ID e) = Some (OutboxPending, oe_Attempts e)"
  proof
    fix e
    assume "e \<in> set es"
    from ClaimOutbox_entry [OF es this] show "commands ?d (oe_ID e) = Some (OutboxPending, oe_Attempts e)"
      by (metis cell_def commands_Some [OF wf])
  qed
  moreover have "on_store (\<lambda>p d. (ClaimOutbox p d n, d)) w = (Inr es, ticked w)" using es by (simp add: on_store_eq ticked_def)
  ultimately show ?thesis
    using claim_ids [OF wf es] pending_commands(2) [OF wf] healthy_ticked [OF assms(1)] by auto
qed

lemma scheduler_mark:
  assumes "healthy w" "commands (wd_db w) c = Some (s, a)"
  shows "on_store (\<lambda>p d. MarkOutboxDispatched p d c) w = (x, w') \<Longrightarrow>
      healthy w' \<and> commands (wd_db w') = (commands (wd_db w))(c \<mapsto> (OutboxDispatched, a))"
    and "a < 30 \<Longrightarrow> on_store (\<lambda>p d. RecordOutboxFailure p d c e) w = (x, w') \<Longrightarrow>
      healthy w' \<and> commands (wd_db w') = (commands (wd_db w))(c \<mapsto> (s, a + 1))"
    and "on_store (\<lambda>p d. MarkOutboxFailed p d c e) w = (x, w') \<Longrightarrow>
      healthy w' \<and> commands (wd_db w') = (commands (wd_db w))(c \<mapsto> (OutboxFailed, a))"
proof -
  let ?p = "en_pg (env_of w)" and ?d = "wd_db w"
  have wf: "wf_db ?d" using assms(1) by (simp add: healthy_def)
  from assms(2) obtain row where row: "row \<in> set (outbox ?d)" "o_id row = c" "o_attempts row = a"
    by (auto simp: commands_Some [OF wf] cell_def)
  then have p: "pg_trip ?p = (\<lambda>_. Done)" "pg_uuid_in ?p c = Some c"
    using healthy_env [OF assms(1)] by (auto simp: env_fine_def ids_def)
  note wr = command_writes [OF p] and upd = healthy_command_update [OF assms]
  show "healthy w' \<and> commands (wd_db w') = (commands (wd_db w))(c \<mapsto> (OutboxDispatched, a))"
    if "on_store (\<lambda>p d. MarkOutboxDispatched p d c) w = (x, w')"
    using upd [of w' "\<lambda>r. r\<lparr>o_status := OutboxDispatched, o_dispatched_at := Some (pg_now ?p)\<rparr>" "\<lambda>(s, a). (OutboxDispatched, a)"] that
    by (auto simp: wr(1) on_store_eq cell_def outbox_statuses_def)
  show "healthy w' \<and> commands (wd_db w') = (commands (wd_db w))(c \<mapsto> (OutboxFailed, a))"
    if "on_store (\<lambda>p d. MarkOutboxFailed p d c e) w = (x, w')"
    using upd [of w' "\<lambda>r. r\<lparr>o_status := OutboxFailed, o_last_error := Some e\<rparr>" "\<lambda>(s, a). (OutboxFailed, a)"] that
    by (auto simp: wr(2) on_store_eq cell_def outbox_statuses_def)
  assume lt: "a < 30" and eq: "on_store (\<lambda>p d. RecordOutboxFailure p d c e) w = (x, w')"
  have "\<forall>r \<in> set (outbox ?d). o_id r = c \<longrightarrow> o_attempts r < 2147483647"
    using row lt wf by (auto simp: wf_db_def distinct_map dest: inj_onD)
  then show "healthy w' \<and> commands (wd_db w') = (commands (wd_db w))(c \<mapsto> (s, a + 1))"
    using upd [of w' "\<lambda>r. r\<lparr>o_attempts := o_attempts r + 1, o_last_error := Some e\<rparr>" "\<lambda>(s, a). (s, a + 1)"] eq
    by (auto simp: wr(3) on_store_eq cell_def)
qed

lemma scheduler_relay_sel:
  "rd_ClaimOutbox (scheduler_relay disp) n = on_store (\<lambda>p d. (ClaimOutbox p d n, d))"
  "rd_MarkOutboxDispatched (scheduler_relay disp) i = on_store (\<lambda>p d. MarkOutboxDispatched p d i)"
  "rd_RecordOutboxFailure (scheduler_relay disp) i e = on_store (\<lambda>p d. RecordOutboxFailure p d i e)"
  "rd_MarkOutboxFailed (scheduler_relay disp) i e = on_store (\<lambda>p d. MarkOutboxFailed p d i e)"
  "rd_MarkFinished (scheduler_relay disp) i ok e = on_store (\<lambda>p d. MarkFinished p d i ok e)"
  "rd_Dispatch (scheduler_relay disp) job w = (case Dispatch disp job w of (res, _, w') \<Rightarrow> (res, w'))"
  "rd_ApplyPlacement (scheduler_relay disp) = node_ApplyPlacement"
  "rd_IsLeader (scheduler_relay disp) = node_IsLeader"
  by (simp_all add: scheduler_relay_def)

definition relay_ok :: "world Dispatcher \<Rightarrow> world \<Rightarrow> bool" where
  "relay_ok disp w \<longleftrightarrow> rpc_dispatcher disp \<and> healthy w"

interpretation sched: relay_laws "scheduler_relay disp" "\<lambda>w. commands (wd_db w)" "relay_ok disp" for disp
proof (unfold_locales, unfold scheduler_relay_sel relay_ok_def)
  fix w
  show "finite (dom (commands (wd_db w)))" by (simp add: commands_def finite_dom_map_of)
next
  fix w c s a
  assume "rpc_dispatcher disp \<and> healthy w" "commands (wd_db w) c = Some (s, a)"
  then show "0 \<le> a" by (auto simp: healthy_def commands_Some cell_def)
next
  fix w job y w'
  assume h: "rpc_dispatcher disp \<and> healthy w" and d: "(case Dispatch disp job w of (res, _, w') \<Rightarrow> (res, w')) = (y, w')"
  obtain r disp' w1 where "Dispatch disp job w = (r, disp', w1)" by (metis prod_cases3)
  with Dispatch_healthy [of disp w job r disp' w1] d h
  show "(rpc_dispatcher disp \<and> healthy w') \<and> commands (wd_db w') = commands (wd_db w)" by simp
next
  fix w j ok e x w'
  assume h: "rpc_dispatcher disp \<and> healthy w" and m: "on_store (\<lambda>p d. MarkFinished p d j ok e) w = (x, w')"
  have "MarkFinished (en_pg (env_of w)) (wd_db w) j ok e = (x, wd_db w')" and "wd_env w' = wd_env w" "wd_tick w \<le> wd_tick w'"
    using m by (auto simp: on_store_eq)
  then show "(rpc_dispatcher disp \<and> healthy w') \<and> commands (wd_db w') = commands (wd_db w)"
    using healthy_job_update [OF MarkFinished_update _ h [THEN conjunct2]] h by (simp add: job_statuses_def)
next
  fix w j i z w'
  assume "rpc_dispatcher disp \<and> healthy w" "node_ApplyPlacement j i w = (z, w')"
  then show "(rpc_dispatcher disp \<and> healthy w') \<and> commands (wd_db w') = commands (wd_db w)"
    by (auto simp: node_ApplyPlacement_def healthy_def split: option.splits)
qed (use scheduler_claim scheduler_mark in \<open>meson\<close>)+

subsection \<open>The reaper's laws\<close>

text \<open>
  In every environment still to come Postgres generates fresh ids, and reads back the ids that are
  in the database or that it generates itself; of other texts, names that are no uuid among them,
  nothing is assumed.  Round trips may fail.
\<close>

definition reaper_ok :: "world \<Rightarrow> bool" where
  "reaper_ok w \<longleftrightarrow> wf_db (wd_db w) \<and> wf_registry (wd_reg w)
     \<and> (\<forall>n \<ge> wd_tick w. \<forall>u \<in> ids (wd_db w). pg_uuid_in (en_pg (wd_env w n)) u = Some u)
     \<and> (\<forall>n \<ge> wd_tick w. \<forall>m \<ge> wd_tick w. \<forall>k.
          pg_uuid_in (en_pg (wd_env w n)) (pg_new_id (en_pg (wd_env w m)) k) = Some (pg_new_id (en_pg (wd_env w m)) k))
     \<and> (\<forall>n \<ge> wd_tick w. inj (pg_new_id (en_pg (wd_env w n))) \<and> (\<forall>k. pg_new_id (en_pg (wd_env w n)) k \<notin> ids (wd_db w)))
     \<and> (\<forall>n \<ge> wd_tick w. \<forall>m \<ge> wd_tick w. n \<noteq> m \<longrightarrow>
          range (pg_new_id (en_pg (wd_env w n))) \<inter> range (pg_new_id (en_pg (wd_env w m))) = {})"

text \<open>The rows of the jobs in flight on one worker, and of those in flight nowhere.\<close>

definition held_by :: "world \<Rightarrow> string \<Rightarrow> job_row set" where
  "held_by w x = {r \<in> set (jobs (wd_db w)). r_assigned_worker_id r = Some x \<and> r_status r \<in> {''scheduled'', ''running''}}"

definition unheld :: "world \<Rightarrow> job_row set" where
  "unheld w = set (jobs (wd_db w)) - (\<Union>x. held_by w x)"

lemma in_flight_lit: "in_flight_of x r \<longleftrightarrow> r_assigned_worker_id r = Some x \<and> r_status r \<in> {''scheduled'', ''running''}"
  by (auto simp: in_flight_of_def StatusScheduled_def StatusRunning_def)

lemma held_by_eq: "held_by w x = {r \<in> set (jobs (wd_db w)). in_flight_of x r}"
  by (simp add: held_by_def in_flight_lit)

lemma unheld_eq: "unheld w = {r \<in> set (jobs (wd_db w)). \<forall>x. \<not> in_flight_of x r}"
  by (auto simp: unheld_def held_by_eq)

lemma reaper_pg_ok: "reaper_ok w \<Longrightarrow> pg_ok (en_pg (env_of w)) (wd_db w)"
  by (simp add: reaper_ok_def pg_ok_def env_of_def)

lemma ids_new_commands: "o_id ` set (new_commands p n is) \<subseteq> range (pg_new_id p)"
  by (induction p n "is" rule: new_commands.induct) (auto simp: new_outbox_row_def)

lemma ids_with_reclaimed: "ids (with_reclaimed p x d) \<subseteq> ids d \<union> range (pg_new_id p)"
proof -
  have "map r_id (jobs (with_reclaimed p x d)) = map r_id (jobs d)" by (simp add: with_reclaimed_def)
  then have "r_id ` set (jobs (with_reclaimed p x d)) = r_id ` set (jobs d)" by (metis set_map)
  then show ?thesis using ids_new_commands [of p 3 "map r_id (reclaimed p x d)"]
    by (auto simp: ids_def with_reclaimed_def)
qed

text \<open>A reclaim that took effect, or not, keeps what the next one needs.\<close>

lemma reaper_ok_reclaim:
  assumes "reaper_ok w" "d' = wd_db w \<or> d' = with_reclaimed (en_pg (env_of w)) x (wd_db w)" "wf_db d'"
  shows "reaper_ok ((ticked w)\<lparr>wd_db := d'\<rparr>)"
proof -
  let ?new = "\<lambda>n. range (pg_new_id (en_pg (wd_env w n)))"
  have sub: "ids d' \<subseteq> ids (wd_db w) \<union> ?new (wd_tick w)"
    using assms(2) ids_with_reclaimed [of "en_pg (env_of w)" x "wd_db w"] by (auto simp: env_of_def)
  have "pg_new_id (en_pg (wd_env w n)) k \<notin> ids d'" if "n \<ge> Suc (wd_tick w)" for n k
  proof
    assume "pg_new_id (en_pg (wd_env w n)) k \<in> ids d'"
    moreover have "pg_new_id (en_pg (wd_env w n)) k \<notin> ids (wd_db w)" using assms(1) that by (simp add: reaper_ok_def)
    ultimately have "pg_new_id (en_pg (wd_env w n)) k \<in> ?new (wd_tick w)" using sub by blast
    moreover have "?new n \<inter> ?new (wd_tick w) = {}" using assms(1) that by (simp add: reaper_ok_def)
    ultimately show False by blast
  qed
  moreover have "pg_uuid_in (en_pg (wd_env w n)) u = Some u" if "n \<ge> Suc (wd_tick w)" "u \<in> ids d'" for n u
    using assms(1) sub that by (auto simp: reaper_ok_def)
  ultimately show ?thesis using assms(1,3) by (simp add: reaper_ok_def)
qed

lemma reclaim_held:
  assumes "wd_db w' = with_reclaimed p x (wd_db w)"
  shows "held_by w' x = {}" "unheld w \<subseteq> unheld w'" "y \<noteq> x \<Longrightarrow> held_by w' y = held_by w y"
proof -
  have not_held: "\<not> in_flight_of z (reclaim_row p r)" for z r by (simp add: in_flight_of_def reclaim_row_def)
  then show "held_by w' x = {}" using assms by (auto simp: held_by_eq with_reclaimed_def)
  have "r \<in> unheld w'" if "r \<in> unheld w" for r
  proof -
    have "r = (if in_flight_of x r then reclaim_row p r else r)" using that by (simp add: unheld_eq)
    then have "r \<in> set (jobs (wd_db w'))" unfolding assms with_reclaimed_def using that by (force simp: unheld_eq)
    then show ?thesis using that by (simp add: unheld_eq)
  qed
  then show "unheld w \<subseteq> unheld w'" by blast
  assume "y \<noteq> x"
  then have "in_flight_of y r \<Longrightarrow> \<not> in_flight_of x r" for r by (auto simp: in_flight_of_def)
  then show "held_by w' y = held_by w y" using assms not_held by (auto simp: held_by_eq with_reclaimed_def)
qed

lemma scheduler_reclaim:
  assumes "reaper_ok w" "on_store (\<lambda>p d. ReclaimJobs p d x) w = (res, w')"
  shows "reaper_ok w' \<and> wd_reg w' = wd_reg w \<and> wd_wake w' = wd_wake w \<and> unheld w \<subseteq> unheld w'
      \<and> (\<forall>y. y \<noteq> x \<longrightarrow> held_by w' y = held_by w y)"
    and "res = Inr js \<Longrightarrow> j_ID ` set js = r_id ` held_by w x \<and> held_by w' x = {}"
    and "res = Inl e \<Longrightarrow> held_by w' x = held_by w x \<or> held_by w' x = {}"
proof -
  let ?p = "en_pg (env_of w)" and ?d = "wd_db w"
  obtain d' where r: "ReclaimJobs ?p ?d x = (res, d')" and w': "w' = (ticked w)\<lparr>wd_db := d'\<rparr>"
    using assms(2) by (auto simp: on_store_def split: prod.splits)
  then have db': "wd_db w' = d'" by simp
  have pg: "pg_ok ?p ?d" by (rule reaper_pg_ok [OF assms(1)])
  have wf: "wf_db ?d" using assms(1) by (simp add: reaper_ok_def)
  have "wf_db d'" using wf_ReclaimJobs [OF wf pg, of x] r by simp
  have "\<forall>r \<in> set (jobs ?d). pg_uuid_in ?p (r_id r) = Some (r_id r)" using pg by (simp add: pg_ok_def ids_def)
  from this r have c: "(isl res \<and> d' = ?d) \<or> (d' = with_reclaimed ?p x ?d
      \<and> (isl res \<or> res = Inr (map (job_of_row \<circ> reclaim_row ?p) (reclaimed ?p x ?d))))"
    by (cases rule: ReclaimJobs_cases) auto
  then have "reaper_ok w'" unfolding w' using \<open>wf_db d'\<close> by (intro reaper_ok_reclaim [OF assms(1)]) auto
  have same: "held_by w' = held_by w" "unheld w' = unheld w" if "d' = ?d"
    using that db' by (simp_all add: held_by_def unheld_def fun_eq_iff)
  note taken = reclaim_held [of w' ?p x w, unfolded db']
  have "unheld w \<subseteq> unheld w' \<and> (\<forall>y. y \<noteq> x \<longrightarrow> held_by w' y = held_by w y)"
    using c same taken(2,3) by (cases "d' = ?d") auto
  with \<open>reaper_ok w'\<close> show "reaper_ok w' \<and> wd_reg w' = wd_reg w \<and> wd_wake w' = wd_wake w \<and> unheld w \<subseteq> unheld w'
      \<and> (\<forall>y. y \<noteq> x \<longrightarrow> held_by w' y = held_by w y)"
    by (simp add: w')
  show "res = Inl e \<Longrightarrow> held_by w' x = held_by w x \<or> held_by w' x = {}"
    using c same(1) taken(1) by (cases "d' = ?d") auto
  assume "res = Inr js"
  with c have "d' = with_reclaimed ?p x ?d" "js = map (job_of_row \<circ> reclaim_row ?p) (reclaimed ?p x ?d)" by auto
  with taken(1) show "j_ID ` set js = r_id ` held_by w x \<and> held_by w' x = {}" by (auto simp: held_by_eq image_comp)
qed

lemma scheduler_reaper_sel:
  "rp_ReclaimJobs scheduler_reaper x = on_store (\<lambda>p d. ReclaimJobs p d x)"
  "rp_Dead scheduler_reaper w = Registry_Dead (en_order (env_of w)) (en_now (env_of w)) (wd_reg w)"
  "rp_Forget scheduler_reaper x w = w\<lparr>wd_reg := Registry_Forget (wd_reg w) x\<rparr>"
  "rp_Wake scheduler_reaper = relay_wake"
  by (simp_all add: scheduler_reaper_def)

interpretation reap: reaper_laws scheduler_reaper reaper_ok wd_reg "\<lambda>x g. Registry_Forget g x" held_by unheld r_id wd_wake
proof (unfold_locales, unfold scheduler_reaper_sel)
  fix w
  assume "reaper_ok w"
  then show "distinct (Registry_Dead (en_order (env_of w)) (en_now (env_of w)) (wd_reg w))"
    by (simp add: reaper_ok_def Registry_Dead_sorted)
next
  fix w x
  assume "reaper_ok w"
  then show "reaper_ok (w\<lparr>wd_reg := Registry_Forget (wd_reg w) x\<rparr>)
      \<and> wd_reg (w\<lparr>wd_reg := Registry_Forget (wd_reg w) x\<rparr>) = Registry_Forget (wd_reg w) x
      \<and> held_by (w\<lparr>wd_reg := Registry_Forget (wd_reg w) x\<rparr>) = held_by w
      \<and> unheld (w\<lparr>wd_reg := Registry_Forget (wd_reg w) x\<rparr>) = unheld w
      \<and> wd_wake (w\<lparr>wd_reg := Registry_Forget (wd_reg w) x\<rparr>) = wd_wake w"
    by (simp add: reaper_ok_def held_by_def unheld_def fun_eq_iff wf_registry_Forget)
next
  fix w
  assume "reaper_ok w"
  then show "reaper_ok (relay_wake w) \<and> wd_reg (relay_wake w) = wd_reg w \<and> held_by (relay_wake w) = held_by w
      \<and> unheld (relay_wake w) = unheld w \<and> wd_wake (relay_wake w)"
    by (simp add: relay_wake_def Relay_Wake_def reaper_ok_def held_by_def unheld_def fun_eq_iff)
qed (use scheduler_reclaim in \<open>blast\<close>)+

lemma forget_all:
  "fmlookup (reg_workers (fold (\<lambda>x g. Registry_Forget g x) xs g)) y = (if y \<in> set xs then None else fmlookup (reg_workers g) y)"
  "reg_staleTTL (fold (\<lambda>x g. Registry_Forget g x) xs g) = reg_staleTTL g"
  "reg_deadTTL (fold (\<lambda>x g. Registry_Forget g x) xs g) = reg_deadTTL g"
  by (induction xs arbitrary: g) (auto simp: Registry_Forget_def)

subsection \<open>Properties of the wired scheduler\<close>

text \<open>
  C3 While the store answers, the relay resolves every dispatch command, whatever the workers do
  (accept, refuse, lose messages): with \<open>n\<close> commands pending, at most \<open>31 n\<close> sweeps leave none
  pending; when they fit in one batch of 50, 31 sweeps are enough, and every command that was
  pending is then dispatched or failed.
\<close>

theorem relay_resolves_all:
  assumes "scheduler_dispatcher ch workers = Inr disp" "healthy w"
  shows "(\<exists>n \<le> 31 * length (pending_rows (wd_db w)). pending_rows (wd_db ((drain (scheduler_relay disp) ^^ n) w)) = [])
       \<and> (length (pending_rows (wd_db w)) \<le> 50 \<longrightarrow>
            pending_rows (wd_db ((drain (scheduler_relay disp) ^^ 31) w)) = [])"
proof -
  let ?dr = "drain (scheduler_relay disp)"
  have ok: "relay_ok disp w" using scheduler_dispatcher_rpc [OF assms(1)] assms(2) by (simp add: relay_ok_def)
  have wf: "wf_db (wd_db w)" using assms(2) by (simp add: healthy_def)
  have none: "pending_rows (wd_db ((?dr ^^ n) w)) = []" if "pending_in (commands (wd_db ((?dr ^^ n) w))) = {}" for n
  proof -
    have "wf_db (wd_db ((?dr ^^ n) w))" using sched.drains_healthy [OF ok] by (simp add: relay_ok_def healthy_def)
    from pending_commands(2) [OF this] that show ?thesis by simp
  qed
  obtain n where "n \<le> potential (commands (wd_db w))" "pending_in (commands (wd_db ((?dr ^^ n) w))) = {}"
    using sched.drains_empty [OF ok] by blast
  moreover from this(1) sched.potential_bound [OF ok] have "n \<le> 31 * length (pending_rows (wd_db w))"
    by (simp add: pending_commands(2) [OF wf])
  ultimately show ?thesis using none sched.drains_31 [OF ok] pending_commands(2) [OF wf] by auto
qed

definition ex_env :: env where
  "ex_env = \<lparr>en_pg = ex_pg, en_rpc = Done, en_now = 100, en_leader = True, en_raft = None, en_order = (\<lambda>_. [])\<rparr>"

definition ex_world :: world where
  "ex_world = \<lparr>wd_db = ex_db2, wd_reg = ex_registry, wd_wake = False, wd_servers = (\<lambda>_. None), wd_tasks = [],
     wd_placed = [], wd_env = (\<lambda>n. ex_env\<lparr>en_pg := ex_pg\<lparr>pg_new_id := (\<lambda>k. ''n'' @ replicate n CHR ''x'' @ ''/'' @ replicate k CHR ''y'')\<rparr>\<rparr>),
     wd_tick = 0\<rparr>"

lemma healthy_ex_world: "healthy ex_world"
  using wf_ex_db2
  by (simp add: healthy_def ex_world_def ex_env_def env_fine_def ex_pg_def)
    (simp add: ex_db2_def new_outbox_row_def)

theorem relay_resolves_all_witness:
  "\<exists>disp. scheduler_dispatcher (\<lambda>_. []) (fmupd ''w1'' ''a'' fmempty) = Inr disp
     \<and> length (pending_rows (wd_db ex_world)) = 2
     \<and> pending_rows (wd_db ((drain (scheduler_relay disp) ^^ 31) ex_world)) = []"
proof -
  let ?new = "scheduler_dispatcher (\<lambda>_. []) (fmupd ''w1'' ''a'' fmempty)"
  have "\<not> isl ?new" by code_simp
  then obtain disp where d: "?new = Inr disp" by (cases ?new) auto
  moreover have "length (pending_rows (wd_db ex_world)) = 2"
    by (simp add: ex_world_def ex_db2_def pending_rows_def new_outbox_row_def)
  ultimately show ?thesis using relay_resolves_all [OF d healthy_ex_world] by simp
qed

text \<open>
  C5 One sweep of the reaper, whatever store calls fail: it asks, each once, for exactly the workers
  whose last heartbeat is older than the dead TTL.  A worker whose reclaim succeeded loses its record in the
  registry, the jobs taken back are those that were scheduled or running on it, and none is left on it; one
  whose reclaim failed keeps its record for the next sweep.  Every other record of the registry, every
  row in flight on another worker and every row in flight nowhere is as it was, and the
  relay is woken exactly if a job came back.
\<close>

theorem reaper_sweep_spec:
  assumes "reaper_ok w"
  defines "os \<equiv> outcomes scheduler_reaper (rp_Dead scheduler_reaper w) w"
  defines "dead \<equiv> \<lambda>x. \<exists>s. fmlookup (reg_workers (wd_reg w)) x = Some s
      \<and> reg_deadTTL (wd_reg w) < time_Sub (en_now (env_of w)) (w_LastSeen s)"
  defines "w' \<equiv> sweep scheduler_reaper w"
  shows "distinct (map fst os) \<and> fst ` set os = {x. dead x}
       \<and> (\<forall>x. fmlookup (reg_workers (wd_reg w')) x =
             (if \<exists>js. (x, Some js) \<in> set os then None else fmlookup (reg_workers (wd_reg w)) x))
       \<and> reg_staleTTL (wd_reg w') = reg_staleTTL (wd_reg w) \<and> reg_deadTTL (wd_reg w') = reg_deadTTL (wd_reg w)
       \<and> (\<forall>x js. (x, Some js) \<in> set os \<longrightarrow> set js = r_id ` held_by w x \<and> held_by w' x = {})
       \<and> (\<forall>x. (x, None) \<in> set os \<longrightarrow> held_by w' x = held_by w x \<or> held_by w' x = {})
       \<and> (\<forall>x. \<not> dead x \<longrightarrow> held_by w' x = held_by w x) \<and> unheld w \<subseteq> unheld w'
       \<and> (wd_wake w' \<longleftrightarrow> wd_wake w \<or> (\<exists>x js. (x, Some js) \<in> set os \<and> held_by w x \<noteq> {}))"
proof -
  let ?dead = "rp_Dead scheduler_reaper w"
  have wf: "wf_registry (wd_reg w)" using assms(1) by (simp add: reaper_ok_def)
  have d: "set ?dead = {x. dead x}" "distinct ?dead"
    using Registry_Dead_iff [OF wf] Registry_Dead_sorted [OF wf] by (auto simp: scheduler_reaper_sel dead_def)
  note sp = reap.sweep_spec [OF assms(1), folded os_def w'_def]
  then have asked: "distinct (map fst os) \<and> fst ` set os = {x. dead x}" using d by (metis set_map)
  have reg: "wd_reg w' = fold (\<lambda>x g. Registry_Forget g x) (reclaimed_workers os) (wd_reg w)" using sp by blast
  have "\<forall>x. fmlookup (reg_workers (wd_reg w')) x =
      (if \<exists>js. (x, Some js) \<in> set os then None else fmlookup (reg_workers (wd_reg w)) x)"
    unfolding reg forget_all by (simp add: set_reclaimed_workers)
  moreover have "reg_staleTTL (wd_reg w') = reg_staleTTL (wd_reg w)" "reg_deadTTL (wd_reg w') = reg_deadTTL (wd_reg w)"
    unfolding reg by (simp_all add: forget_all)
  moreover have "wd_wake w' \<longleftrightarrow> wd_wake w \<or> (\<exists>x js. (x, Some js) \<in> set os \<and> held_by w x \<noteq> {})"
  proof -
    have "js \<noteq> [] \<longleftrightarrow> held_by w x \<noteq> {}" if "(x, Some js) \<in> set os" for x js
    proof -
      have "set js = r_id ` held_by w x" using sp that by blast
      then have "set js = {} \<longleftrightarrow> held_by w x = {}" by (simp only: image_is_empty)
      then show ?thesis by simp
    qed
    then have "(\<exists>x js. (x, Some js) \<in> set os \<and> js \<noteq> []) \<longleftrightarrow> (\<exists>x js. (x, Some js) \<in> set os \<and> held_by w x \<noteq> {})" by meson
    moreover have "wd_wake w' \<longleftrightarrow> wd_wake w \<or> (\<exists>x js. (x, Some js) \<in> set os \<and> js \<noteq> [])"
      using sp by (elim conjE) assumption
    ultimately show ?thesis by argo
  qed
  moreover have "\<forall>x. \<not> dead x \<longrightarrow> held_by w' x = held_by w x" using sp unfolding d(1) by blast
  ultimately show ?thesis using sp asked by (elim conjE) (intro conjI; assumption)
qed

definition ex_world1 :: world where
  "ex_world1 = ex_world\<lparr>wd_db := ex_db1, wd_reg := Registry_Record 90 (Registry_Record 10 (Registry_New 20 50) ''worker-1'' 4 1) ''worker-2'' 4 0\<rparr>"

lemma reaper_ok_ex_world1: "reaper_ok ex_world1"
proof -
  have "inj (\<lambda>k. ''n'' @ replicate n CHR ''x'' @ ''/'' @ replicate k CHR ''y'')" for n by (auto simp: inj_def)
  moreover have "range (\<lambda>k. ''n'' @ replicate n CHR ''x'' @ ''/'' @ replicate k CHR ''y'')
      \<inter> range (\<lambda>k. ''n'' @ replicate m CHR ''x'' @ ''/'' @ replicate k CHR ''y'') = {}" if "n \<noteq> m" for n m
    using ex_ids_disjoint [OF that] by blast
  moreover have "''n'' @ replicate n CHR ''x'' @ ''/'' @ replicate k CHR ''y'' \<notin> ids ex_db1" for n k
    by (simp add: ids_def ex_db1_def ex_row_def)
  ultimately show ?thesis
    unfolding reaper_ok_def ex_world1_def ex_world_def ex_env_def
    by (simp add: ex_db1_ok(1) ex_pg_def wf_registry_Record wf_registry_New)
qed

text \<open>One dead worker with a running job and a live one with none: the sweep forgets the first only.\<close>

theorem reaper_sweep_spec_witness:
  "fmlookup (reg_workers (wd_reg (sweep scheduler_reaper ex_world1))) ''worker-1'' = None
   \<and> fmlookup (reg_workers (wd_reg (sweep scheduler_reaper ex_world1))) ''worker-2'' \<noteq> None
   \<and> r_id ` held_by ex_world1 ''worker-1'' = {''j1''}
   \<and> held_by (sweep scheduler_reaper ex_world1) ''worker-1'' = {} \<and> wd_wake (sweep scheduler_reaper ex_world1)"
proof -
  have os: "outcomes scheduler_reaper (rp_Dead scheduler_reaper ex_world1) ex_world1 = [(''worker-1'', Some [''j1''])]" by code_simp
  note sp = reaper_sweep_spec [OF reaper_ok_ex_world1, unfolded os]
  have "fmlookup (reg_workers (wd_reg ex_world1)) ''worker-2'' \<noteq> None"
    by (simp add: ex_world1_def Registry_Record_def)
  moreover from sp have h: "r_id ` held_by ex_world1 ''worker-1'' = {''j1''}" by simp
  moreover from h have "held_by ex_world1 ''worker-1'' \<noteq> {}" by blast
  ultimately show ?thesis using sp by simp
qed

end
