(* ===== verification/Pipeline.thy ===== *)
theory Pipeline
  imports Scheduler
begin

section \<open>The dispatch pipeline: who may write what, in any order\<close>

text \<open>
  All schedulers, workers and relays share one database, and any of them may stop at any point.
  \<open>pipe_step\<close> is one committed store call of one of them:
  submissions (\<open>schedulersvc.SubmitJob\<close>), reclaims (\<open>reaper.sweep\<close>), the calls of \<open>Relay.handle\<close>
  guarded by what the relay read when it claimed the entry, and the worker's calls
  (\<open>ExecuteJob\<close>, \<open>run\<close>).  Several relays may hold the same entry (two schedulers may believe they
  lead), entries may be stale, and a relay that crashed is one that never moves again.

  The state records, besides the database, the entries that relays have claimed, those for which a
  worker's acceptance was acknowledged, and the jobs that were given up.  Every call may also fail
  or lose its answer, as the store model allows.

  Shown: the intent to run a job is never lost (a pending job always has a pending command that no
  relay is about to close, unless it was given up), and that the relay code of \<open>Relay.handle\<close>, run
  on the wired scheduler, only makes such steps.
\<close>

record pipe =
  pi_db :: db
  pi_held :: "OutboxEntry set"
  pi_acked :: "OutboxEntry set"
  pi_given_up :: "string set"

text \<open>The conditions of \<open>Relay.handle\<close> on a claimed entry.\<close>

definition moved_on :: "OutboxEntry \<Rightarrow> bool" where
  "moved_on e \<longleftrightarrow> j_Status (oe_Job e) \<noteq> StatusPending"

definition out_of_budget :: "OutboxEntry \<Rightarrow> bool" where
  "out_of_budget e \<longleftrightarrow> j_Attempts (oe_Job e) \<ge> maxExecutionAttempts \<or> oe_Attempts e \<ge> maxDispatchAttempts"

definition offerable :: "OutboxEntry \<Rightarrow> bool" where
  "offerable e \<longleftrightarrow> \<not> moved_on e \<and> \<not> out_of_budget e"

inductive pipe_step :: "pipe \<Rightarrow> pipe \<Rightarrow> bool" where
  submit: "pg_ok p (pi_db s) \<Longrightarrow> CreateJobWithOutbox p (pi_db s) name body = (res, d') \<Longrightarrow>
     pipe_step s (s\<lparr>pi_db := d'\<rparr>)"
| reclaim: "pg_ok p (pi_db s) \<Longrightarrow> ReclaimJobs p (pi_db s) w = (res, d') \<Longrightarrow> pipe_step s (s\<lparr>pi_db := d'\<rparr>)"
| claim: "ClaimOutbox p (pi_db s) n = Inr es \<Longrightarrow> pipe_step s (s\<lparr>pi_held := pi_held s \<union> set es\<rparr>)"
| reconcile: "pg_ok p (pi_db s) \<Longrightarrow> e \<in> pi_held s \<Longrightarrow> moved_on e \<Longrightarrow>
     MarkOutboxDispatched p (pi_db s) (oe_ID e) = (res, d') \<Longrightarrow> pipe_step s (s\<lparr>pi_db := d'\<rparr>)"
| offer: "pg_ok p (pi_db s) \<Longrightarrow> e \<in> pi_held s \<Longrightarrow> offerable e \<Longrightarrow>
     MarkScheduled p (pi_db s) (j_ID (oe_Job e)) w = (res, d') \<Longrightarrow> pipe_step s (s\<lparr>pi_db := d'\<rparr>)"
| accept: "pg_ok p (pi_db s) \<Longrightarrow> e \<in> pi_held s \<Longrightarrow> offerable e \<Longrightarrow>
     MarkScheduled p (pi_db s) (j_ID (oe_Job e)) w = (Inr (), d') \<Longrightarrow>
     pipe_step s (s\<lparr>pi_db := d', pi_acked := insert e (pi_acked s)\<rparr>)"
| mark: "pg_ok p (pi_db s) \<Longrightarrow> e \<in> pi_acked s \<Longrightarrow>
     MarkOutboxDispatched p (pi_db s) (oe_ID e) = (res, d') \<Longrightarrow> pipe_step s (s\<lparr>pi_db := d'\<rparr>)"
| postpone: "pg_ok p (pi_db s) \<Longrightarrow> e \<in> pi_held s \<Longrightarrow> offerable e \<Longrightarrow>
     RecordOutboxFailure p (pi_db s) (oe_ID e) msg = (res, d') \<Longrightarrow> pipe_step s (s\<lparr>pi_db := d'\<rparr>)"
| give_up: "pg_ok p (pi_db s) \<Longrightarrow> e \<in> pi_held s \<Longrightarrow> \<not> moved_on e \<Longrightarrow> out_of_budget e \<Longrightarrow>
     MarkOutboxFailed p (pi_db s) (oe_ID e) msg = (res, d') \<Longrightarrow>
     pipe_step s (s\<lparr>pi_db := d', pi_given_up := insert (j_ID (oe_Job e)) (pi_given_up s)\<rparr>)"
| start: "pg_ok p (pi_db s) \<Longrightarrow> MarkRunning p (pi_db s) j = (res, d') \<Longrightarrow> pipe_step s (s\<lparr>pi_db := d'\<rparr>)"
| finish: "pg_ok p (pi_db s) \<Longrightarrow> MarkFinished p (pi_db s) j ok msg = (res, d') \<Longrightarrow> pipe_step s (s\<lparr>pi_db := d'\<rparr>)"

inductive pipe_reach :: "pipe \<Rightarrow> bool" where
  empty: "pipe_reach \<lparr>pi_db = \<lparr>jobs = [], outbox = []\<rparr>, pi_held = {}, pi_acked = {}, pi_given_up = {}\<rparr>"
| step: "pipe_reach s \<Longrightarrow> pipe_step s s' \<Longrightarrow> pipe_reach s'"

subsection \<open>The invariant\<close>

text \<open>Commands that some relay may still close.\<close>

definition closing :: "pipe \<Rightarrow> string set" where
  "closing s = oe_ID ` (pi_acked s \<union> {e \<in> pi_held s. moved_on e})"

definition has_intent :: "db \<Rightarrow> string set \<Rightarrow> string \<Rightarrow> bool" where
  "has_intent d C j \<longleftrightarrow> (\<exists>c \<in> set (outbox d). o_job_id c = j \<and> o_status c = OutboxPending \<and> o_id c \<notin> C)"

definition pipe_inv :: "pipe \<Rightarrow> bool" where
  "pipe_inv s \<longleftrightarrow> wf_db (pi_db s)
     \<and> (\<forall>e \<in> pi_held s \<union> pi_acked s. \<exists>c \<in> set (outbox (pi_db s)). o_id c = oe_ID e \<and> o_job_id c = j_ID (oe_Job e))
     \<and> (\<forall>r \<in> set (jobs (pi_db s)). r_status r = StatusPending \<longrightarrow>
          r_id r \<in> pi_given_up s \<or> has_intent (pi_db s) (closing s) (r_id r))"

lemma pipe_invD:
  assumes "pipe_inv s"
  shows "wf_db (pi_db s)"
    and "e \<in> pi_held s \<union> pi_acked s \<Longrightarrow> \<exists>c \<in> set (outbox (pi_db s)). o_id c = oe_ID e \<and> o_job_id c = j_ID (oe_Job e)"
    and "r \<in> set (jobs (pi_db s)) \<Longrightarrow> r_status r = StatusPending \<Longrightarrow>
          r_id r \<in> pi_given_up s \<or> has_intent (pi_db s) (closing s) (r_id r)"
  using assms unfolding pipe_inv_def by blast+

lemma closing_ids: "pipe_inv s \<Longrightarrow> closing s \<subseteq> o_id ` set (outbox (pi_db s))"
proof
  fix c
  assume inv: "pipe_inv s" and "c \<in> closing s"
  then obtain e where "e \<in> pi_held s \<union> pi_acked s" "c = oe_ID e" by (auto simp: closing_def)
  with pipe_invD(2) [OF inv] show "c \<in> o_id ` set (outbox (pi_db s))" by force
qed

lemma pg_ok_uuid: "pg_ok p d \<Longrightarrow> u \<in> ids d \<Longrightarrow> pg_uuid_in p u = Some u"
  by (simp add: pg_ok_def)

lemma command_unique:
  "wf_db d \<Longrightarrow> c \<in> set (outbox d) \<Longrightarrow> c' \<in> set (outbox d) \<Longrightarrow> o_id c = o_id c' \<Longrightarrow> c = c'"
  by (auto simp: wf_db_def distinct_map dest: inj_onD)

lemma job_unique: "wf_db d \<Longrightarrow> r \<in> set (jobs d) \<Longrightarrow> r' \<in> set (jobs d) \<Longrightarrow> r_id r = r_id r' \<Longrightarrow> r = r'"
  by (auto simp: wf_db_def distinct_map dest: inj_onD)

text \<open>
  A write to one job that does not make it pending, while the commands that may be closed grow by
  commands of jobs that are then not pending.
\<close>

lemma inv_job_write:
  assumes inv: "pipe_inv s" and db: "pi_db s' = pi_db s \<or> pi_db s' = on_job u f (pi_db s)"
    and f: "\<And>r. r_id (f r) = r_id r" "\<And>r. r_status (f r) \<in> job_statuses" "\<And>r. r_status (f r) \<noteq> StatusPending"
    and held: "\<forall>e \<in> pi_held s' \<union> pi_acked s'. \<exists>c \<in> set (outbox (pi_db s)). o_id c = oe_ID e \<and> o_job_id c = j_ID (oe_Job e)"
    and grow: "\<And>e r. oe_ID e \<in> closing s' - closing s \<Longrightarrow> e \<in> pi_held s' \<union> pi_acked s' \<Longrightarrow> r \<in> set (jobs (pi_db s')) \<Longrightarrow>
        r_id r = j_ID (oe_Job e) \<Longrightarrow> r_status r \<noteq> StatusPending"
    and given: "pi_given_up s' = pi_given_up s"
  shows "pipe_inv s'"
proof -
  note wf = pipe_invD(1) [OF inv]
  have ob: "outbox (pi_db s') = outbox (pi_db s)" using db by auto
  have wf': "wf_db (pi_db s')" using db wf wf_db_on_job [OF wf f(1,2)] by auto
  have "r_id r \<in> pi_given_up s' \<or> has_intent (pi_db s') (closing s') (r_id r)"
    if r: "r \<in> set (jobs (pi_db s'))" "r_status r = StatusPending" for r
  proof -
    have "r \<in> set (jobs (pi_db s))" using db r f(3) by (auto elim!: on_job_rowE)
    then consider "r_id r \<in> pi_given_up s" | "has_intent (pi_db s) (closing s) (r_id r)"
      using pipe_invD(3) [OF inv] r(2) by blast
    then show ?thesis
    proof cases
      case 2
      then obtain c where c: "c \<in> set (outbox (pi_db s))" "o_job_id c = r_id r" "o_status c = OutboxPending" "o_id c \<notin> closing s"
        by (auto simp: has_intent_def)
      have "o_id c \<notin> closing s'"
      proof
        assume cl: "o_id c \<in> closing s'"
        then have "\<exists>e \<in> pi_held s' \<union> pi_acked s'. oe_ID e = o_id c" by (force simp: closing_def)
        then obtain e where e: "e \<in> pi_held s' \<union> pi_acked s'" "oe_ID e = o_id c" by blast
        with held obtain c' where "c' \<in> set (outbox (pi_db s))" "o_id c' = oe_ID e" "o_job_id c' = j_ID (oe_Job e)" by blast
        with command_unique [OF wf c(1)] e(2) c(2) have "r_id r = j_ID (oe_Job e)" by metis
        from grow [OF _ e(1) r(1) this] cl c(4) e(2) r(2) show False by simp
      qed
      then show ?thesis using c ob by (auto simp: has_intent_def)
    qed (simp add: given)
  qed
  with wf' held ob show ?thesis by (simp add: pipe_inv_def)
qed

text \<open>A write to one command that keeps its status, or closes a command that may be closed, or gives its job up.\<close>

lemma command_write_row:
  assumes "d' = d \<or> d' = on_command u f d" "\<And>c. o_id (f c) = o_id c" "\<And>c. o_job_id (f c) = o_job_id c" "c \<in> set (outbox d)"
  shows "\<exists>c' \<in> set (outbox d'). o_id c' = o_id c \<and> o_job_id c' = o_job_id c \<and> (c' = c \<or> o_id c = u \<and> c' = f c)"
proof (cases "d' = d")
  case False
  then have "(if o_id c = u then f c else c) \<in> set (outbox d')" using assms(1,4) by auto
  then show ?thesis using assms(2,3) by (metis (full_types))
qed (use assms(4) in auto)

lemma inv_command_write:
  assumes inv: "pipe_inv s" and db: "pi_db s' = pi_db s \<or> pi_db s' = on_command u f (pi_db s)"
    and f: "\<And>c. o_id (f c) = o_id c" "\<And>c. o_job_id (f c) = o_job_id c"
      "\<And>c. o_status c \<in> outbox_statuses \<Longrightarrow> o_status (f c) \<in> outbox_statuses"
    and same: "pi_held s' = pi_held s" "pi_acked s' = pi_acked s" "pi_given_up s \<subseteq> pi_given_up s'"
    and why: "(\<forall>c. o_status (f c) = o_status c) \<or> u \<in> closing s
      \<or> (\<forall>c \<in> set (outbox (pi_db s)). o_id c = u \<longrightarrow> o_job_id c \<in> pi_given_up s')"
  shows "pipe_inv s'"
proof -
  note wf = pipe_invD(1) [OF inv]
  have wf': "wf_db (pi_db s')" using db wf wf_db_on_command [OF wf f] by auto
  have jb: "jobs (pi_db s') = jobs (pi_db s)" using db by auto
  note row = command_write_row [OF db f(1,2)]
  have cl: "closing s' = closing s" by (simp add: closing_def same(1,2))
  have "r_id r \<in> pi_given_up s' \<or> has_intent (pi_db s') (closing s') (r_id r)"
    if r: "r \<in> set (jobs (pi_db s))" "r_status r = StatusPending" for r
  proof (cases "r_id r \<in> pi_given_up s")
    case False
    with pipe_invD(3) [OF inv r] obtain c where
      c: "c \<in> set (outbox (pi_db s))" "o_job_id c = r_id r" "o_status c = OutboxPending" "o_id c \<notin> closing s"
      by (auto simp: has_intent_def)
    from row [OF c(1)] obtain c' where c': "c' \<in> set (outbox (pi_db s'))" "o_id c' = o_id c" "o_job_id c' = o_job_id c"
        "c' = c \<or> o_id c = u \<and> c' = f c" by blast
    show ?thesis
    proof (cases "o_status c' = OutboxPending")
      case True
      then show ?thesis using c c' cl by (auto simp: has_intent_def)
    next
      case ch: False
      then have "o_id c = u" "o_status (f c) \<noteq> o_status c" using c' c(3) by auto
      then show ?thesis using why c by auto
    qed
  qed (use same(3) in blast)
  moreover have "\<forall>e \<in> pi_held s' \<union> pi_acked s'. \<exists>c \<in> set (outbox (pi_db s')). o_id c = oe_ID e \<and> o_job_id c = j_ID (oe_Job e)"
  proof
    fix e
    assume "e \<in> pi_held s' \<union> pi_acked s'"
    then obtain c where "c \<in> set (outbox (pi_db s))" "o_id c = oe_ID e" "o_job_id c = j_ID (oe_Job e)"
      using pipe_invD(2) [OF inv, of e] unfolding same(1,2) by blast
    with row [of c] show "\<exists>c \<in> set (outbox (pi_db s')). o_id c = oe_ID e \<and> o_job_id c = j_ID (oe_Job e)" by metis
  qed
  ultimately show ?thesis using wf' jb by (simp add: pipe_inv_def)
qed

text \<open>The two transactions: what becomes pending gets a fresh command.\<close>

lemma inv_transaction:
  assumes inv: "pipe_inv s" and wf': "wf_db d'"
    and ob: "outbox d' = outbox (pi_db s) @ cs" and fresh: "\<forall>c \<in> set cs. o_id c \<notin> ids (pi_db s) \<and> o_status c = OutboxPending"
    and jb: "\<And>r. r \<in> set (jobs d') \<Longrightarrow> r_status r = StatusPending \<Longrightarrow> r \<in> set (jobs (pi_db s)) \<or> r_id r \<in> o_job_id ` set cs"
  shows "pipe_inv (s\<lparr>pi_db := d'\<rparr>)"
proof -
  let ?s = "s\<lparr>pi_db := d'\<rparr>"
  have cl: "closing ?s = closing s" by (simp add: closing_def)
  have "r_id r \<in> pi_given_up s \<or> has_intent d' (closing s) (r_id r)" if "r \<in> set (jobs d')" "r_status r = StatusPending" for r
  proof (cases "r_id r \<in> o_job_id ` set cs")
    case True
    then obtain c where c: "c \<in> set cs" "o_job_id c = r_id r" by auto
    then have "o_id c \<notin> closing s" using fresh closing_ids [OF inv] by (auto simp: ids_def)
    with c fresh ob show ?thesis by (auto simp: has_intent_def)
  next
    case False
    with jb [OF that] pipe_invD(3) [OF inv _ that(2)] ob show ?thesis by (auto simp: has_intent_def)
  qed
  then show ?thesis using wf' pipe_invD(2) [OF inv] ob cl by (fastforce simp: pipe_inv_def)
qed

lemma inv_submit:
  assumes "pipe_inv s" "pg_ok p (pi_db s)" "CreateJobWithOutbox p (pi_db s) name body = (res, d')"
  shows "pipe_inv (s\<lparr>pi_db := d'\<rparr>)"
proof -
  have "pg_uuid_in p (pg_new_id p 1) = Some (pg_new_id p 1)" using assms(2) by (simp add: pg_ok_def)
  from this assms(3) show ?thesis
  proof (cases rule: CreateJobWithOutbox_cases)
    case both
    have "wf_db d'" using wf_CreateJobWithOutbox [OF pipe_invD(1) [OF assms(1)] assms(2), of name body] assms(3) by simp
    then show ?thesis using both(1) assms(2)
      by (intro inv_transaction [OF assms(1), where cs = "[new_outbox_row p (pg_new_id p 2) (pg_new_id p 1)]"])
        (auto simp: with_new_job_def new_outbox_row_def new_job_row_def pg_ok_def)
  qed (use assms(1) in simp)
qed

lemma inv_reclaim:
  assumes "pipe_inv s" "pg_ok p (pi_db s)" "ReclaimJobs p (pi_db s) w = (res, d')"
  shows "pipe_inv (s\<lparr>pi_db := d'\<rparr>)"
proof -
  have "\<forall>r \<in> set (jobs (pi_db s)). pg_uuid_in p (r_id r) = Some (r_id r)" using assms(2) by (simp add: pg_ok_def ids_def)
  from this assms(3) show ?thesis
  proof (cases rule: ReclaimJobs_cases)
    case both
    let ?cs = "new_commands p 3 (map r_id (reclaimed p w (pi_db s)))"
    have "wf_db d'" using wf_ReclaimJobs [OF pipe_invD(1) [OF assms(1)] assms(2), of w] assms(3) by simp
    moreover have "\<forall>c \<in> set ?cs. o_id c \<notin> ids (pi_db s) \<and> o_status c = OutboxPending"
      using set_new_commands assms(2) unfolding pg_ok_def by metis
    moreover have "o_job_id ` set ?cs = r_id ` {r \<in> set (jobs (pi_db s)). in_flight_of w r}"
      using arg_cong [OF new_commands_job_ids [of p 3 "map r_id (reclaimed p w (pi_db s))"], of set]
      by (simp only: set_map set_reclaimed)
    ultimately show ?thesis using both(1)
      by (intro inv_transaction [OF assms(1), where cs = ?cs]) (auto simp: with_reclaimed_def split: if_splits)
  qed (use assms(1) in simp)
qed

lemma entry_job_row:
  assumes "wf_db d" "ClaimOutbox p d n = Inr es" "e \<in> set es"
  shows "\<exists>c \<in> set (outbox d). o_id c = oe_ID e \<and> o_job_id c = j_ID (oe_Job e)"
    and "r \<in> set (jobs d) \<Longrightarrow> r_id r = j_ID (oe_Job e) \<Longrightarrow> r_status r = j_Status (oe_Job e)"
proof -
  from ClaimOutbox_entry [OF assms(2,3)] obtain c j where
    cj: "c \<in> set (outbox d)" "j \<in> set (jobs d)" "r_id j = o_job_id c" "oe_ID e = o_id c" "oe_Job e = job_of_row j" by metis
  then show "\<exists>c \<in> set (outbox d). o_id c = oe_ID e \<and> o_job_id c = j_ID (oe_Job e)" by auto
  show "r \<in> set (jobs d) \<Longrightarrow> r_id r = j_ID (oe_Job e) \<Longrightarrow> r_status r = j_Status (oe_Job e)"
    using job_unique [OF assms(1) _ cj(2), of r] cj(5) by auto
qed

lemma inv_claim:
  assumes inv: "pipe_inv s" and es: "ClaimOutbox p (pi_db s) n = Inr es"
  shows "pipe_inv (s\<lparr>pi_held := pi_held s \<union> set es\<rparr>)"
proof -
  let ?s = "s\<lparr>pi_held := pi_held s \<union> set es\<rparr>"
  note wf = pipe_invD(1) [OF inv]
  have held: "\<exists>c \<in> set (outbox (pi_db s)). o_id c = oe_ID e \<and> o_job_id c = j_ID (oe_Job e)"
    if "e \<in> pi_held ?s \<union> pi_acked ?s" for e
    using that pipe_invD(2) [OF inv] entry_job_row(1) [OF wf es] by auto
  show ?thesis
  proof (rule inv_job_write [OF inv, where f = "\<lambda>r. r\<lparr>r_status := StatusRunning\<rparr>"])
    fix e r
    assume e: "oe_ID e \<in> closing ?s - closing s" "e \<in> pi_held ?s \<union> pi_acked ?s"
      and r: "r \<in> set (jobs (pi_db ?s))" "r_id r = j_ID (oe_Job e)"
    from e(1) obtain e' where e': "e' \<in> set es" "moved_on e'" "oe_ID e' = oe_ID e" by (auto simp: closing_def)
    obtain c where c: "c \<in> set (outbox (pi_db s))" "o_id c = oe_ID e'" "o_job_id c = j_ID (oe_Job e')"
      using entry_job_row(1) [OF wf es e'(1)] by blast
    obtain c' where "c' \<in> set (outbox (pi_db s))" "o_id c' = oe_ID e" "o_job_id c' = j_ID (oe_Job e)" using held [OF e(2)] by blast
    with command_unique [OF wf c(1)] c e'(3) have "j_ID (oe_Job e) = j_ID (oe_Job e')" by metis
    with entry_job_row(2) [OF wf es e'(1), of r] r e'(2) show "r_status r \<noteq> StatusPending" by (simp add: moved_on_def)
  qed (use held in \<open>auto simp: job_statuses_def status_defs\<close>)
qed

text \<open>Job writes with nothing else changed.\<close>

lemma inv_job_update:
  assumes "pipe_inv s" "job_update F p i f" "F (pi_db s) = (res, d')"
    and "\<And>r. r_id (f r) = r_id r" "\<And>r. r_status (f r) \<in> job_statuses" "\<And>r. r_status (f r) \<noteq> StatusPending"
  shows "pipe_inv (s\<lparr>pi_db := d'\<rparr>)"
proof -
  obtain u where "d' = pi_db s \<or> d' = on_job u f (pi_db s)" using assms(2,3) by (rule job_updateE) auto
  then show ?thesis
    by (intro inv_job_write [OF assms(1), of _ u f]) (use assms pipe_invD(2) [OF assms(1)] in \<open>auto simp: closing_def\<close>)
qed

lemma inv_accept:
  assumes inv: "pipe_inv s" and pg: "pg_ok p (pi_db s)" and e: "e \<in> pi_held s"
    and m: "MarkScheduled p (pi_db s) (j_ID (oe_Job e)) w = (Inr (), d')"
  shows "pipe_inv (s\<lparr>pi_db := d', pi_acked := insert e (pi_acked s)\<rparr>)"
proof -
  let ?s = "s\<lparr>pi_db := d', pi_acked := insert e (pi_acked s)\<rparr>" and ?j = "j_ID (oe_Job e)"
  let ?f = "\<lambda>r. r\<lparr>r_status := StatusScheduled, r_assigned_worker_id := Some w, r_updated_at := pg_now p\<rparr>"
  note wf = pipe_invD(1) [OF inv]
  have held: "\<exists>c \<in> set (outbox (pi_db s)). o_id c = oe_ID x \<and> o_job_id c = j_ID (oe_Job x)" if "x \<in> pi_held ?s \<union> pi_acked ?s" for x
    using that pipe_invD(2) [OF inv, of x] e pipe_invD(2) [OF inv, of e] by auto
  obtain c where c: "c \<in> set (outbox (pi_db s))" "o_id c = oe_ID e" "o_job_id c = ?j" using pipe_invD(2) [OF inv, of e] e by auto
  have "o_job_id c \<in> r_id ` set (jobs (pi_db s))" using wf c(1) by (simp add: wf_db_def)
  then have "?j \<in> ids (pi_db s)" using c(3) by (simp add: ids_def)
  then have u: "pg_uuid_in p ?j = Some ?j" by (rule pg_ok_uuid [OF pg])
  have d': "d' = on_job ?j ?f (pi_db s)" using MarkScheduled_update m u by (cases rule: job_updateE) auto
  show ?thesis
  proof (rule inv_job_write [OF inv, where u = ?j and f = ?f])
    fix x r
    assume x: "oe_ID x \<in> closing ?s - closing s" "x \<in> pi_held ?s \<union> pi_acked ?s"
      and r: "r \<in> set (jobs (pi_db ?s))" "r_id r = j_ID (oe_Job x)"
    from x(1) have "oe_ID x = oe_ID e" by (auto simp: closing_def)
    moreover obtain c' where "c' \<in> set (outbox (pi_db s))" "o_id c' = oe_ID x" "o_job_id c' = j_ID (oe_Job x)" using held [OF x(2)] by blast
    ultimately have "j_ID (oe_Job x) = ?j" using command_unique [OF wf c(1)] c by metis
    with r d' show "r_status r \<noteq> StatusPending" by (auto simp: status_defs elim!: on_job_rowE)
  qed (use held d' in \<open>auto simp: job_statuses_def status_defs\<close>)
qed

lemma inv_command_update:
  assumes "pipe_inv s" "command_update F p i f" "F (pi_db s) = (res, d')" "pg_ok p (pi_db s)"
    and e: "e \<in> pi_held s \<union> pi_acked s" "i = oe_ID e"
    and f: "\<And>c. o_id (f c) = o_id c" "\<And>c. o_job_id (f c) = o_job_id c"
      "\<And>c. o_status c \<in> outbox_statuses \<Longrightarrow> o_status (f c) \<in> outbox_statuses"
    and s': "s' = s\<lparr>pi_db := d', pi_given_up := G\<rparr>" "pi_given_up s \<subseteq> G"
    and why: "(\<forall>c. o_status (f c) = o_status c) \<or> oe_ID e \<in> closing s \<or> j_ID (oe_Job e) \<in> G"
  shows "pipe_inv s'"
proof -
  note wf = pipe_invD(1) [OF assms(1)]
  obtain c where c: "c \<in> set (outbox (pi_db s))" "o_id c = oe_ID e" "o_job_id c = j_ID (oe_Job e)"
    using pipe_invD(2) [OF assms(1) e(1)] by blast
  have "oe_ID e \<in> o_id ` set (outbox (pi_db s))" using c(1,2) by (metis imageI)
  then have u: "pg_uuid_in p i = Some i" using e(2) by (intro pg_ok_uuid [OF assms(4)]) (simp add: ids_def)
  have d': "d' = pi_db s \<or> d' = on_command i f (pi_db s)" using assms(2,3) by (rule command_updateE) (use u in auto)
  have "\<forall>c' \<in> set (outbox (pi_db s)). o_id c' = i \<longrightarrow> o_job_id c' = j_ID (oe_Job e)"
    using command_unique [OF wf c(1)] c e(2) by metis
  with why e(2) have "(\<forall>c. o_status (f c) = o_status c) \<or> i \<in> closing s
      \<or> (\<forall>c \<in> set (outbox (pi_db s)). o_id c = i \<longrightarrow> o_job_id c \<in> G)" by auto
  then show ?thesis using d' s' by (intro inv_command_write [OF assms(1) _ f, where u = i]) simp_all
qed

lemma pipe_inv_step:
  assumes "pipe_inv s" "pipe_step s s'"
  shows "pipe_inv s'"
  using assms(2)
proof cases
  case (submit p name body res d')
  then show ?thesis using inv_submit [OF assms(1)] by blast
next
  case (reclaim p w res d')
  then show ?thesis using inv_reclaim [OF assms(1)] by blast
next
  case (claim p n es)
  then show ?thesis using inv_claim [OF assms(1)] by blast
next
  case (reconcile p e res d')
  then have "oe_ID e \<in> closing s" by (auto simp: closing_def)
  with reconcile show ?thesis
    by (intro inv_command_update [OF assms(1) MarkOutboxDispatched_update reconcile(5,2), where G = "pi_given_up s"])
      (auto simp: outbox_statuses_def)
next
  case (offer p e w res d')
  show ?thesis unfolding offer(1)
    by (rule inv_job_update [OF assms(1) MarkScheduled_update offer(5)]) (auto simp: job_statuses_def status_defs)
next
  case (accept p e w d')
  then show ?thesis using inv_accept [OF assms(1)] by blast
next
  case (mark p e res d')
  then have "oe_ID e \<in> closing s" by (auto simp: closing_def)
  with mark show ?thesis
    by (intro inv_command_update [OF assms(1) MarkOutboxDispatched_update mark(4,2), where G = "pi_given_up s"])
      (auto simp: outbox_statuses_def)
next
  case (postpone p e msg res d')
  then show ?thesis
    by (intro inv_command_update [OF assms(1) RecordOutboxFailure_update postpone(5,2), where G = "pi_given_up s"])
      (auto simp: outbox_statuses_def)
next
  case (give_up p e msg res d')
  then show ?thesis
    by (intro inv_command_update [OF assms(1) MarkOutboxFailed_update give_up(6,2), where G = "insert (j_ID (oe_Job e)) (pi_given_up s)"])
      (auto simp: outbox_statuses_def)
next
  case (start p j res d')
  show ?thesis unfolding start(1)
    by (rule inv_job_update [OF assms(1) MarkRunning_update start(3)]) (auto simp: job_statuses_def status_defs)
next
  case (finish p j ok msg res d')
  show ?thesis unfolding finish(1)
    by (rule inv_job_update [OF assms(1) MarkFinished_update finish(3)]) (auto simp: job_statuses_def status_defs)
qed

lemma pipe_inv_reach: "pipe_reach s \<Longrightarrow> pipe_inv s"
proof (induction rule: pipe_reach.induct)
  case empty
  then show ?case by (simp add: pipe_inv_def wf_db_empty)
next
  case (step s s')
  then show ?case using pipe_inv_step by blast
qed

text \<open>
  C1 The intent to run a job is never lost.  In every reachable state, whatever crashes, fails,
  loses answers or is done twice, a job that is pending and was not given up has a pending dispatch
  command that no relay is about to close: the next healthy sweep will see it.
\<close>

theorem intent_never_lost:
  assumes "pipe_reach s" "r \<in> set (jobs (pi_db s))" "r_status r = StatusPending" "r_id r \<notin> pi_given_up s"
  shows "\<exists>c \<in> set (outbox (pi_db s)). o_job_id c = r_id r \<and> o_status c = OutboxPending
     \<and> (\<forall>e \<in> pi_acked s. oe_ID e \<noteq> o_id c) \<and> (\<forall>e \<in> pi_held s. oe_ID e = o_id c \<longrightarrow> j_Status (oe_Job e) = StatusPending)"
proof -
  from pipe_invD(3) [OF pipe_inv_reach [OF assms(1)] assms(2,3)] assms(4)
  obtain c where c: "c \<in> set (outbox (pi_db s))" "o_job_id c = r_id r" "o_status c = OutboxPending" "o_id c \<notin> closing s"
    by (auto simp: has_intent_def)
  have "\<forall>e \<in> pi_acked s. oe_ID e \<noteq> o_id c" using c(4) unfolding closing_def by (metis UnI1 imageI)
  moreover have "\<forall>e \<in> pi_held s. oe_ID e = o_id c \<longrightarrow> j_Status (oe_Job e) = StatusPending"
    using c(4) unfolding closing_def moved_on_def by (metis (mono_tags, lifting) UnI2 imageI mem_Collect_eq)
  ultimately show ?thesis using c by blast
qed

definition ex_pipe0 :: pipe where
  "ex_pipe0 = \<lparr>pi_db = ex_db0, pi_held = {}, pi_acked = {}, pi_given_up = {}\<rparr>"

lemma pipe_reach_ex0: "pipe_reach ex_pipe0"
  using pipe_reach.empty by (simp add: ex_pipe0_def ex_db0_def)

theorem intent_never_lost_witness:
  "\<exists>s r. pipe_reach s \<and> jobs (pi_db s) = [r] \<and> r_status r = StatusPending
     \<and> (\<exists>c \<in> set (outbox (pi_db s)). o_job_id c = r_id r \<and> o_status c = OutboxPending)"
proof -
  obtain res d' where c: "CreateJobWithOutbox ex_pg (pi_db ex_pipe0) ''demo'' [] = (res, d')" by fastforce
  let ?s = "ex_pipe0\<lparr>pi_db := d'\<rparr>"
  have "pg_ok ex_pg (pi_db ex_pipe0)" using ex_pg_ok by (simp add: ex_pipe0_def)
  from pipe_reach.step [OF pipe_reach_ex0 pipe_step.submit [OF this c]] have r: "pipe_reach ?s" .
  have "map r_status (jobs (snd (CreateJobWithOutbox ex_pg (pi_db ex_pipe0) ''demo'' []))) = [StatusPending]" by code_simp
  then obtain row where row: "jobs (pi_db ?s) = [row]" "r_status row = StatusPending" using c by (auto simp: map_eq_Cons_conv)
  moreover have "pi_given_up ?s = {}" by (simp add: ex_pipe0_def)
  with row have "\<exists>c \<in> set (outbox (pi_db ?s)). o_job_id c = r_id row \<and> o_status c = OutboxPending"
    using intent_never_lost [OF r, of row] by auto
  ultimately show ?thesis using r by blast
qed

subsection \<open>The relay code makes only pipeline steps\<close>

definition pipe_of :: "OutboxEntry set \<Rightarrow> OutboxEntry set \<Rightarrow> string set \<Rightarrow> world \<Rightarrow> pipe" where
  "pipe_of H A G w = \<lparr>pi_db = wd_db w, pi_held = H, pi_acked = A, pi_given_up = G\<rparr>"

lemma pipe_of_upd [simp]:
  "(pipe_of H A G w)\<lparr>pi_db := d\<rparr> = \<lparr>pi_db = d, pi_held = H, pi_acked = A, pi_given_up = G\<rparr>"
  "pi_db (pipe_of H A G w) = wd_db w" "pi_held (pipe_of H A G w) = H" "pi_acked (pipe_of H A G w) = A"
  "pi_given_up (pipe_of H A G w) = G"
  by (simp_all add: pipe_of_def)

text \<open>Every store call to come has fresh and readable ids; it may fail in any way.\<close>

definition env_ok :: "world \<Rightarrow> bool" where
  "env_ok w \<longleftrightarrow> (\<forall>n \<ge> wd_tick w. pg_ok (en_pg (wd_env w n)) (wd_db w))"

lemma env_ok_now: "env_ok w \<Longrightarrow> pg_ok (en_pg (env_of w)) (wd_db w)"
  by (simp add: env_ok_def env_of_def)

lemma env_ok_step:
  "env_ok w \<Longrightarrow> ids (wd_db w') = ids (wd_db w) \<Longrightarrow> wd_env w' = wd_env w \<Longrightarrow> wd_tick w \<le> wd_tick w' \<Longrightarrow> env_ok w'"
  by (simp add: env_ok_def pg_ok_def)

lemma ids_job_update:
  assumes "job_update F p i f" "F d = (res, d')" "\<And>r. r_id (f r) = r_id r"
  shows "ids d' = ids d"
  using job_update_frame [OF assms] by (intro ids_same) (auto simp: list_all2_conv_all_nth intro!: nth_equalityI)

lemma ids_command_update:
  assumes "command_update F p i f" "F d = (res, d')" "\<And>c. o_id (f c) = o_id c"
  shows "ids d' = ids d"
  using assms(1,2)
proof (cases rule: command_updateE)
  case (row u)
  have "map o_id (outbox d') = map o_id (outbox d)" unfolding row(2) by (simp add: assms(3))
  then show ?thesis unfolding row(2) by (intro ids_same) simp_all
qed simp

text \<open>One RPC: nothing, or the worker's write of the acceptance, which succeeded if the answer says so.\<close>

lemma worker_client_write:
  assumes "worker_client addr req w = (res, w')"
  obtains (none) "wd_db w' = wd_db w" "isl res" "wd_env w' = wd_env w" "wd_tick w \<le> wd_tick w'"
  | (wrote) r inst where "MarkScheduled (en_pg (env_of w)) (wd_db w) (xr_JobId req) inst = (r, wd_db w')"
      "\<not> isl res \<Longrightarrow> r = Inr ()" "wd_env w' = wd_env w" "wd_tick w \<le> wd_tick w'"
proof (cases "wd_servers w addr = None \<or> (\<exists>e. en_rpc (env_of w) = Failed e)")
  case True
  with assms have "w' = ticked w" "isl res" by (auto simp: worker_client_def split: option.splits)
  then show ?thesis by (intro none) simp_all
next
  case False
  then obtain s where s: "wd_servers w addr = Some s" by auto
  obtain r st s' d' where x: "ExecuteJob (en_pg (env_of w)) s (wd_db w) req = (r, st, s', d')" by (metis prod_cases4)
  with False s assms have w': "wd_db w' = d'" "wd_env w' = wd_env w" "wd_tick w \<le> wd_tick w'" "\<not> isl res \<Longrightarrow> \<not> isl r"
    by (auto simp: worker_client_def split: trip.splits)
  obtain r1 d1 where m: "MarkScheduled (en_pg (env_of w)) (wd_db w) (xr_JobId req) (ws_instance s) = (r1, d1)" by fastforce
  consider "d' = wd_db w" "isl r" | "d' = d1" "\<not> isl r \<Longrightarrow> r1 = Inr ()"
    using x m by (cases "xr_JobId req = []"; cases "sint (ws_capacity s) \<le> sint (ws_inflightN s)"; cases r1)
      (auto simp: ExecuteJob_def Let_def)
  then show ?thesis
  proof cases
    case 1
    with w' show ?thesis by (intro none) auto
  next
    case 2
    with w' m show ?thesis by (intro wrote [of "ws_instance s" r1]) auto
  qed
qed

lemma client_sim:
  assumes "env_ok w" "e \<in> H" "offerable e" "worker_client addr (request_of (oe_Job e)) w = (res, w')"
  shows "env_ok w' \<and> pipe_step\<^sup>*\<^sup>* (pipe_of H A G w) (pipe_of H A G w')
       \<and> (\<not> isl res \<longrightarrow> pipe_step\<^sup>*\<^sup>* (pipe_of H A G w) (pipe_of H (insert e A) G w'))"
  using assms(4)
proof (cases rule: worker_client_write)
  case none
  then show ?thesis using env_ok_step [OF assms(1), of w'] by (simp add: pipe_of_def)
next
  case (wrote r inst)
  let ?p = "en_pg (env_of w)"
  have req: "xr_JobId (request_of (oe_Job e)) = j_ID (oe_Job e)" by (simp add: request_of_def)
  have "ids (wd_db w') = ids (wd_db w)" by (rule ids_job_update [OF MarkScheduled_update wrote(1)]) simp
  then have "env_ok w'" using wrote env_ok_step [OF assms(1)] by simp
  moreover have "pipe_step (pipe_of H A G w) (pipe_of H A G w')"
    using pipe_step.offer [of ?p "pipe_of H A G w" e inst r "wd_db w'"] assms wrote(1) env_ok_now [OF assms(1)] req
    by (simp add: pipe_of_def)
  moreover have "pipe_step (pipe_of H A G w) (pipe_of H (insert e A) G w')" if "\<not> isl res"
    using pipe_step.accept [of ?p "pipe_of H A G w" e inst "wd_db w'"] assms wrote(1,2) that env_ok_now [OF assms(1)] req
    by (simp add: pipe_of_def)
  ultimately show ?thesis by blast
qed

lemma offers_sim:
  assumes "e \<in> H" "offerable e" "\<forall>x \<in> set ws. \<exists>addr. dw_client x = worker_client addr"
  shows "env_ok w \<Longrightarrow> offer_all (request_of (oe_Job e)) ws le w = (res, w') \<Longrightarrow>
       env_ok w' \<and> pipe_step\<^sup>*\<^sup>* (pipe_of H A G w) (pipe_of H A G w')
       \<and> (\<not> isl res \<longrightarrow> pipe_step\<^sup>*\<^sup>* (pipe_of H A G w) (pipe_of H (insert e A) G w'))"
  using assms(3)
proof (induction ws arbitrary: w le)
  case Nil
  then show ?case by auto
next
  case (Cons x ws)
  obtain addr where "dw_client x = worker_client addr" using Cons.prems(3) by auto
  moreover obtain r w1 where c: "worker_client addr (request_of (oe_Job e)) w = (r, w1)" by fastforce
  ultimately have x: "dw_client x (request_of (oe_Job e)) w = (r, w1)" by simp
  note cs = client_sim [OF Cons.prems(1) assms(1,2) c, of A G]
  show ?case
  proof (cases r)
    case (Inl err)
    then have "offer_all (request_of (oe_Job e)) ws (Some err) w1 = (res, w')" using Cons.prems(2) x by simp
    from Cons.IH [OF _ this] Cons.prems(3) cs show ?thesis by (auto intro: rtranclp_trans)
  next
    case (Inr y)
    then show ?thesis using Cons.prems(2) x cs by auto
  qed
qed

lemma Dispatch_sim:
  assumes "rpc_dispatcher disp" "env_ok w" "e \<in> H" "offerable e" "Dispatch disp (oe_Job e) w = (res, disp', w')"
  shows "env_ok w' \<and> pipe_step\<^sup>*\<^sup>* (pipe_of H A G w) (pipe_of H A G w')
       \<and> (\<not> isl res \<longrightarrow> pipe_step\<^sup>*\<^sup>* (pipe_of H A G w) (pipe_of H (insert e A) G w'))"
proof (cases "fst (eligible disp w) = []")
  case True
  then show ?thesis using assms(2,5) by (auto simp: Dispatch_def case_prod_beta Let_def)
next
  case False
  let ?ws = "fst (eligible disp w)"
  obtain r w1 where offers: "offer_all (request_of (oe_Job e)) ?ws None w = (r, w1)" by fastforce
  have "\<forall>x \<in> set ?ws. \<exists>addr. dw_client x = worker_client addr" using rpc_dispatcher_eligible [OF assms(1)] by metis
  note sim = offers_sim [OF assms(3,4) this assms(2) offers, of A G]
  have "w' = w1" "isl res = isl r"
    using assms(5) False offers by (auto simp: Dispatch_def case_prod_beta Let_def split: sum.splits)
  with sim show ?thesis by simp
qed

lemma on_store_ok:
  assumes "on_store f w = (x, w')"
  shows "f (en_pg (env_of w)) (wd_db w) = (x, wd_db w')" "wd_env w' = wd_env w" "wd_tick w \<le> wd_tick w'"
  using assms by (auto simp: on_store_eq)

lemma mark_sim:
  assumes "env_ok w" "e \<in> A \<or> e \<in> H \<and> moved_on e" "on_store (\<lambda>p d. MarkOutboxDispatched p d (oe_ID e)) w = (x, w')"
  shows "env_ok w' \<and> pipe_step (pipe_of H A G w) (pipe_of H A G w')"
proof -
  note st = on_store_ok [OF assms(3)]
  have "ids (wd_db w') = ids (wd_db w)" by (rule ids_command_update [OF MarkOutboxDispatched_update st(1)]) simp
  moreover have "pipe_step (pipe_of H A G w) (pipe_of H A G w')"
    using assms(2) pipe_step.mark [of "en_pg (env_of w)" "pipe_of H A G w" e x "wd_db w'"]
      pipe_step.reconcile [of "en_pg (env_of w)" "pipe_of H A G w" e x "wd_db w'"] st(1) env_ok_now [OF assms(1)]
    by (auto simp: pipe_of_def)
  ultimately show ?thesis using st env_ok_step [OF assms(1)] by simp
qed

lemma abandon_sim:
  assumes "env_ok w" "e \<in> H" "\<not> moved_on e" "out_of_budget e"
  shows "env_ok (abandon (scheduler_relay disp) e m w)
       \<and> pipe_step\<^sup>*\<^sup>* (pipe_of H A G w) (pipe_of H A (insert (j_ID (oe_Job e)) G) (abandon (scheduler_relay disp) e m w))"
proof -
  let ?G = "insert (j_ID (oe_Job e)) G"
  obtain x w1 where 1: "on_store (\<lambda>p d. MarkOutboxFailed p d (oe_ID e) m) w = (x, w1)" by fastforce
  obtain y w2 where 2: "on_store (\<lambda>p d. MarkFinished p d (j_ID (oe_Job e)) False m) w1 = (y, w2)" by fastforce
  note s1 = on_store_ok [OF 1] and s2 = on_store_ok [OF 2]
  have "ids (wd_db w1) = ids (wd_db w)" by (rule ids_command_update [OF MarkOutboxFailed_update s1(1)]) simp
  then have e1: "env_ok w1" using s1 env_ok_step [OF assms(1)] by simp
  have "ids (wd_db w2) = ids (wd_db w1)" by (rule ids_job_update [OF MarkFinished_update s2(1)]) simp
  then have e2: "env_ok w2" using s2 env_ok_step [OF e1] by simp
  have "pipe_step (pipe_of H A G w) (pipe_of H A ?G w1)"
    using pipe_step.give_up [of "en_pg (env_of w)" "pipe_of H A G w" e m x "wd_db w1"] s1(1) env_ok_now [OF assms(1)] assms
    by (simp add: pipe_of_def)
  moreover have "pipe_step (pipe_of H A ?G w1) (pipe_of H A ?G w2)"
    using pipe_step.finish [of "en_pg (env_of w1)" "pipe_of H A ?G w1" "j_ID (oe_Job e)" False m y "wd_db w2"] s2(1) env_ok_now [OF e1]
    by (simp add: pipe_of_def)
  moreover have "abandon (scheduler_relay disp) e m w = w2" using 1 2 by (simp add: abandon_def scheduler_relay_sel)
  ultimately show ?thesis using e2 by auto
qed

lemma placement_sim:
  assumes "env_ok w" "node_ApplyPlacement j i w = (z, w')"
  shows "env_ok w' \<and> pipe_of H A G w' = pipe_of H A G w"
  using assms by (auto simp: node_ApplyPlacement_def env_ok_def pipe_of_def split: option.splits)

lemma offer_sim:
  assumes "rpc_dispatcher disp" "env_ok w" "e \<in> H" and offer: "offerable e"
  shows "\<exists>A' G'. env_ok (handle (scheduler_relay disp) e w)
       \<and> pipe_step\<^sup>*\<^sup>* (pipe_of H A G w) (pipe_of H A' G' (handle (scheduler_relay disp) e w))"
proof -
  let ?R = "scheduler_relay disp"
  have off: "j_Status (oe_Job e) = StatusPending" "\<not> maxExecutionAttempts \<le> j_Attempts (oe_Job e)"
      "\<not> maxDispatchAttempts \<le> oe_Attempts e"
    using offer by (simp_all add: offerable_def moved_on_def out_of_budget_def)
  obtain res disp' w1 where d: "Dispatch disp (oe_Job e) w = (res, disp', w1)" by (metis prod_cases3)
  note ds = Dispatch_sim [OF assms d, of A G]
  show ?thesis
  proof (cases res)
    case (Inl err)
    obtain x w2 where f: "on_store (\<lambda>p d. RecordOutboxFailure p d (oe_ID e) err) w1 = (x, w2)" by fastforce
    note st = on_store_ok [OF f]
    have "handle ?R e w = w2" using off d Inl f by (simp add: handle_def scheduler_relay_sel)
    moreover have "pipe_step (pipe_of H A G w1) (pipe_of H A G w2)"
      using pipe_step.postpone [of "en_pg (env_of w1)" "pipe_of H A G w1" e err x "wd_db w2"] st(1) offer ds env_ok_now [of w1] assms(3)
      by (simp add: pipe_of_def)
    moreover have "ids (wd_db w2) = ids (wd_db w1)" by (rule ids_command_update [OF RecordOutboxFailure_update st(1)]) simp
    then have "env_ok w2" using st ds env_ok_step [of w1 w2] by simp
    ultimately show ?thesis using ds by (auto intro: rtranclp.rtrancl_into_rtrancl)
  next
    case (Inr i)
    obtain x w2 where m: "on_store (\<lambda>p d. MarkOutboxDispatched p d (oe_ID e)) w1 = (x, w2)" by fastforce
    obtain z w3 where p: "node_ApplyPlacement (j_ID (oe_Job e)) i w2 = (z, w3)" by fastforce
    have "handle ?R e w = w3" using off d Inr m p by (simp add: handle_def scheduler_relay_sel)
    moreover have acc: "env_ok w1" "pipe_step\<^sup>*\<^sup>* (pipe_of H A G w) (pipe_of H (insert e A) G w1)" using ds Inr by auto
    moreover from mark_sim [OF acc(1) _ m, of "insert e A" H G]
    have mk: "env_ok w2" "pipe_step (pipe_of H (insert e A) G w1) (pipe_of H (insert e A) G w2)" by auto
    moreover from placement_sim [OF mk(1) p, of H "insert e A" G]
    have "env_ok w3" "pipe_of H (insert e A) G w3 = pipe_of H (insert e A) G w2" by auto
    ultimately show ?thesis by (metis rtranclp.rtrancl_into_rtrancl)
  qed
qed

lemma handle_sim:
  assumes "rpc_dispatcher disp" "env_ok w" "e \<in> H"
  shows "\<exists>A' G'. env_ok (handle (scheduler_relay disp) e w)
       \<and> pipe_step\<^sup>*\<^sup>* (pipe_of H A G w) (pipe_of H A' G' (handle (scheduler_relay disp) e w))"
proof -
  let ?R = "scheduler_relay disp"
  consider (moved) "moved_on e" | (spent) "\<not> moved_on e" "out_of_budget e" | (offer) "offerable e"
    by (auto simp: offerable_def)
  then show ?thesis
  proof cases
    case moved
    obtain x w1 where m: "on_store (\<lambda>p d. MarkOutboxDispatched p d (oe_ID e)) w = (x, w1)" by fastforce
    with moved have "handle ?R e w = w1" by (simp add: handle_def moved_on_def scheduler_relay_sel)
    with mark_sim [OF assms(2) _ m, of A H G] moved assms(3) show ?thesis by blast
  next
    case spent
    then obtain m where "handle ?R e w = abandon ?R e m w"
      by (cases "j_Attempts (oe_Job e) \<ge> maxExecutionAttempts") (auto simp: handle_def moved_on_def out_of_budget_def)
    with abandon_sim [OF assms(2,3) spent] show ?thesis by metis
  qed (rule offer_sim [OF assms])
qed

lemma handles_sim:
  "rpc_dispatcher disp \<Longrightarrow> env_ok w \<Longrightarrow> set es \<subseteq> H \<Longrightarrow>
     \<exists>A' G'. env_ok (fold (handle (scheduler_relay disp)) es w)
       \<and> pipe_step\<^sup>*\<^sup>* (pipe_of H A G w) (pipe_of H A' G' (fold (handle (scheduler_relay disp)) es w))"
proof (induction es arbitrary: w A G)
  case Nil
  then show ?case by auto
next
  case (Cons e es)
  from handle_sim [OF Cons.prems(1,2), of e H A G] Cons.prems(3) obtain A1 G1 where
    1: "env_ok (handle (scheduler_relay disp) e w)"
      "pipe_step\<^sup>*\<^sup>* (pipe_of H A G w) (pipe_of H A1 G1 (handle (scheduler_relay disp) e w))" by auto
  from Cons.IH [OF Cons.prems(1) 1(1), of A1 G1] Cons.prems(3) obtain A2 G2 where
    "env_ok (fold (handle (scheduler_relay disp)) (e # es) w)"
    "pipe_step\<^sup>*\<^sup>* (pipe_of H A1 G1 (handle (scheduler_relay disp) e w)) (pipe_of H A2 G2 (fold (handle (scheduler_relay disp)) (e # es) w))"
    by auto
  with 1(2) show ?case by (meson rtranclp_trans)
qed

text \<open>
  C2 The relay refines the pipeline: a whole sweep of the relay code on the wired scheduler, with
  any failures of the store, the network and the workers, is a sequence of pipeline steps.  So the
  guarantee above holds of the code: closing a command is only ever done for a job that had moved
  on when it was claimed, or after a worker recorded its acceptance.
\<close>

theorem relay_refines_pipeline:
  assumes "scheduler_dispatcher ch workers = Inr disp" "env_ok w"
  shows "\<exists>H' A' G'. pipe_step\<^sup>*\<^sup>* (pipe_of H A G w) (pipe_of H' A' G' (drain (scheduler_relay disp) w))"
proof -
  have disp: "rpc_dispatcher disp" by (rule scheduler_dispatcher_rpc [OF assms(1)])
  let ?c = "ClaimOutbox (en_pg (env_of w)) (wd_db w) drainBatch"
  have st: "on_store (\<lambda>p d. (ClaimOutbox p d drainBatch, d)) w = (?c, ticked w)" by (simp add: on_store_eq ticked_def)
  have db: "pipe_of H' A G (ticked w) = pipe_of H' A G w" for H' by (simp add: pipe_of_def)
  show ?thesis
  proof (cases ?c)
    case (Inl e)
    then have "drain (scheduler_relay disp) w = ticked w" using st by (simp add: drain_def scheduler_relay_sel)
    then show ?thesis using db by (metis rtranclp.rtrancl_refl)
  next
    case (Inr es)
    let ?w = "ticked w" and ?H = "H \<union> set es"
    have "drain (scheduler_relay disp) w = fold (handle (scheduler_relay disp)) es ?w"
      using st Inr by (simp add: drain_def scheduler_relay_sel)
    moreover have "pipe_step (pipe_of H A G w) (pipe_of ?H A G ?w)"
      using pipe_step.claim [of "en_pg (env_of w)" "pipe_of H A G w" drainBatch es] Inr by (simp add: pipe_of_def)
    moreover have "env_ok ?w" using assms(2) by (simp add: env_ok_def)
    from handles_sim [OF disp this, of es ?H A G] obtain A' G' where
      "pipe_step\<^sup>*\<^sup>* (pipe_of ?H A G ?w) (pipe_of ?H A' G' (fold (handle (scheduler_relay disp)) es ?w))" by auto
    ultimately show ?thesis by (metis converse_rtranclp_into_rtranclp)
  qed
qed

lemma env_ok_ex_world: "env_ok ex_world"
  by (auto simp: env_ok_def ex_world_def ex_env_def ex_pg_def pg_ok_def inj_def ids_def ex_db2_def ex_row_def new_outbox_row_def)

theorem relay_refines_pipeline_witness:
  "\<exists>disp H' A' G'. scheduler_dispatcher (\<lambda>_. []) (fmupd ''w1'' ''a'' fmempty) = Inr disp
     \<and> pipe_step\<^sup>*\<^sup>* (pipe_of {} {} {} ex_world) (pipe_of H' A' G' (drain (scheduler_relay disp) ex_world))"
proof -
  let ?new = "scheduler_dispatcher (\<lambda>_. []) (fmupd ''w1'' ''a'' fmempty)"
  have "\<not> isl ?new" by code_simp
  then obtain disp where "?new = Inr disp" by (cases ?new) auto
  with relay_refines_pipeline [OF this env_ok_ex_world, of "{}" "{}" "{}"] show ?thesis by blast
qed

subsection \<open>Two runs of the relay worth knowing\<close>

text \<open>
  Giving a job up is two separate writes.  When the second one fails, the command is closed and the
  job stays pending with no command left: nothing will ever look at it again.
\<close>

definition ex_spent :: OutboxEntry where
  "ex_spent = \<lparr>oe_ID = ''o1'', oe_Attempts = 30, oe_Job = job_of_row (ex_row ''j1'' StatusPending None)\<lparr>j_Attempts := 0\<rparr>\<rparr>"

definition ex_world_fail :: world where
  "ex_world_fail = ex_world\<lparr>wd_env := (\<lambda>n. if n = 1 then ex_env\<lparr>en_pg := ex_pg\<lparr>pg_trip := (\<lambda>_. Failed ''conn'')\<rparr>\<rparr> else ex_env)\<rparr>"

definition ex_no_workers :: "world Dispatcher" where
  "ex_no_workers = \<lparr>dp_workers = [], dp_byName = fmempty, dp_candidates = Some candidates_of, dp_next = 0\<rparr>"

lemma abandon_strands_job:
  "map (\<lambda>r. (r_id r, r_status r)) (jobs (wd_db (handle (scheduler_relay ex_no_workers) ex_spent ex_world_fail)))
     = [(''j1'', StatusPending), (''j2'', StatusPending)]
   \<and> map (\<lambda>c. (o_job_id c, o_status c)) (outbox (wd_db (handle (scheduler_relay ex_no_workers) ex_spent ex_world_fail)))
     = [(''j1'', OutboxFailed), (''j2'', OutboxPending)]"
  by code_simp

text \<open>
  Two pending commands for one job (the first left behind by a relay that crashed after the
  acceptance, the second from the reclaim) are claimed in one batch with the same view of the job:
  one sweep starts the job twice.
\<close>

definition ex_world_twice :: world where
  "ex_world_twice = ex_world\<lparr>wd_db := \<lparr>jobs = [(ex_row ''j1'' StatusPending None)],
       outbox = [new_outbox_row ex_pg ''o1'' ''j1'', new_outbox_row ex_pg ''o2'' ''j1'']\<rparr>,
     wd_servers := (\<lambda>_. None)(''a'' := Some (WorkerServer_New ''w1'' 4 False))\<rparr>"

lemma one_sweep_starts_twice:
  "map_sum (\<lambda>_. ()) (\<lambda>disp. wd_tasks (drain (scheduler_relay disp) ex_world_twice))
     (scheduler_dispatcher (\<lambda>_. []) (fmupd ''w1'' ''a'' fmempty)) = Inr [(''a'', ''j1'', []), (''a'', ''j1'', [])]"
  by code_simp

end
