(* ===== verification/Json.thy ===== *)
theory Json
  imports Prelude
begin

section \<open>JSON texts, as encoding/json reads and writes them\<close>

text \<open>
  The part of Go's \<open>encoding/json\<close> (go 1.23) that the program uses: the placement log and the
  snapshots of \<open>src/internal/raftnode\<close>, the job payload of \<open>src/internal/workersvc\<close>, the request
  body of \<open>src/internal/gatewayhttp\<close>.  A text is a byte string.

  \<^item> \<open>decode_rune\<close> and \<open>encode_rune\<close> are the UTF-8 functions of \<open>unicode/utf8\<close>; a byte that starts
    no valid sequence is the rune U+FFFD of width one.
  \<^item> \<open>quote\<close> is the string encoder with HTML escaping; \<open>p_string\<close> reads a string literal.
  \<^item> \<open>p_value\<close> reads one value and returns the rest of the text.  It has fuel for the recursion and
    the remaining nesting depth (the scanner allows 10000 levels).  \<open>p_value_fuel\<close> shows that
    \<open>2 * length + 2\<close> fuel reads everything that any fuel reads.
  \<^item> A member of an object keeps the exact text of its value, for the types that decode themselves
    (\<open>time.Time\<close>, \<open>json.RawMessage\<close>).
\<close>

definition nat_of_byte :: "char \<Rightarrow> nat" where "nat_of_byte c = of_char c"
definition byte :: "nat \<Rightarrow> char" where "byte n = char_of n"

lemma nat_of_byte_byte [simp]: "n < 256 \<Longrightarrow> nat_of_byte (byte n) = n"
  by (simp add: nat_of_byte_def byte_def)

lemma byte_nat_of_byte [simp]: "byte (nat_of_byte c) = c"
  by (simp add: nat_of_byte_def byte_def)

lemma nat_of_byte_less [simp]: "nat_of_byte c < 256"
  by (simp add: nat_of_byte_def)

lemma nat_of_byte_eq_iff: "nat_of_byte c = nat_of_byte d \<longleftrightarrow> c = d"
  by (simp add: nat_of_byte_def)

subsection \<open>UTF-8\<close>

definition cont :: "char \<Rightarrow> bool" where
  "cont c \<longleftrightarrow> 128 \<le> nat_of_byte c \<and> nat_of_byte c \<le> 191"

definition lo6 :: "char \<Rightarrow> nat" where
  "lo6 c = nat_of_byte c mod 64"

fun decode2 :: "char list \<Rightarrow> (nat \<times> nat) option" where
  "decode2 (a # b # _) =
     (if 194 \<le> nat_of_byte a \<and> nat_of_byte a \<le> 223 \<and> cont b then Some ((nat_of_byte a - 192) * 64 + lo6 b, 2) else None)"
| "decode2 _ = None"

fun decode3 :: "char list \<Rightarrow> (nat \<times> nat) option" where
  "decode3 (a # b # c # _) =
     (if 224 \<le> nat_of_byte a \<and> nat_of_byte a \<le> 239 \<and> cont b \<and> cont c
         \<and> (nat_of_byte a = 224 \<longrightarrow> 160 \<le> nat_of_byte b) \<and> (nat_of_byte a = 237 \<longrightarrow> nat_of_byte b \<le> 159)
      then Some ((nat_of_byte a - 224) * 4096 + lo6 b * 64 + lo6 c, 3) else None)"
| "decode3 _ = None"

fun decode4 :: "char list \<Rightarrow> (nat \<times> nat) option" where
  "decode4 (a # b # c # d # _) =
     (if 240 \<le> nat_of_byte a \<and> nat_of_byte a \<le> 244 \<and> cont b \<and> cont c \<and> cont d
         \<and> (nat_of_byte a = 240 \<longrightarrow> 144 \<le> nat_of_byte b) \<and> (nat_of_byte a = 244 \<longrightarrow> nat_of_byte b \<le> 143)
      then Some ((nat_of_byte a - 240) * 262144 + lo6 b * 4096 + lo6 c * 64 + lo6 d, 4) else None)"
| "decode4 _ = None"

definition RuneError :: nat where "RuneError = 65533"

fun decode_rune :: "string \<Rightarrow> nat \<times> nat" where
  "decode_rune [] = (RuneError, 0)"
| "decode_rune (c # cs) =
     (if nat_of_byte c < 128 then (nat_of_byte c, 1)
      else case decode2 (c # cs) of Some r \<Rightarrow> r
      | None \<Rightarrow> (case decode3 (c # cs) of Some r \<Rightarrow> r
      | None \<Rightarrow> (case decode4 (c # cs) of Some r \<Rightarrow> r
      | None \<Rightarrow> (RuneError, 1))))"

definition encode_rune :: "nat \<Rightarrow> string" where
  "encode_rune r =
     (if r < 128 then [byte r]
      else if r < 2048 then [byte (192 + r div 64), byte (128 + r mod 64)]
      else if 1114111 < r \<or> (55296 \<le> r \<and> r \<le> 57343) then [byte 239, byte 191, byte 189]
      else if r < 65536 then [byte (224 + r div 4096), byte (128 + r div 64 mod 64), byte (128 + r mod 64)]
      else [byte (240 + r div 262144), byte (128 + r div 4096 mod 64), byte (128 + r div 64 mod 64), byte (128 + r mod 64)])"

text \<open>A string is valid when no position starts an invalid sequence.\<close>

function valid_utf8 :: "string \<Rightarrow> bool" where
  "valid_utf8 [] = True"
| "valid_utf8 (c # cs) =
     (case decode_rune (c # cs) of (r, n) \<Rightarrow> \<not> (r = RuneError \<and> n = 1) \<and> valid_utf8 (drop (n - 1) cs))"
  by pat_completeness auto
termination by (relation "measure length") auto

lemma decode_rune_size: "0 < snd (decode_rune (c # cs))" "snd (decode_rune (c # cs)) \<le> length (c # cs)"
proof -
  have "decode2 xs = Some (r, n) \<Longrightarrow> n = 2 \<and> n \<le> length xs" for xs r n
    by (cases xs rule: decode2.cases) (auto split: if_splits)
  moreover have "decode3 xs = Some (r, n) \<Longrightarrow> n = 3 \<and> n \<le> length xs" for xs r n
    by (cases xs rule: decode3.cases) (auto split: if_splits)
  moreover have "decode4 xs = Some (r, n) \<Longrightarrow> n = 4 \<and> n \<le> length xs" for xs r n
    by (cases xs rule: decode4.cases) (auto split: if_splits)
  ultimately show "0 < snd (decode_rune (c # cs))" "snd (decode_rune (c # cs)) \<le> length (c # cs)"
    by (auto split: option.splits simp del: decode2.simps decode3.simps decode4.simps) fastforce+
qed

text \<open>What a multi-byte sequence decodes to encodes back to itself.\<close>

lemma base64: "z < 64 \<Longrightarrow> (q * 64 + z) div 64 = q" "z < 64 \<Longrightarrow> (q * 64 + z) mod 64 = (z :: nat)"
  by simp_all

lemma div64: "(n :: nat) div 4096 = n div 64 div 64" "n div 262144 = n div 64 div 64 div 64"
  by (simp_all flip: div_mult2_eq)

lemma mod64: "128 \<le> (n :: nat) \<Longrightarrow> n \<le> 191 \<Longrightarrow> n mod 64 = n - 128"
  using base64(2) [of "n - 128" 2] by simp

lemma lo6_cont: "cont c \<Longrightarrow> lo6 c = nat_of_byte c - 128"
  by (simp add: cont_def lo6_def mod64)

lemma decode2_encode:
  assumes "decode2 xs = Some (r, n)"
  shows "encode_rune r = take n xs" "128 \<le> r" "r < 2048" "n = 2"
proof -
  from assms obtain a b ys where xs: "xs = a # b # ys" and a: "194 \<le> nat_of_byte a" "nat_of_byte a \<le> 223" and b: "cont b"
    and r: "r = (nat_of_byte a - 192) * 64 + lo6 b" "n = 2"
    by (cases xs rule: decode2.cases) (auto split: if_splits)
  define x y where "x = nat_of_byte a - 192" and "y = nat_of_byte b - 128"
  have x: "nat_of_byte a = 192 + x" "2 \<le> x" "x < 32" and y: "nat_of_byte b = 128 + y" "y < 64"
    using a b by (auto simp: x_def y_def cont_def)
  have r': "r = x * 64 + y" using r b by (simp add: lo6_cont x_def y_def)
  then show "128 \<le> r" "r < 2048" "n = 2" using x y r by simp_all
  have "r div 64 = x" "r mod 64 = y" using y by (simp_all add: r')
  then show "encode_rune r = take n xs"
    using \<open>128 \<le> r\<close> \<open>r < 2048\<close> x(1) y(1) r(2) byte_nat_of_byte [of a] byte_nat_of_byte [of b] by (simp add: encode_rune_def xs)
qed

lemma decode3_encode:
  assumes "decode3 xs = Some (r, n)"
  shows "encode_rune r = take n xs" "2048 \<le> r" "r < 65536" "n = 3"
proof -
  from assms obtain a b c ys where xs: "xs = a # b # c # ys" and a: "224 \<le> nat_of_byte a" "nat_of_byte a \<le> 239"
    and bc: "cont b" "cont c" and e: "nat_of_byte a = 224 \<longrightarrow> 160 \<le> nat_of_byte b" "nat_of_byte a = 237 \<longrightarrow> nat_of_byte b \<le> 159"
    and r: "r = (nat_of_byte a - 224) * 4096 + lo6 b * 64 + lo6 c" "n = 3"
    by (cases xs rule: decode3.cases) (auto split: if_splits)
  define x y z where "x = nat_of_byte a - 224" and "y = nat_of_byte b - 128" and "z = nat_of_byte c - 128"
  have x: "nat_of_byte a = 224 + x" "x < 16" and y: "nat_of_byte b = 128 + y" "y < 64" and z: "nat_of_byte c = 128 + z" "z < 64"
    using a bc by (auto simp: x_def y_def z_def cont_def)
  have e': "x = 0 \<longrightarrow> 32 \<le> y" "x = 13 \<longrightarrow> y \<le> 31" using e x y by auto
  have r': "r = x * 4096 + y * 64 + z" using r bc by (simp add: lo6_cont x_def y_def z_def)
  show "2048 \<le> r" "r < 65536" "n = 3" using e' x y z r r' by (cases "x = 0"; simp)+
  have h: "r = (x * 64 + y) * 64 + z" by (simp add: r')
  have d: "r div 4096 = x" "r div 64 mod 64 = y" "r mod 64 = z"
    unfolding div64 h using y z by (simp_all only: base64)
  have "\<not> (55296 \<le> r \<and> r \<le> 57343)" using e'(2) y z unfolding r' by (cases "x = 13"; cases "x < 13"; simp)
  then show "encode_rune r = take n xs"
    using \<open>2048 \<le> r\<close> \<open>r < 65536\<close> d x(1) y(1) z(1) r(2) byte_nat_of_byte [of a] byte_nat_of_byte [of b] byte_nat_of_byte [of c]
    by (auto simp: encode_rune_def xs)
qed

lemma decode4_encode:
  assumes "decode4 xs = Some (r, n)"
  shows "encode_rune r = take n xs" "65536 \<le> r" "r \<le> 1114111" "n = 4"
proof -
  from assms obtain a b c d ys where xs: "xs = a # b # c # d # ys" and a: "240 \<le> nat_of_byte a" "nat_of_byte a \<le> 244"
    and bc: "cont b" "cont c" "cont d" and e: "nat_of_byte a = 240 \<longrightarrow> 144 \<le> nat_of_byte b" "nat_of_byte a = 244 \<longrightarrow> nat_of_byte b \<le> 143"
    and r: "r = (nat_of_byte a - 240) * 262144 + lo6 b * 4096 + lo6 c * 64 + lo6 d" "n = 4"
    by (cases xs rule: decode4.cases) (auto split: if_splits)
  define x y z u where "x = nat_of_byte a - 240" and "y = nat_of_byte b - 128" and "z = nat_of_byte c - 128" and "u = nat_of_byte d - 128"
  have x: "nat_of_byte a = 240 + x" "x \<le> 4" and y: "nat_of_byte b = 128 + y" "y < 64" and z: "nat_of_byte c = 128 + z" "z < 64"
    and u: "nat_of_byte d = 128 + u" "u < 64"
    using a bc by (auto simp: x_def y_def z_def u_def cont_def)
  have e': "x = 0 \<longrightarrow> 16 \<le> y" "x = 4 \<longrightarrow> y \<le> 15" using e x y by auto
  have r': "r = x * 262144 + y * 4096 + z * 64 + u" using r bc by (simp add: lo6_cont x_def y_def z_def u_def)
  show "65536 \<le> r" "r \<le> 1114111" "n = 4" using e' x y z u r r' by (cases "x = 0"; cases "x = 4"; simp)+
  have h: "r = ((x * 64 + y) * 64 + z) * 64 + u" by (simp add: r')
  have d: "r div 262144 = x" "r div 4096 mod 64 = y" "r div 64 mod 64 = z" "r mod 64 = u"
    unfolding div64 h using y z u by (simp_all only: base64)
  then show "encode_rune r = take n xs"
    using \<open>65536 \<le> r\<close> \<open>r \<le> 1114111\<close> x(1) y(1) z(1) u(1) r(2) byte_nat_of_byte [of a] byte_nat_of_byte [of b]
      byte_nat_of_byte [of c] byte_nat_of_byte [of d]
    by (simp add: encode_rune_def xs)
qed

lemma decode_encode_rune:
  assumes "decode_rune (c # cs) = (r, n)" "\<not> (r = RuneError \<and> n = 1)"
  shows "encode_rune r = take n (c # cs)"
proof (cases "nat_of_byte c < 128")
  case True
  then show ?thesis using assms by (auto simp: encode_rune_def)
next
  case False
  with assms consider "decode2 (c # cs) = Some (r, n)" | "decode3 (c # cs) = Some (r, n)" | "decode4 (c # cs) = Some (r, n)"
    by (auto split: option.splits simp del: decode2.simps decode3.simps decode4.simps)
  then show ?thesis using decode2_encode(1) decode3_encode(1) decode4_encode(1) by cases blast+
qed

text \<open>Decoding looks only at the bytes it consumes.\<close>

lemma decode2_prefix: "decode2 xs = Some (r, n) \<Longrightarrow> decode2 (take n xs @ t) = Some (r, n)"
  by (cases xs rule: decode2.cases) (auto split: if_splits)

lemma decode3_prefix:
  assumes "decode3 xs = Some (r, n)"
  shows "decode3 (take n xs @ t) = Some (r, n)" "decode2 (take n xs @ t) = None"
  using assms by (cases xs rule: decode3.cases; auto split: if_splits)+

lemma decode4_prefix:
  assumes "decode4 xs = Some (r, n)"
  shows "decode4 (take n xs @ t) = Some (r, n)" "decode3 (take n xs @ t) = None" "decode2 (take n xs @ t) = None"
  using assms by (cases xs rule: decode4.cases; auto split: if_splits)+

lemma decode_rune_prefix:
  assumes "decode_rune (c # cs) = (r, n)" "\<not> (r = RuneError \<and> n = 1)"
  shows "decode_rune (take n (c # cs) @ t) = (r, n)"
proof -
  have n: "0 < n" using decode_rune_size(1) [of c cs] assms(1) by simp
  then obtain ys where ys: "take n (c # cs) = c # ys" by (cases n) auto
  show ?thesis
  proof (cases "nat_of_byte c < 128")
    case True
    then show ?thesis using assms ys by auto
  next
    case False
    with assms consider "decode2 (c # cs) = Some (r, n)" | "decode3 (c # cs) = Some (r, n)" | "decode4 (c # cs) = Some (r, n)"
      by (auto split: option.splits simp del: decode2.simps decode3.simps decode4.simps)
    then show ?thesis
    proof cases
      case 1
      from decode2_prefix [OF this, of t] False ys show ?thesis by simp
    next
      case 2
      from decode3_prefix [OF this, of t] False ys show ?thesis by simp
    next
      case 3
      from decode4_prefix [OF this, of t] False ys show ?thesis by simp
    qed
  qed
qed

subsection \<open>String literals\<close>

definition dq :: char where "dq = CHR 0x22"
definition bs :: char where "bs = CHR 0x5C"

definition hexd :: "nat \<Rightarrow> char" where
  "hexd n = (if n < 10 then byte (48 + n) else byte (87 + n))"

definition hexval :: "char \<Rightarrow> nat option" where
  "hexval c =
     (let n = nat_of_byte c in
      if 48 \<le> n \<and> n \<le> 57 then Some (n - 48)
      else if 97 \<le> n \<and> n \<le> 102 then Some (n - 87)
      else if 65 \<le> n \<and> n \<le> 70 then Some (n - 55)
      else None)"

fun hex4 :: "string \<Rightarrow> nat option" where
  "hex4 (a # b # c # d # _) =
     (case (hexval a, hexval b, hexval c, hexval d) of
        (Some w, Some x, Some y, Some z) \<Rightarrow> Some (((w * 16 + x) * 16 + y) * 16 + z)
      | _ \<Rightarrow> None)"
| "hex4 _ = None"

text \<open>\<open>appendString\<close> with \<open>escapeHTML\<close>: a byte below 128, then the whole string.\<close>

definition esc :: "char \<Rightarrow> string" where
  "esc c =
     (let n = nat_of_byte c in
      if c = dq \<or> c = bs then [bs, c]
      else if n = 8 then [bs, CHR ''b'']
      else if n = 12 then [bs, CHR ''f'']
      else if n = 10 then [bs, CHR ''n'']
      else if n = 13 then [bs, CHR ''r'']
      else if n = 9 then [bs, CHR ''t'']
      else if n < 32 \<or> c = CHR ''<'' \<or> c = CHR ''>'' \<or> c = CHR ''&'' then [bs, CHR ''u'', CHR ''0'', CHR ''0'', hexd (n div 16), hexd (n mod 16)]
      else [c])"

function quote_body :: "string \<Rightarrow> string" where
  "quote_body [] = []"
| "quote_body (c # cs) =
     (if nat_of_byte c < 128 then esc c @ quote_body cs
      else case decode_rune (c # cs) of (r, n) \<Rightarrow>
        if r = RuneError \<and> n = 1 then bs # ''ufffd'' @ quote_body cs
        else if r = 8232 \<or> r = 8233 then bs # ''u202'' @ [hexd (r mod 16)] @ quote_body (drop (n - 1) cs)
        else take n (c # cs) @ quote_body (drop (n - 1) cs))"
  by pat_completeness auto
termination by (relation "measure length") auto

definition quote :: "string \<Rightarrow> string" where
  "quote s = dq # quote_body s @ [dq]"

text \<open>Reading: the body after the opening quote, up to the closing one.\<close>

definition unesc :: "char \<Rightarrow> char option" where
  "unesc e =
     (if e = dq \<or> e = bs \<or> e = CHR ''/'' then Some e
      else if e = CHR ''b'' then Some (byte 8)
      else if e = CHR ''f'' then Some (byte 12)
      else if e = CHR ''n'' then Some (byte 10)
      else if e = CHR ''r'' then Some (byte 13)
      else if e = CHR ''t'' then Some (byte 9)
      else None)"

definition prepend :: "string \<Rightarrow> (string \<times> string) option \<Rightarrow> (string \<times> string) option" where
  "prepend p x = map_option (\<lambda>(s, rest). (p @ s, rest)) x"

definition surrogate_pair :: "nat \<Rightarrow> string \<Rightarrow> nat option" where
  "surrogate_pair u r =
     (if u < 56320 \<and> take 2 r = [bs, CHR ''u'']
      then (case hex4 (drop 2 r) of
              Some v \<Rightarrow> if 56320 \<le> v \<and> v < 57344 then Some ((u - 55296) * 1024 + (v - 56320) + 65536) else None
            | None \<Rightarrow> None)
      else None)"

function p_str :: "string \<Rightarrow> (string \<times> string) option" where
  "p_str [] = None"
| "p_str (c # cs) =
     (if c = dq then Some ([], cs)
      else if c = bs then
        (case cs of
           [] \<Rightarrow> None
         | e # r \<Rightarrow>
             (case unesc e of
                Some x \<Rightarrow> prepend [x] (p_str r)
              | None \<Rightarrow>
                  if e = CHR ''u'' then
                    (case hex4 r of
                       None \<Rightarrow> None
                     | Some u \<Rightarrow>
                         if 55296 \<le> u \<and> u < 57344 then
                           (case surrogate_pair u (drop 4 r) of
                              Some v \<Rightarrow> prepend (encode_rune v) (p_str (drop 10 r))
                            | None \<Rightarrow> prepend (encode_rune RuneError) (p_str (drop 4 r)))
                         else prepend (encode_rune u) (p_str (drop 4 r)))
                  else None))
      else if nat_of_byte c < 32 then None
      else if nat_of_byte c < 128 then prepend [c] (p_str cs)
      else case decode_rune (c # cs) of (r, n) \<Rightarrow> prepend (encode_rune r) (p_str (drop (n - 1) cs)))"
  by pat_completeness auto
termination by (relation "measure length") auto

declare p_str.simps(2) [simp del] quote_body.simps(2) [simp del]

lemma prepend_Some [simp]: "prepend p (Some (s, rest)) = Some (p @ s, rest)"
  by (simp add: prepend_def)

lemma hexval_hexd: "k < 16 \<Longrightarrow> hexval (hexd k) = Some k"
  by (auto simp: hexval_def hexd_def Let_def)

lemma p_str_esc:
  assumes "nat_of_byte c < 128"
  shows "p_str (esc c @ t) = prepend [c] (p_str t)"
proof -
  have bytes: "nat_of_byte dq = 34" "nat_of_byte bs = 92" by code_simp+
  have z: "hexval (CHR ''0'') = Some 0" by code_simp
  have "c = byte (nat_of_byte c)" by simp
  then consider "c = dq \<or> c = bs" | "c \<noteq> dq \<and> c \<noteq> bs" "nat_of_byte c \<in> {8, 12, 10, 13, 9}"
    | "c \<noteq> dq \<and> c \<noteq> bs" "nat_of_byte c \<notin> {8, 12, 10, 13, 9}" "nat_of_byte c < 32 \<or> c = CHR ''<'' \<or> c = CHR ''>'' \<or> c = CHR ''&''"
    | "c \<noteq> dq \<and> c \<noteq> bs" "nat_of_byte c \<notin> {8, 12, 10, 13, 9}" "\<not> (nat_of_byte c < 32 \<or> c = CHR ''<'' \<or> c = CHR ''>'' \<or> c = CHR ''&'')"
    by blast
  then show ?thesis
  proof cases
    case 1
    then show ?thesis by (auto simp: esc_def p_str.simps unesc_def bs_def dq_def)
  next
    case 2
    then have "c \<in> {byte 8, byte 12, byte 10, byte 13, byte 9}" by (metis byte_nat_of_byte empty_iff insert_iff)
    then show ?thesis using 2 by (auto simp: esc_def p_str.simps unesc_def bs_def dq_def)
  next
    case 3
    let ?n = "nat_of_byte c"
    have "hexval (hexd (?n div 16)) = Some (?n div 16)" "hexval (hexd (?n mod 16)) = Some (?n mod 16)"
      using assms by (simp_all add: hexval_hexd)
    then have "hex4 (CHR ''0'' # CHR ''0'' # hexd (?n div 16) # hexd (?n mod 16) # t) = Some ?n" by (simp add: z)
    moreover have "esc c = [bs, CHR ''u'', CHR ''0'', CHR ''0'', hexd (?n div 16), hexd (?n mod 16)]"
      using 3 by (auto simp: esc_def Let_def)
    moreover have "encode_rune ?n = [c]" using assms by (simp add: encode_rune_def)
    ultimately show ?thesis using assms by (simp add: p_str.simps unesc_def bs_def dq_def)
  next
    case 4
    then have "esc c = [c]" by (auto simp: esc_def Let_def)
    then show ?thesis using 4 assms by (simp add: p_str.simps)
  qed
qed

text \<open>A valid string that is quoted and read again is itself.\<close>

lemma p_str_quote_body: "valid_utf8 s \<Longrightarrow> p_str (quote_body s @ dq # rest) = Some (s, rest)"
proof (induction s rule: valid_utf8.induct)
  case 1
  then show ?case by (simp add: p_str.simps)
next
  case (2 c cs)
  obtain r n where d: "decode_rune (c # cs) = (r, n)" by fastforce
  with "2.prems" have v: "\<not> (r = RuneError \<and> n = 1)" "valid_utf8 (drop (n - 1) cs)" by simp_all
  have IH: "p_str (quote_body (drop (n - 1) cs) @ dq # rest) = Some (drop (n - 1) cs, rest)" using "2.IH" [OF d [symmetric]] v by simp
  have n: "0 < n" "n \<le> length (c # cs)" using decode_rune_size [of c cs] d by simp_all
  then have split: "take n (c # cs) @ drop (n - 1) cs = c # cs" by (metis append_take_drop_id drop_Cons' gr_implies_not0)
  show ?case
  proof (cases "nat_of_byte c < 128")
    case True
    then have "n = 1" using d by simp
    then show ?thesis using True IH by (simp add: quote_body.simps p_str_esc)
  next
    case hi: False
    have enc: "encode_rune r = take n (c # cs)" by (rule decode_encode_rune [OF d v(1)])
    show ?thesis
    proof (cases "r = 8232 \<or> r = 8233")
      case True
      let ?q = "quote_body (drop (n - 1) cs) @ dq # rest"
      have "hexval (hexd (r mod 16)) = Some (r mod 16)" by (simp add: hexval_hexd)
      moreover have "hexval (CHR ''2'') = Some 2" "hexval (CHR ''0'') = Some 0" by code_simp+
      ultimately have "hex4 (CHR ''2'' # CHR ''0'' # CHR ''2'' # hexd (r mod 16) # ?q) = Some r" using True by auto
      then have "p_str (bs # CHR ''u'' # CHR ''2'' # CHR ''0'' # CHR ''2'' # hexd (r mod 16) # ?q) = prepend (encode_rune r) (p_str ?q)"
        using True by (auto simp: p_str.simps unesc_def bs_def dq_def)
      then show ?thesis using True hi d v(1) IH enc split by (auto simp: quote_body.simps RuneError_def)
    next
      case False
      obtain ys where ys: "take n (c # cs) = c # ys" using n by (cases n) auto
      have "decode_rune (c # ys @ t) = (r, n)" for t using decode_rune_prefix [OF d v(1), of t] ys by simp
      moreover have "length ys = n - 1" using arg_cong [OF ys, of length] n by simp
      moreover have "c \<noteq> dq" "c \<noteq> bs" using hi by (auto simp: dq_def bs_def nat_of_byte_def)
      ultimately have "p_str (c # ys @ t) = prepend (encode_rune r) (p_str t)" for t using hi by (simp add: p_str.simps)
      then show ?thesis using False hi d v(1) IH enc split ys by (auto simp: quote_body.simps)
    qed
  qed
qed

subsection \<open>Values\<close>

datatype json =
    JNull
  | JBool bool
  | JNum string
  | JStr string
  | JArr "json list"
  | JObj "(string \<times> string \<times> json) list"

definition is_ws :: "char \<Rightarrow> bool" where
  "is_ws c \<longleftrightarrow> c = CHR '' '' \<or> c = byte 9 \<or> c = byte 10 \<or> c = byte 13"

definition skip_ws :: "string \<Rightarrow> string" where
  "skip_ws s = dropWhile is_ws s"

definition is_digit :: "char \<Rightarrow> bool" where
  "is_digit c \<longleftrightarrow> 48 \<le> nat_of_byte c \<and> nat_of_byte c \<le> 57"

text \<open>The scanner's number: a sign, an integer without leading zeros, a fraction, an exponent.\<close>

definition p_digits1 :: "string \<Rightarrow> (string \<times> string) option" where
  "p_digits1 s = (case takeWhile is_digit s of [] \<Rightarrow> None | ds \<Rightarrow> Some (ds, dropWhile is_digit s))"

definition p_uint :: "string \<Rightarrow> (string \<times> string) option" where
  "p_uint s = (if take 1 s = ''0'' then Some (''0'', drop 1 s) else p_digits1 s)"

definition p_frac :: "string \<Rightarrow> (string \<times> string) option" where
  "p_frac s = (if take 1 s = ''.'' then prepend ''.'' (p_digits1 (drop 1 s)) else Some ([], s))"

definition p_exp :: "string \<Rightarrow> (string \<times> string) option" where
  "p_exp s =
     (case s of
        c # r \<Rightarrow>
          if c = CHR ''e'' \<or> c = CHR ''E'' then
            (case r of
               d # r' \<Rightarrow> if d = CHR ''+'' \<or> d = CHR ''-'' then prepend [c, d] (p_digits1 r') else prepend [c] (p_digits1 r)
             | [] \<Rightarrow> None)
          else Some ([], s)
      | [] \<Rightarrow> Some ([], s))"

definition p_number :: "string \<Rightarrow> (string \<times> string) option" where
  "p_number s =
     (let (sign, s1) = (if take 1 s = ''-'' then (''-'', drop 1 s) else ([], s)) in
      case p_uint s1 of
        None \<Rightarrow> None
      | Some (i, s2) \<Rightarrow>
          (case p_frac s2 of
             None \<Rightarrow> None
           | Some (f, s3) \<Rightarrow> (case p_exp s3 of None \<Rightarrow> None | Some (e, s4) \<Rightarrow> Some (sign @ i @ f @ e, s4))))"

text \<open>One value, the elements of an array, the members of an object.\<close>

fun p_value :: "nat \<Rightarrow> nat \<Rightarrow> string \<Rightarrow> (json \<times> string) option"
  and p_elems :: "nat \<Rightarrow> nat \<Rightarrow> string \<Rightarrow> (json list \<times> string) option"
  and p_members :: "nat \<Rightarrow> nat \<Rightarrow> string \<Rightarrow> ((string \<times> string \<times> json) list \<times> string) option"
where
  "p_value 0 d s = None"
| "p_value (Suc n) d s =
     (case skip_ws s of
        [] \<Rightarrow> None
      | c # cs \<Rightarrow>
          if c = CHR ''{'' then
            (if d = 0 then None
             else if take 1 (skip_ws cs) = ''}'' then Some (JObj [], drop 1 (skip_ws cs))
             else map_option (\<lambda>(ms, r). (JObj ms, r)) (p_members n (d - 1) cs))
          else if c = CHR ''['' then
            (if d = 0 then None
             else if take 1 (skip_ws cs) = '']'' then Some (JArr [], drop 1 (skip_ws cs))
             else map_option (\<lambda>(vs, r). (JArr vs, r)) (p_elems n (d - 1) cs))
          else if c = dq then map_option (\<lambda>(t, r). (JStr t, r)) (p_str cs)
          else if take 4 (c # cs) = ''true'' then Some (JBool True, drop 4 (c # cs))
          else if take 5 (c # cs) = ''false'' then Some (JBool False, drop 5 (c # cs))
          else if take 4 (c # cs) = ''null'' then Some (JNull, drop 4 (c # cs))
          else map_option (\<lambda>(l, r). (JNum l, r)) (p_number (c # cs)))"
| "p_elems 0 d s = None"
| "p_elems (Suc n) d s =
     (case p_value n d s of
        None \<Rightarrow> None
      | Some (v, r) \<Rightarrow>
          (case skip_ws r of
             [] \<Rightarrow> None
           | c # cs \<Rightarrow>
               if c = CHR '']'' then Some ([v], cs)
               else if c = CHR '','' then map_option (\<lambda>(vs, r). (v # vs, r)) (p_elems n d cs)
               else None))"
| "p_members 0 d s = None"
| "p_members (Suc n) d s =
     (case skip_ws s of
        [] \<Rightarrow> None
      | q # qs \<Rightarrow>
          if q \<noteq> dq then None
          else (case p_str qs of
                  None \<Rightarrow> None
                | Some (k, r1) \<Rightarrow>
                    (case skip_ws r1 of
                       [] \<Rightarrow> None
                     | c1 # r2 \<Rightarrow>
                         if c1 \<noteq> CHR '':'' then None
                         else (case p_value n d r2 of
                                 None \<Rightarrow> None
                               | Some (v, r3) \<Rightarrow>
                                   (let m = (k, take (length (skip_ws r2) - length r3) (skip_ws r2), v) in
                                    case skip_ws r3 of
                                      [] \<Rightarrow> None
                                    | c2 # r4 \<Rightarrow>
                                        if c2 = CHR ''}'' then Some ([m], r4)
                                        else if c2 = CHR '','' then map_option (\<lambda>(ms, r). (m # ms, r)) (p_members n d r4)
                                        else None)))))"

declare p_value.simps(2) [simp del] p_elems.simps(2) [simp del] p_members.simps(2) [simp del]

definition maxNestingDepth :: nat where "maxNestingDepth = 10000"

text \<open>
  The whole text (\<open>json.Unmarshal\<close>, \<open>json.Valid\<close>), or the first value of a stream (\<open>Decoder.Decode\<close>,
  which does not look at what follows the value).
\<close>

definition json_text :: "string \<Rightarrow> json option" where
  "json_text s =
     (case p_value (2 * length s + 1) maxNestingDepth s of
        Some (v, r) \<Rightarrow> if skip_ws r = [] then Some v else None
      | None \<Rightarrow> None)"

definition json_first :: "string \<Rightarrow> (json \<times> string) option" where
  "json_first s = p_value (2 * length s + 1) maxNestingDepth s"

subsection \<open>The fuel is enough\<close>

lemma length_skip_ws: "length (skip_ws s) \<le> length s"
  by (simp add: skip_ws_def length_dropWhile_le)

lemma prepend_length: "prepend p x = Some (t, r) \<Longrightarrow> \<exists>t'. x = Some (t', r)"
  by (cases x) (auto simp: prepend_def)

lemma p_str_length: "p_str s = Some (t, r) \<Longrightarrow> length r < length s"
proof (induction s arbitrary: t rule: length_induct)
  case (1 s)
  then obtain c cs where s: "s = c # cs" by (cases s) auto
  have IH: "p_str z = Some (t', r) \<Longrightarrow> length z \<le> length cs \<Longrightarrow> length r \<le> length cs" for z t'
    using "1.IH"[rule_format, of z t'] s by simp
  from "1.prems"[unfolded s p_str.simps(2)] show ?case
    by (simp split: if_splits list.splits option.splits prod.splits add: s)
      (auto dest!: prepend_length, (drule IH, simp, simp)+)
qed

lemma p_digits1_length: "p_digits1 s = Some (t, r) \<Longrightarrow> length r < length s"
proof -
  assume "p_digits1 s = Some (t, r)"
  then have "takeWhile is_digit s \<noteq> []" "r = dropWhile is_digit s" by (auto simp: p_digits1_def split: list.splits)
  moreover have "length s = length (takeWhile is_digit s) + length (dropWhile is_digit s)"
    by (metis length_append takeWhile_dropWhile_id)
  ultimately show ?thesis by simp
qed

lemma p_uint_length: "p_uint s = Some (t, r) \<Longrightarrow> length r < length s"
  using p_digits1_length [of s] by (cases s) (auto simp: p_uint_def split: if_splits)

lemma p_frac_length: "p_frac s = Some (t, r) \<Longrightarrow> length r \<le> length s"
  using p_digits1_length [of "drop 1 s"] by (cases s) (fastforce simp: p_frac_def split: if_splits dest!: prepend_length)+

lemma p_exp_length:
  assumes "p_exp s = Some (t, r)"
  shows "length r \<le> length s"
proof (cases s)
  case (Cons c u)
  show ?thesis
  proof (cases u)
    case Nil
    then show ?thesis using assms Cons by (auto simp: p_exp_def split: if_splits)
  next
    case (Cons d v)
    have "r = s \<or> (\<exists>p. prepend p (p_digits1 v) = Some (t, r)) \<or> (\<exists>p. prepend p (p_digits1 u) = Some (t, r))"
      using assms \<open>s = c # u\<close> Cons by (auto simp: p_exp_def split: if_splits)
    then show ?thesis using p_digits1_length \<open>s = c # u\<close> Cons by (fastforce dest!: prepend_length)
  qed
qed (use assms in \<open>simp add: p_exp_def\<close>)

lemma p_number_length:
  assumes "p_number s = Some (t, r)"
  shows "length r < length s"
proof -
  obtain sg s1 where s1: "(if take 1 s = ''-'' then (''-'', drop 1 s) else ([], s)) = (sg, s1)" by fastforce
  then have l1: "length s1 \<le> length s" by (auto split: if_splits)
  from assms s1 obtain i s2 f s3 e where "p_uint s1 = Some (i, s2)" "p_frac s2 = Some (f, s3)" "p_exp s3 = Some (e, r)"
    by (auto simp: p_number_def split: option.splits)
  with l1 p_uint_length p_frac_length p_exp_length show ?thesis by (meson le_less_trans less_le_trans)
qed

text \<open>Each reader of a value leaves less text than it got.\<close>

lemma skip_ws_Cons: "skip_ws s = c # cs \<Longrightarrow> length cs < length s"
  using length_skip_ws [of s] by simp

text \<open>Inversion: what a successful reading of elements or members went through.\<close>

lemma p_elemsE:
  assumes "p_elems n d s = Some (vs, r)"
  obtains n' v r1 cs where "n = Suc n'" "p_value n' d s = Some (v, r1)"
    "skip_ws r1 = CHR '']'' # cs \<and> vs = [v] \<and> r = cs
     \<or> (\<exists>vs'. skip_ws r1 = CHR '','' # cs \<and> p_elems n' d cs = Some (vs', r) \<and> vs = v # vs')"
  using assms by (cases n) (auto simp: p_elems.simps split: option.splits list.splits if_splits)

lemma p_membersE:
  assumes "p_members n d s = Some (ms, r)"
  obtains n' k qs r1 r2 v r3 cs where "n = Suc n'" "skip_ws s = dq # qs" "p_str qs = Some (k, r1)"
    "skip_ws r1 = CHR '':'' # r2" "p_value n' d r2 = Some (v, r3)"
    "skip_ws r3 = CHR ''}'' # cs \<and> ms = [(k, take (length (skip_ws r2) - length r3) (skip_ws r2), v)] \<and> r = cs
     \<or> (\<exists>ms'. skip_ws r3 = CHR '','' # cs \<and> p_members n' d cs = Some (ms', r)
           \<and> ms = (k, take (length (skip_ws r2) - length r3) (skip_ws r2), v) # ms')"
  using assms by (cases n) (auto simp: p_members.simps Let_def split: option.splits list.splits if_splits)

lemma p_valueE:
  assumes "p_value n d s = Some (v, r)"
  obtains (obj0) n' cs where "n = Suc n'" "skip_ws s = CHR ''{'' # cs" "0 < d" "take 1 (skip_ws cs) = ''}''" "v = JObj []" "r = drop 1 (skip_ws cs)"
  | (obj) n' cs ms where "n = Suc n'" "skip_ws s = CHR ''{'' # cs" "0 < d" "take 1 (skip_ws cs) \<noteq> ''}''" "p_members n' (d - 1) cs = Some (ms, r)" "v = JObj ms"
  | (arr0) n' cs where "n = Suc n'" "skip_ws s = CHR ''['' # cs" "0 < d" "take 1 (skip_ws cs) = '']''" "v = JArr []" "r = drop 1 (skip_ws cs)"
  | (arr) n' cs vs where "n = Suc n'" "skip_ws s = CHR ''['' # cs" "0 < d" "take 1 (skip_ws cs) \<noteq> '']''" "p_elems n' (d - 1) cs = Some (vs, r)" "v = JArr vs"
  | (flat) "\<forall>m d'. p_value (Suc m) d' s = Some (v, r)" "length r < length s"
proof -
  from assms obtain n' where n: "n = Suc n'" by (cases n) auto
  from assms n obtain c cs where s: "skip_ws s = c # cs" by (auto simp: p_value.simps split: list.splits)
  have drop: "length (drop k (c # cs)) < length s" if "0 < k" for k using skip_ws_Cons [OF s] that by (cases k) auto
  have num: "p_number (c # cs) = Some (t, r) \<Longrightarrow> length r < length s" for t
    using p_number_length [of "c # cs" t r] length_skip_ws [of s] s by simp
  consider "c = CHR ''{''" | "c = CHR ''[''" | "c \<noteq> CHR ''{''" "c \<noteq> CHR ''[''" by blast
  then show thesis
  proof cases
    case 1
    then show thesis using assms n s obj0 obj by (auto simp: p_value.simps split: if_splits)
  next
    case 2
    then show thesis using assms n s arr0 arr by (auto simp: p_value.simps split: if_splits)
  next
    case 3
    have "length r < length s"
      using assms 3 drop num p_str_length [of cs _ r] skip_ws_Cons [OF s] unfolding n p_value.simps s
      by (simp split: if_splits) fastforce+
    moreover have "\<forall>m d'. p_value (Suc m) d' s = Some (v, r)" using assms 3 by (simp add: n p_value.simps s)
    ultimately show thesis by (rule flat[rotated])
  qed
qed

lemma p_value_length:
  "(p_value n d s = Some (v, r) \<longrightarrow> length r < length s)
   \<and> (p_elems n d s = Some (vs, r) \<longrightarrow> length r < length s)
   \<and> (p_members n d s = Some (ms, r) \<longrightarrow> length r < length s)"
proof (induction n arbitrary: d s v vs ms r)
  case (Suc n)
  have v: "length r < length s" if "p_value (Suc n) d s = Some (v, r)" for d s v r
    using that
  proof (cases rule: p_valueE)
    case (obj0 n' cs)
    then show ?thesis using skip_ws_Cons [of s] length_skip_ws [of cs] by fastforce
  next
    case (arr0 n' cs)
    then show ?thesis using skip_ws_Cons [of s] length_skip_ws [of cs] by fastforce
  next
    case (obj n' cs ms)
    with Suc.IH skip_ws_Cons [of s] show ?thesis by (metis Suc_inject less_trans)
  next
    case (arr n' cs vs)
    with Suc.IH skip_ws_Cons [of s] show ?thesis by (metis Suc_inject less_trans)
  qed simp
  have e: "length r < length s" if "p_elems (Suc n) d s = Some (vs, r)" for d s vs r
    using that
  proof (cases rule: p_elemsE)
    case (1 n' v r1 cs)
    then have "length r1 < length s" "length r \<le> length cs" "length cs < length r1"
      using Suc.IH by (auto dest: skip_ws_Cons intro: less_imp_le)
    then show ?thesis by simp
  qed
  have m: "length r < length s" if "p_members (Suc n) d s = Some (ms, r)" for d s ms r
    using that
  proof (cases rule: p_membersE)
    case (1 n' k qs r1 r2 v r3 cs)
    then have "length r3 < length r2" "length r \<le> length cs" "length cs < length r3"
      using Suc.IH by (auto dest: skip_ws_Cons intro: less_imp_le)
    moreover have "length r2 < length r1" "length r1 < length qs" "length qs < length s"
      using 1 skip_ws_Cons p_str_length by blast+
    ultimately show ?thesis by simp
  qed
  show ?case using v e m by blast
qed simp

text \<open>Whatever some fuel reads, the fuel used below reads.\<close>

lemma p_value_fuel_step:
  assumes IHe: "\<And>d s vs r m. p_elems n d s = Some (vs, r) \<Longrightarrow> 2 * length s + 2 \<le> m \<Longrightarrow> p_elems m d s = Some (vs, r)"
    and IHm: "\<And>d s ms r m. p_members n d s = Some (ms, r) \<Longrightarrow> 2 * length s + 2 \<le> m \<Longrightarrow> p_members m d s = Some (ms, r)"
    and "p_value (Suc n) d s = Some (v, r)" and m: "2 * length s + 1 \<le> m"
  shows "p_value m d s = Some (v, r)"
  using assms(3)
proof (cases rule: p_valueE)
  case (obj n' cs ms)
  obtain m' where m': "m = Suc m'" using m by (cases m) auto
  have "2 * length cs + 2 \<le> m'" using skip_ws_Cons [OF obj(2)] m m' by simp
  then have "p_members m' (d - 1) cs = Some (ms, r)" using IHm [of "d - 1" cs ms r m'] obj(1,5) by simp
  then show ?thesis using obj m' by (simp add: p_value.simps)
next
  case (arr n' cs vs)
  obtain m' where m': "m = Suc m'" using m by (cases m) auto
  have "2 * length cs + 2 \<le> m'" using skip_ws_Cons [OF arr(2)] m m' by simp
  then have "p_elems m' (d - 1) cs = Some (vs, r)" using IHe [of "d - 1" cs vs r m'] arr(1,5) by simp
  then show ?thesis using arr m' by (simp add: p_value.simps)
qed (use m in \<open>cases m; simp add: p_value.simps\<close>)+

lemma p_elems_fuel_step:
  assumes IHv: "\<And>d s v r m. p_value n d s = Some (v, r) \<Longrightarrow> 2 * length s + 1 \<le> m \<Longrightarrow> p_value m d s = Some (v, r)"
    and IHe: "\<And>d s vs r m. p_elems n d s = Some (vs, r) \<Longrightarrow> 2 * length s + 2 \<le> m \<Longrightarrow> p_elems m d s = Some (vs, r)"
    and "p_elems (Suc n) d s = Some (vs, r)" and m: "2 * length s + 2 \<le> m"
  shows "p_elems m d s = Some (vs, r)"
  using assms(3)
proof (cases rule: p_elemsE)
  case (1 n' v r1 cs)
  obtain m' where m': "m = Suc m'" using m by (cases m) auto
  have l: "length r1 < length s" using p_value_length 1(2) by blast
  have "p_value m' d s = Some (v, r1)" using IHv [of d s v r1 m'] 1 m m' by simp
  moreover have "p_elems m' d cs = Some (vs', r)" if "skip_ws r1 = CHR '','' # cs" "p_elems n' d cs = Some (vs', r)" for vs'
    using IHe [of d cs vs' r m'] 1(1) that m m' skip_ws_Cons [OF that(1)] l by simp
  ultimately show ?thesis using 1(3) m' by (auto simp: p_elems.simps)
qed

lemma p_members_fuel_step:
  assumes IHv: "\<And>d s v r m. p_value n d s = Some (v, r) \<Longrightarrow> 2 * length s + 1 \<le> m \<Longrightarrow> p_value m d s = Some (v, r)"
    and IHm: "\<And>d s ms r m. p_members n d s = Some (ms, r) \<Longrightarrow> 2 * length s + 2 \<le> m \<Longrightarrow> p_members m d s = Some (ms, r)"
    and "p_members (Suc n) d s = Some (ms, r)" and m: "2 * length s + 2 \<le> m"
  shows "p_members m d s = Some (ms, r)"
  using assms(3)
proof (cases rule: p_membersE)
  case (1 n' k qs r1 r2 v r3 cs)
  obtain m' where m': "m = Suc m'" using m by (cases m) auto
  have l: "length r3 < length r2" "length r2 < length r1" "length r1 < length qs" "length qs < length s"
    using p_value_length 1 skip_ws_Cons p_str_length by blast+
  have pv: "p_value m' d r2 = Some (v, r3)" using IHv [of d r2 v r3 m'] 1(1,5) m m' l by simp
  from 1(6) show ?thesis
  proof (elim disjE exE conjE)
    assume "skip_ws r3 = CHR ''}'' # cs" "ms = [(k, take (length (skip_ws r2) - length r3) (skip_ws r2), v)]" "r = cs"
    then show ?thesis using 1(2-4) pv by (simp add: m' p_members.simps)
  next
    fix ms'
    assume ms': "skip_ws r3 = CHR '','' # cs" "p_members n' d cs = Some (ms', r)"
      "ms = (k, take (length (skip_ws r2) - length r3) (skip_ws r2), v) # ms'"
    have "p_members m' d cs = Some (ms', r)"
      using IHm [of d cs ms' r m'] 1(1) ms'(2) m m' skip_ws_Cons [OF ms'(1)] l by simp
    then show ?thesis using 1(2-4) pv ms'(1,3) by (simp add: m' p_members.simps)
  qed
qed

lemma p_value_fuel:
  "(p_value n d s = Some (v, r) \<longrightarrow> 2 * length s + 1 \<le> m \<longrightarrow> p_value m d s = Some (v, r))
   \<and> (p_elems n d s = Some (vs, r) \<longrightarrow> 2 * length s + 2 \<le> m \<longrightarrow> p_elems m d s = Some (vs, r))
   \<and> (p_members n d s = Some (ms, r) \<longrightarrow> 2 * length s + 2 \<le> m \<longrightarrow> p_members m d s = Some (ms, r))"
proof (induction n arbitrary: d s v vs ms r m)
  case (Suc n)
  have IHv: "p_value n d s = Some (v, r) \<Longrightarrow> 2 * length s + 1 \<le> m \<Longrightarrow> p_value m d s = Some (v, r)"
    and IHe: "p_elems n d s = Some (vs, r) \<Longrightarrow> 2 * length s + 2 \<le> m \<Longrightarrow> p_elems m d s = Some (vs, r)"
    and IHm: "p_members n d s = Some (ms, r) \<Longrightarrow> 2 * length s + 2 \<le> m \<Longrightarrow> p_members m d s = Some (ms, r)"
    for d s v vs ms r m using Suc.IH by blast+
  show ?case
    using p_value_fuel_step [OF IHe IHm] p_elems_fuel_step [OF IHv IHe] p_members_fuel_step [OF IHv IHm] by blast
qed simp

text \<open>So a text is refused because it is not JSON (or nests too deep), never for lack of fuel.\<close>

lemma json_first_iff: "json_first s = Some (v, r) \<longleftrightarrow> (\<exists>n. p_value n maxNestingDepth s = Some (v, r))"
  unfolding json_first_def using p_value_fuel by blast

lemma json_text_iff:
  "json_text s = Some v \<longleftrightarrow> (\<exists>n r. p_value n maxNestingDepth s = Some (v, r) \<and> skip_ws r = [])"
proof -
  have "json_text s = Some v \<longleftrightarrow> (\<exists>r. json_first s = Some (v, r) \<and> skip_ws r = [])"
    by (auto simp: json_text_def json_first_def split: option.splits if_splits)
  then show ?thesis by (auto simp: json_first_iff)
qed

subsection \<open>Numbers\<close>

definition digit_of :: "char \<Rightarrow> nat" where
  "digit_of c = nat_of_byte c - 48"

definition digits_value :: "string \<Rightarrow> nat" where
  "digits_value s = foldl (\<lambda>n c. 10 * n + digit_of c) 0 s"

lemma digits_value_Nil [simp]: "digits_value [] = 0"
  by (simp add: digits_value_def)

lemma digits_value_snoc [simp]: "digits_value (s @ [c]) = 10 * digits_value s + digit_of c"
  by (simp add: digits_value_def)

lemma digit_byte: "k < 10 \<Longrightarrow> is_digit (char_of (48 + k)) \<and> digit_of (char_of (48 + k)) = k"
  by (simp add: is_digit_def digit_of_def nat_of_byte_def)

lemma show_nat_digits: "digits_value (show_nat n) = n \<and> list_all is_digit (show_nat n)"
proof (induction n rule: show_nat.induct)
  case (1 n)
  show ?case
  proof (cases "n < 10")
    case True
    then show ?thesis using digit_byte [of n] digits_value_snoc [of Nil] by (simp add: show_nat.simps [of n])
  next
    case False
    then show ?thesis using 1 digit_byte [of "n mod 10"] by (simp add: show_nat.simps [of n])
  qed
qed

lemma show_nat_head: "hd (show_nat n) = CHR ''0'' \<Longrightarrow> n = 0"
proof (induction n rule: show_nat.induct)
  case (1 n)
  show ?case
  proof (cases "n < 10")
    case True
    then have "nat_of_byte (hd (show_nat n)) = 48 + n" by (simp add: show_nat.simps [of n] nat_of_byte_def)
    then show ?thesis using "1.prems" by (simp add: nat_of_byte_def)
  next
    case False
    then have "hd (show_nat n) = hd (show_nat (n div 10))" by (simp add: show_nat.simps [of n])
    then show ?thesis using 1 False by (auto simp: show_nat.simps [of 0])
  qed
qed

definition plain_end :: "string \<Rightarrow> bool" where
  "plain_end r \<longleftrightarrow> (case r of [] \<Rightarrow> True | c # _ \<Rightarrow> \<not> is_digit c \<and> c \<notin> {CHR ''.'', CHR ''e'', CHR ''E''})"

lemma p_number_show_nat:
  assumes "plain_end r"
  shows "p_number (show_nat n @ r) = Some (show_nat n, r)"
proof -
  obtain c cs where c: "show_nat n = c # cs" by (cases "show_nat n") (use show_nat_nonempty in blast)+
  have all: "list_all is_digit (show_nat n)" using show_nat_digits by blast
  have "takeWhile is_digit (show_nat n @ r) = show_nat n" "dropWhile is_digit (show_nat n @ r) = r"
    using all assms by (auto simp: plain_end_def list_all_iff takeWhile_append dropWhile_append split: list.splits)
  then have d: "p_digits1 (show_nat n @ r) = Some (show_nat n, r)" by (simp add: p_digits1_def c)
  have "p_uint (show_nat n @ r) = Some (show_nat n, r)"
  proof (cases "c = CHR ''0''")
    case True
    then have "n = 0" using show_nat_head [of n] c by simp
    moreover have "show_nat 0 = ''0''" by code_simp
    ultimately have "show_nat n = ''0''" by simp
    then show ?thesis by (simp add: p_uint_def)
  next
    case False
    then show ?thesis using d c by (simp add: p_uint_def)
  qed
  moreover have "p_frac r = Some ([], r)" using assms by (cases r) (auto simp: p_frac_def plain_end_def)
  moreover have "p_exp r = Some ([], r)" using assms by (auto simp: p_exp_def plain_end_def split: list.splits)
  moreover have "c \<noteq> CHR ''-''" using all c by (auto simp: is_digit_def nat_of_byte_def)
  ultimately show ?thesis by (simp add: p_number_def c)
qed

subsection \<open>Decoding into Go values\<close>

text \<open>
  \<open>foldName\<close>: member names match fields up to case.  Outside ASCII only U+017F and U+212A fold to
  ASCII letters.
\<close>

definition upcase :: "char \<Rightarrow> char" where
  "upcase c = (let n = nat_of_byte c in if 97 \<le> n \<and> n \<le> 122 then byte (n - 32) else c)"

function foldName :: "string \<Rightarrow> string" where
  "foldName [] = []"
| "foldName (c # cs) =
     (if c = byte 226 \<and> take 2 cs = [byte 132, byte 170] then CHR ''K'' # foldName (drop 2 cs)
      else if c = byte 197 \<and> take 1 cs = [byte 191] then CHR ''S'' # foldName (drop 1 cs)
      else upcase c # foldName cs)"
  by pat_completeness auto
termination by (relation "measure length") auto

text \<open>
  An object into a struct: each member goes to the field its name folds to; \<open>f\<close> gets the folded
  name, the raw text and the value.  An error of one field is kept and reported at the end, so it is
  an error of the whole.  \<open>null\<close> leaves everything as it is.
\<close>

fun decode_members :: "(string \<Rightarrow> string \<Rightarrow> json \<Rightarrow> 'a \<Rightarrow> 'a option) \<Rightarrow> (string \<times> string \<times> json) list \<Rightarrow> 'a \<Rightarrow> 'a option" where
  "decode_members f [] a = Some a"
| "decode_members f ((k, raw, v) # ms) a =
     (case f (foldName k) raw v a of None \<Rightarrow> None | Some a' \<Rightarrow> decode_members f ms a')"

definition decode_struct :: "(string \<Rightarrow> string \<Rightarrow> json \<Rightarrow> 'a \<Rightarrow> 'a option) \<Rightarrow> json \<Rightarrow> 'a \<Rightarrow> 'a option" where
  "decode_struct f v a = (case v of JObj ms \<Rightarrow> decode_members f ms a | JNull \<Rightarrow> Some a | _ \<Rightarrow> None)"

definition decode_string :: "json \<Rightarrow> string \<Rightarrow> string option" where
  "decode_string v old = (case v of JStr s \<Rightarrow> Some s | JNull \<Rightarrow> Some old | _ \<Rightarrow> None)"

definition decode_bool :: "json \<Rightarrow> bool \<Rightarrow> bool option" where
  "decode_bool v old = (case v of JBool b \<Rightarrow> Some b | JNull \<Rightarrow> Some old | _ \<Rightarrow> None)"

text \<open>\<open>strconv.ParseUint\<close> and \<open>ParseInt\<close> in base 10 for 64 bits.\<close>

definition ParseUint :: "string \<Rightarrow> nat option" where
  "ParseUint s =
     (if s \<noteq> [] \<and> list_all is_digit s \<and> digits_value s < 2 ^ 64 then Some (digits_value s) else None)"

definition ParseInt :: "string \<Rightarrow> int option" where
  "ParseInt s =
     (let neg = take 1 s = ''-''; ds = (if take 1 s = ''-'' \<or> take 1 s = ''+'' then drop 1 s else s) in
      if ds = [] \<or> \<not> list_all is_digit ds then None
      else let n = int (digits_value ds) in
        if neg then (if n \<le> 2 ^ 63 then Some (- n) else None)
        else (if n < 2 ^ 63 then Some n else None))"

definition decode_uint :: "json \<Rightarrow> nat \<Rightarrow> nat option" where
  "decode_uint v old = (case v of JNum l \<Rightarrow> ParseUint l | JNull \<Rightarrow> Some old | _ \<Rightarrow> None)"

definition decode_int :: "json \<Rightarrow> int \<Rightarrow> int option" where
  "decode_int v old = (case v of JNum l \<Rightarrow> ParseInt l | JNull \<Rightarrow> Some old | _ \<Rightarrow> None)"

text \<open>An array into a slice: each element decoded into a zero value.\<close>

fun decode_each :: "(json \<Rightarrow> 'a option) \<Rightarrow> json list \<Rightarrow> 'a list option" where
  "decode_each f [] = Some []"
| "decode_each f (v # vs) =
     (case f v of None \<Rightarrow> None | Some x \<Rightarrow> map_option ((#) x) (decode_each f vs))"

definition decode_slice :: "(json \<Rightarrow> 'a option) \<Rightarrow> json \<Rightarrow> 'a list \<Rightarrow> 'a list option" where
  "decode_slice f v old = (case v of JArr vs \<Rightarrow> decode_each f vs | JNull \<Rightarrow> Some [] | _ \<Rightarrow> None)"

lemma ParseUint_show_nat [simp]: "n < 2 ^ 64 \<Longrightarrow> ParseUint (show_nat n) = Some n"
  using show_nat_digits [of n] by (simp add: ParseUint_def)

lemma ParseInt_show_nat [simp]:
  assumes "n < 2 ^ 63"
  shows "ParseInt (show_nat n) = Some (int n)"
proof -
  have "c \<noteq> CHR ''-'' \<and> c \<noteq> CHR ''+''" if "is_digit c" for c using that by (auto simp: is_digit_def nat_of_byte_def)
  moreover have "is_digit (hd (show_nat n))" using show_nat_digits [of n] show_nat_nonempty [of n] by (cases "show_nat n") auto
  moreover have "take 1 (show_nat n) = [hd (show_nat n)]" by (cases "show_nat n") (use show_nat_nonempty in auto)
  moreover have "int n < 2 ^ 63" using assms by (metis of_nat_less_iff of_nat_numeral of_nat_power)
  ultimately show ?thesis using show_nat_digits [of n] by (simp add: ParseInt_def)
qed

subsection \<open>Reading what was written\<close>

text \<open>A text that is a value whatever follows it: its first byte is not white space.\<close>

definition reads_as :: "nat \<Rightarrow> nat \<Rightarrow> string \<Rightarrow> json \<Rightarrow> bool" where
  "reads_as n d s v \<longleftrightarrow>
     s \<noteq> [] \<and> \<not> is_ws (hd s) \<and> (\<forall>m \<ge> n. \<forall>r. plain_end r \<longrightarrow> p_value m d (s @ r) = Some (v, r))"

lemma skip_ws_first [simp]: "\<not> is_ws c \<Longrightarrow> skip_ws (c # cs) = c # cs"
  by (simp add: skip_ws_def)

lemma reads_as_quote: "valid_utf8 s \<Longrightarrow> reads_as 1 d (quote s) (JStr s)"
proof -
  assume "valid_utf8 s"
  then have "p_str (quote_body s @ dq # r) = Some (s, r)" for r by (rule p_str_quote_body)
  moreover have "\<not> is_ws dq" "dq \<noteq> CHR ''{''" "dq \<noteq> CHR ''[''" by code_simp+
  ultimately have "p_value (Suc m) d (quote s @ r) = Some (JStr s, r)" for m r
    by (simp add: p_value.simps quote_def)
  with \<open>\<not> is_ws dq\<close> show ?thesis
    by (auto simp: reads_as_def quote_def Suc_le_eq dest!: Suc_pred [symmetric]) (metis Suc_pred)
qed

lemma reads_as_show_nat: "reads_as 1 d (show_nat n) (JNum (show_nat n))"
proof -
  obtain c cs where c: "show_nat n = c # cs" by (cases "show_nat n") (use show_nat_nonempty in blast)+
  have dg: "is_digit c" using show_nat_digits [of n] c by simp
  then have ws: "\<not> is_ws c" and o: "c \<noteq> CHR ''{''" "c \<noteq> CHR ''[''" "c \<noteq> dq" "c \<noteq> CHR ''t''" "c \<noteq> CHR ''f''" "c \<noteq> CHR ''n''"
    by (auto simp: is_digit_def is_ws_def dq_def nat_of_byte_def byte_def)
  have "p_value (Suc m) d (show_nat n @ r) = Some (JNum (show_nat n), r)" if "plain_end r" for m r
    using p_number_show_nat [OF that, of n] ws o by (simp add: p_value.simps c)
  then show ?thesis using ws by (auto simp: reads_as_def c Suc_le_eq) (metis Suc_pred append_Cons c)
qed

fun comma_sep :: "string list \<Rightarrow> string" where
  "comma_sep [] = []"
| "comma_sep [t] = t"
| "comma_sep (t # ts) = t @ '','' @ comma_sep ts"

definition write_array :: "string list \<Rightarrow> string" where
  "write_array ts = ''['' @ comma_sep ts @ '']''"

definition write_object :: "(string \<times> string) list \<Rightarrow> string" where
  "write_object ms = ''{'' @ comma_sep (map (\<lambda>(k, t). quote k @ '':'' @ t) ms) @ ''}''"

lemma comma_sep_Cons: "ts \<noteq> [] \<Longrightarrow> comma_sep (t # ts) = t @ '','' @ comma_sep ts"
  by (cases ts) simp_all

lemma plain_end_simps [simp]: "plain_end []" "plain_end (CHR '','' # r)" "plain_end (CHR '']'' # r)" "plain_end (CHR ''}'' # r)"
  by (simp_all add: plain_end_def is_digit_def nat_of_byte_def)

lemma not_ws_simps [simp]:
  "\<not> is_ws (CHR '','')" "\<not> is_ws (CHR '']'')" "\<not> is_ws (CHR ''}'')" "\<not> is_ws (CHR '':'')" "\<not> is_ws (CHR ''{'')" "\<not> is_ws (CHR ''['')" "\<not> is_ws dq"
  by code_simp+

lemma reads_asD:
  assumes "reads_as n d s v" "n \<le> m" "plain_end r"
  shows "p_value m d (s @ r) = Some (v, r)" "skip_ws (s @ r) = s @ r" "s \<noteq> []"
  using assms by (cases s; simp add: reads_as_def)+

lemma p_elems_write:
  assumes "list_all2 (reads_as n d) ts vs" "ts \<noteq> []" "n + length ts \<le> m"
  shows "p_elems m d (comma_sep ts @ CHR '']'' # r) = Some (vs, r)"
  using assms
proof (induction ts arbitrary: vs m)
  case (Cons t ts)
  then obtain v vs' m' where vs: "vs = v # vs'" "m = Suc m'" by (cases vs; cases m) auto
  note t = reads_asD [of n d t v m']
  show ?case
  proof (cases "ts = []")
    case True
    then show ?thesis using Cons.prems vs t by (simp add: p_elems.simps)
  next
    case False
    with Cons vs have "p_elems m' d (comma_sep ts @ CHR '']'' # r) = Some (vs', r)" by simp
    then show ?thesis using Cons.prems vs t False by (simp add: p_elems.simps comma_sep_Cons)
  qed
qed simp

lemma reads_as_array:
  assumes "list_all2 (reads_as n d) ts vs"
  shows "reads_as (Suc (n + length ts)) (Suc d) (write_array ts) (JArr vs)"
proof -
  have "p_value m (Suc d) (write_array ts @ r) = Some (JArr vs, r)" if m: "Suc (n + length ts) \<le> m" for m r
  proof (cases ts)
    case Nil
    then show ?thesis using assms m by (cases m) (simp_all add: write_array_def p_value.simps)
  next
    case (Cons t ts')
    obtain m' where m': "m = Suc m'" using m by (cases m) auto
    have "p_elems m' d (comma_sep ts @ CHR '']'' # r) = Some (vs, r)" by (rule p_elems_write [OF assms]) (use Cons m m' in auto)
    moreover obtain v where t: "reads_as n d t v" using assms Cons by (auto simp: list_all2_Cons1)
    have "take 1 (skip_ws (comma_sep ts @ CHR '']'' # r)) \<noteq> '']''"
    proof -
      from t obtain c cs where "t = c # cs" "\<not> is_ws c" by (cases t) (auto simp: reads_as_def)
      moreover from this t have "c \<noteq> CHR '']''"
        using reads_asD(1) [OF t, of "Suc n" Nil] by (auto simp: p_value.simps dq_def p_number_def p_uint_def p_digits1_def is_digit_def nat_of_byte_def)
      ultimately show ?thesis using Cons by (cases ts') simp_all
    qed
    ultimately show ?thesis by (simp add: write_array_def p_value.simps m')
  qed
  then show ?thesis by (simp add: reads_as_def write_array_def)
qed

lemma p_members_write:
  assumes "list_all2 (\<lambda>(k, t) m. valid_utf8 k \<and> (\<exists>v. m = (k, t, v) \<and> reads_as n d t v)) kts ms" "kts \<noteq> []" "n + length kts \<le> m"
  shows "p_members m d (comma_sep (map (\<lambda>(k, t). quote k @ '':'' @ t) kts) @ CHR ''}'' # r) = Some (ms, r)"
  using assms
proof (induction kts arbitrary: ms m)
  case (Cons kt kts)
  obtain k t where kt: "kt = (k, t)" by fastforce
  from Cons.prems kt obtain v ms' m' where ms: "ms = (k, t, v) # ms'" "m = Suc m'" and k: "valid_utf8 k" and tv: "reads_as n d t v"
    by (cases m) (auto simp: list_all2_Cons1)
  have n: "n \<le> m'" using Cons.prems ms by simp
  note t = reads_asD [OF tv n]
  note q = p_str_quote_body [OF k]
  have dqk: "quote k @ x = dq # quote_body k @ dq # x" for x by (simp add: quote_def)
  show ?case
  proof (cases "kts = []")
    case True
    then show ?thesis using Cons.prems t kt ms by (simp add: p_members.simps dqk q)
  next
    case False
    with Cons ms have "p_members m' d (comma_sep (map (\<lambda>(k, t). quote k @ '':'' @ t) kts) @ CHR ''}'' # r) = Some (ms', r)" by simp
    then show ?thesis using t kt ms False by (simp add: p_members.simps comma_sep_Cons dqk q)
  qed
qed simp

lemma reads_as_object:
  assumes "list_all2 (\<lambda>(k, t) m. valid_utf8 k \<and> (\<exists>v. m = (k, t, v) \<and> reads_as n d t v)) kts ms"
  shows "reads_as (Suc (n + length kts)) (Suc d) (write_object kts) (JObj ms)"
proof -
  have "p_value m (Suc d) (write_object kts @ r) = Some (JObj ms, r)" if m: "Suc (n + length kts) \<le> m" for m r
  proof (cases kts)
    case Nil
    then show ?thesis using assms m by (cases m) (simp_all add: write_object_def p_value.simps)
  next
    case (Cons kt kts')
    obtain m' where m': "m = Suc m'" using m by (cases m) auto
    let ?b = "comma_sep (map (\<lambda>(k, t). quote k @ '':'' @ t) kts) @ CHR ''}'' # r"
    have "p_members m' d ?b = Some (ms, r)" by (rule p_members_write [OF assms]) (use Cons m m' in auto)
    moreover have ne: "dq \<noteq> CHR ''}''" by code_simp
    have "take 1 (skip_ws ?b) \<noteq> ''}''"
      using Cons ne by (cases kts') (auto simp: quote_def comma_sep_Cons split: prod.splits)
    ultimately show ?thesis by (simp add: write_object_def p_value.simps m')
  qed
  then show ?thesis by (simp add: reads_as_def write_object_def)
qed

lemma reads_as_more: "reads_as n d s v \<Longrightarrow> n \<le> m \<Longrightarrow> reads_as m d s v"
  by (simp add: reads_as_def)

text \<open>The three literals.\<close>

lemma reads_as_literal:
  assumes "s \<noteq> []" "\<not> is_ws (hd s)" "\<And>m r. p_value (Suc m) d (s @ r) = Some (v, r)"
  shows "reads_as 1 d s v"
proof -
  have "p_value m d (s @ r) = Some (v, r)" if "1 \<le> m" for m r using that assms(3) by (cases m) auto
  then show ?thesis using assms(1,2) by (simp add: reads_as_def)
qed

lemma not_ws_literal: "\<not> is_ws (CHR ''n'')" "\<not> is_ws (CHR ''t'')" "\<not> is_ws (CHR ''f'')"
    "CHR ''n'' \<noteq> dq" "CHR ''t'' \<noteq> dq" "CHR ''f'' \<noteq> dq"
  by code_simp+

lemma reads_as_null: "reads_as 1 d ''null'' JNull"
  and reads_as_true: "reads_as 1 d ''true'' (JBool True)"
  and reads_as_false: "reads_as 1 d ''false'' (JBool False)"
  by (rule reads_as_literal; simp add: p_value.simps not_ws_literal)+

text \<open>What is written is read back, with the fuel of the readers above.\<close>

lemma reads_as_json_first:
  "reads_as n maxNestingDepth s v \<Longrightarrow> plain_end r \<Longrightarrow> json_first (s @ r) = Some (v, r)"
  using reads_asD(1) by (fastforce simp: json_first_iff)

lemma reads_as_json_text: "reads_as n maxNestingDepth s v \<Longrightarrow> json_text s = Some v"
  using reads_asD(1) [of n maxNestingDepth s v n Nil] by (fastforce simp: json_text_iff skip_ws_def)

declare valid_utf8.simps(2) [simp del] foldName.simps(2) [simp del]

lemma valid_utf8_ascii: "list_all (\<lambda>c. nat_of_byte c < 128) s \<Longrightarrow> valid_utf8 s"
  by (induction s) (simp_all add: RuneError_def valid_utf8.simps)

end
