(* ===== verification/JobPayload.thy ===== *)
theory JobPayload
  imports WorkerSvc Json
begin

section \<open>The payload of a job (internal/workersvc, execute)\<close>

text \<open>
  What \<open>json.Unmarshal(rawPayload, &p)\<close> makes of a stored payload: the whole text is one JSON value,
  member names match the tags up to case, \<open>null\<close> leaves a field alone, and a number that is not a
  64-bit integer or a value of another type is an error, whose text is the parameter \<open>jerr\<close>.

  Shown: the payload contract of the stub, from the bytes of the job to its sleep and outcome
  (\<open>payload_contract\<close>).
\<close>

definition payload_field :: "string \<Rightarrow> string \<Rightarrow> json \<Rightarrow> payload \<Rightarrow> payload option" where
  "payload_field k raw v p =
     (if k = ''DURATION_MS'' then map_option (\<lambda>n. p\<lparr>pl_DurationMS := word_of_int n\<rparr>) (decode_int v (sint (pl_DurationMS p)))
      else if k = ''FAIL'' then map_option (\<lambda>b. p\<lparr>pl_Fail := b\<rparr>) (decode_bool v (pl_Fail p))
      else Some p)"

definition decode_payload :: "(string \<Rightarrow> string) \<Rightarrow> string \<Rightarrow> string + payload" where
  "decode_payload jerr raw =
     (case Option.bind (json_text raw) (\<lambda>v. decode_struct payload_field v \<lparr>pl_DurationMS = 0, pl_Fail = False\<rparr>) of
        None \<Rightarrow> Inl (jerr raw)
      | Some p \<Rightarrow> Inr p)"

text \<open>The payload as a client writes it.\<close>

definition write_payload :: "nat \<Rightarrow> bool \<Rightarrow> string" where
  "write_payload n fl = write_object [(''duration_ms'', show_nat n), (''fail'', if fl then ''true'' else ''false'')]"

lemma payload_names: "valid_utf8 ''duration_ms''" "valid_utf8 ''fail''"
  by (simp_all add: valid_utf8_ascii nat_of_byte_def)

lemma folded_payload_names: "foldName ''duration_ms'' = ''DURATION_MS''" "foldName ''fail'' = ''FAIL''"
  by code_simp+

lemma decode_write_payload:
  assumes "n < 2 ^ 63"
  shows "decode_payload jerr (write_payload n fl) = Inr \<lparr>pl_DurationMS = word_of_int (int n), pl_Fail = fl\<rparr>"
proof -
  let ?t = "if fl then ''true'' else ''false''"
  let ?kts = "[(''duration_ms'', show_nat n), (''fail'', ?t)]"
  let ?ms = "[(''duration_ms'', show_nat n, JNum (show_nat n)), (''fail'', ?t, JBool fl)]"
  have "reads_as 1 d ?t (JBool fl)" for d using reads_as_true reads_as_false by simp
  then have "reads_as (Suc (1 + length ?kts)) (Suc (maxNestingDepth - 1)) (write_payload n fl) (JObj ?ms)"
    unfolding write_payload_def by (intro reads_as_object) (use reads_as_show_nat payload_names in simp)
  then have "reads_as (Suc (1 + length ?kts)) maxNestingDepth (write_payload n fl) (JObj ?ms)" by (simp add: maxNestingDepth_def)
  from reads_as_json_text [OF this] show ?thesis
    using assms by (simp add: decode_payload_def decode_struct_def payload_field_def decode_int_def decode_bool_def folded_payload_names)
qed

text \<open>
  C20 The payload contract of a job.  An absent payload sleeps one second and succeeds.  Bytes that decode,
  such as \<open>{"duration_ms":n,"fail":f}\<close>, with a duration of n milliseconds between 0 and 9223372036854 sleep
  n milliseconds, capped at 60 seconds and with 1 second for 0, and fail exactly if asked to.  Bytes that do
  not decode, and those that decode to a negative duration, fail without sleeping.  Nothing sleeps
  longer than 60 seconds.  (Beyond 9223372036854 ms the product with a millisecond overflows: \<open>sleep_overflow\<close>.)
\<close>

theorem payload_contract:
  fixes jerr :: "string \<Rightarrow> string"
  defines "stub \<equiv> execute (decode_payload jerr)"
  shows "stub [] = (Some defaultSleep, None) \<and> sint defaultSleep = 1000000000
    \<and> (n \<le> 9223372036854 \<longrightarrow> (\<exists>sl. stub (write_payload n fl) = (Some sl, if fl then Some ''job requested failure'' else None)
         \<and> sint sl = (if n = 0 then 1000000000 else min 60000000000 (int n * 1000000))))
    \<and> (\<forall>p. raw \<noteq> [] \<longrightarrow> decode_payload jerr raw = Inr p \<longrightarrow> 0 \<le> sint (pl_DurationMS p) \<longrightarrow> sint (pl_DurationMS p) \<le> 9223372036854 \<longrightarrow>
         (\<exists>sl. stub raw = (Some sl, if pl_Fail p then Some ''job requested failure'' else None)
            \<and> sint sl = (if sint (pl_DurationMS p) = 0 then 1000000000 else min 60000000000 (sint (pl_DurationMS p) * 1000000))))
    \<and> (raw \<noteq> [] \<longrightarrow> isl (decode_payload jerr raw) \<longrightarrow> stub raw = (None, Some (''invalid payload: '' @ jerr raw)))
    \<and> (\<forall>p. raw \<noteq> [] \<longrightarrow> decode_payload jerr raw = Inr p \<longrightarrow> sint (pl_DurationMS p) < 0
         \<longrightarrow> stub raw = (None, Some ''invalid payload: duration_ms must be >= 0''))
    \<and> (\<forall>sl. fst (stub raw) = Some sl \<longrightarrow> sint sl \<le> 60000000000)"
proof (intro conjI allI impI)
  have "sint maxSleep = 60000000000" "sint defaultSleep = 1000000000" by code_simp+
  then show "stub [] = (Some defaultSleep, None)" "sint defaultSleep = 1000000000"
    by (simp_all add: stub_def execute_def sleep_of_def)
  show "stub raw = (None, Some (''invalid payload: '' @ jerr raw))" if "raw \<noteq> []" "isl (decode_payload jerr raw)"
    using that by (auto simp: stub_def execute_def decode_payload_def split: option.splits sum.splits)
  show "stub raw = (None, Some ''invalid payload: duration_ms must be >= 0'')"
    if "raw \<noteq> []" "decode_payload jerr raw = Inr p" "sint (pl_DurationMS p) < 0" for p
    using that by (simp add: stub_def execute_def)
  show "sint sl \<le> 60000000000" if "fst (stub raw) = Some sl" for sl
    using sleep_bounded [OF that [unfolded stub_def]] by blast
  have sleeps: "\<exists>sl. stub x = (Some sl, if pl_Fail p then Some ''job requested failure'' else None)
      \<and> sint sl = (if sint (pl_DurationMS p) = 0 then 1000000000 else min 60000000000 (sint (pl_DurationMS p) * 1000000))"
    if "x \<noteq> []" and d: "decode_payload jerr x = Inr p" and "0 \<le> sint (pl_DurationMS p)" "sint (pl_DurationMS p) \<le> 9223372036854" for x p
  proof -
    have e: "stub x = (Some (sleep_of p), if pl_Fail p then Some ''job requested failure'' else None)"
      using that by (simp add: stub_def execute_def)
    from sleep_bounded [of "decode_payload jerr" x "sleep_of p"] e d that show ?thesis by (simp add: stub_def)
  qed
  then show "\<exists>sl. stub raw = (Some sl, if pl_Fail p then Some ''job requested failure'' else None)
      \<and> sint sl = (if sint (pl_DurationMS p) = 0 then 1000000000 else min 60000000000 (sint (pl_DurationMS p) * 1000000))"
    if "raw \<noteq> []" "decode_payload jerr raw = Inr p" "0 \<le> sint (pl_DurationMS p)" "sint (pl_DurationMS p) \<le> 9223372036854" for p
    using that by blast
  assume n: "n \<le> 9223372036854"
  let ?p = "\<lparr>pl_DurationMS = word_of_int (int n), pl_Fail = fl\<rparr>" and ?raw = "write_payload n fl"
  have s: "sint (word_of_int (int n) :: 64 word) = int n"
    using n by (intro sint_small_int) simp_all
  have d: "decode_payload jerr ?raw = Inr ?p" using n by (intro decode_write_payload) simp
  have ne: "?raw \<noteq> []" by (simp add: write_payload_def write_object_def)
  have f: "sint (pl_DurationMS ?p) = int n" "pl_Fail ?p = fl" "int n = 0 \<longleftrightarrow> n = 0" using s by (simp_all del: of_int_of_nat_eq)
  show "\<exists>sl. stub ?raw = (Some sl, if fl then Some ''job requested failure'' else None)
         \<and> sint sl = (if n = 0 then 1000000000 else min 60000000000 (int n * 1000000))"
    using n by (intro sleeps [OF ne d, unfolded f]) simp_all
qed

theorem payload_contract_witness:
  "\<exists>sl. execute (decode_payload (\<lambda>_. [])) (write_payload 90000 True) = (Some sl, Some ''job requested failure'') \<and> sint sl = 60000000000"
  using payload_contract [of "\<lambda>_. []" 90000 True "[]"] by auto

end
