(* ===== verification/Completion.thy ===== *)
theory Completion
  imports Scheduler JobPayload StateSvc
begin

section \<open>A job from its command to its outcome\<close>

text \<open>
  The whole way of one job after its submission, on the scheduler of \<open>Scheduler\<close>: the relay claims its
  command, the dispatcher offers it to the first candidate, the worker's handler records the acceptance
  and starts the background run, the run executes the payload and records the outcome, the reporter
  tells a statemanager, and the job is read back.

  Shown: with a store that answers and a first candidate that has a free slot, one sweep places the
  job and its run finishes it with the outcome that the payload asks for (\<open>job_runs_end_to_end\<close>).
\<close>

text \<open>The claim of the only pending command.\<close>

lemma claim_one:
  assumes "pg_trip p = (\<lambda>_. Done)" "pending_rows d = [c]" "filter (\<lambda>r. r_id r = o_job_id c) (jobs d) = [j]"
  shows "ClaimOutbox p d drainBatch = Inr [\<lparr>oe_ID = o_id c, oe_Attempts = o_attempts c, oe_Job = job_of_row j\<rparr>]"
proof -
  have one: "reorder is [x] = [x]" for "is" and x :: "outbox_row \<times> job_row" by (cases "is") simp_all
  have "filter (\<lambda>c. o_status c = OutboxPending) (outbox d) = [c]" using assms(2) by (simp add: pending_rows_def)
  then show ?thesis using assms(1,3) by (simp add: ClaimOutbox_def trip_error_def rows_error_def drainBatch_def one)
qed

text \<open>The row after a worker accepted the job, and after its run.\<close>

definition accepted_row :: "pg \<Rightarrow> string \<Rightarrow> job_row \<Rightarrow> job_row" where
  "accepted_row p inst r = r\<lparr>r_status := StatusScheduled, r_assigned_worker_id := Some inst, r_updated_at := pg_now p\<rparr>"

definition finished_row :: "pg \<Rightarrow> pg \<Rightarrow> string option \<Rightarrow> job_row \<Rightarrow> job_row" where
  "finished_row p1 p2 err r = r\<lparr>r_status := (case err of None \<Rightarrow> StatusSucceeded | Some _ \<Rightarrow> StatusFailed),
     r_started_at := Some (pg_now p1), r_attempts := r_attempts r + 1,
     r_error := nullif_empty (case err of None \<Rightarrow> [] | Some e \<Rightarrow> e), r_finished_at := Some (pg_now p2), r_updated_at := pg_now p2\<rparr>"

lemma ExecuteJob_accepts:
  assumes "pg_trip p = (\<lambda>_. Done)" "pg_uuid_in p (r_id r) = Some (r_id r)" "filter (\<lambda>x. r_id x = r_id r) (jobs d) = [r]"
    and "r_id r \<noteq> []" "sint (ws_inflightN s) < sint (ws_capacity s)"
  shows "ExecuteJob p s d (request_of (job_of_row r)) =
     (Inr \<lparr>xs_WorkerInstance = ws_instance s\<rparr>, Some (r_id r, r_payload r),
      s\<lparr>ws_inflightN := ws_inflightN s + 1, ws_inflight := ws_inflight s + 1\<rparr>,
      on_job (r_id r) (accepted_row p (ws_instance s)) d)"
proof -
  have "accepted_row p (ws_instance s) = (\<lambda>r. r\<lparr>r_status := StatusScheduled, r_assigned_worker_id := Some (ws_instance s), r_updated_at := pg_now p\<rparr>)"
    by (simp add: accepted_row_def fun_eq_iff)
  then show ?thesis
    using MarkScheduled_done [OF _ assms(2,3), of "ws_instance s"] assms by (simp add: ExecuteJob_def request_of_def job_of_row_def Let_def)
qed

lemma run_finishes:
  fixes decode :: "string \<Rightarrow> string + payload" and raw :: string
  assumes "\<forall>p \<in> {p1, p2}. pg_trip p = (\<lambda>_. Done) \<and> pg_uuid_in p (r_id r) = Some (r_id r)"
    and f: "filter (\<lambda>x. r_id x = r_id r) (jobs d) = [r]" and "r_attempts r < 2147483647"
  defines "err \<equiv> snd (execute decode raw)"
  shows "\<exists>d'. run decode p1 p2 s d (r_id r) raw =
      (if ws_reporter s then Some (r_id r, ws_instance s, err = None) else None,
       s\<lparr>ws_inflightN := ws_inflightN s - 1, ws_inflight := ws_inflight s - 1\<rparr>, d')
    \<and> filter (\<lambda>x. r_id x = r_id r) (jobs d') = [finished_row p1 p2 err r]"
proof -
  let ?F = "filter (\<lambda>x. r_id x = r_id r)" and ?ok = "err = None" and ?msg = "case err of None \<Rightarrow> [] | Some e \<Rightarrow> e"
  obtain x d1 where m1: "MarkRunning p1 d (r_id r) = (x, d1)" by fastforce
  obtain y d2 where m2: "MarkFinished p2 d1 (r_id r) ?ok ?msg = (y, d2)" by fastforce
  have f1: "x = Inr ()" "?F (jobs d1) = [r\<lparr>r_status := StatusRunning, r_started_at := Some (pg_now p1),
      r_attempts := r_attempts r + 1, r_updated_at := pg_now p1\<rparr>]"
    using MarkRunning_done [OF _ _ f assms(3), of p1 "r_id r"] assms(1) f m1 by (auto simp: filter_on_job simp del: on_job_sel)
  have f2: "y = Inr ()" "?F (jobs d2) = [finished_row p1 p2 err r]"
    using MarkFinished_done [OF _ _ f1(2), of p2 "r_id r" ?ok ?msg] assms(1) f1(2) m2
    by (auto simp: filter_on_job finished_row_def split: option.splits simp del: on_job_sel)
  have "(case err of None \<Rightarrow> (True, []) | Some e \<Rightarrow> (False, e)) = (?ok, ?msg)" by (simp split: option.splits)
  then have "run decode p1 p2 s d (r_id r) raw = (if ws_reporter s then Some (r_id r, ws_instance s, ?ok) else None,
       s\<lparr>ws_inflightN := ws_inflightN s - 1, ws_inflight := ws_inflight s - 1\<rparr>, d2)"
    using m1 m2 f1(1) f2(1) by (simp add: run_def Let_def flip: err_def)
  then show ?thesis using f2(2) by blast
qed

text \<open>One sweep of the relay places the job with the first candidate.\<close>

definition accepted_by :: "WorkerServer \<Rightarrow> WorkerServer" where
  "accepted_by s = s\<lparr>ws_inflightN := ws_inflightN s + 1, ws_inflight := ws_inflight s + 1\<rparr>"

definition sweep_ready :: "world Dispatcher \<Rightarrow> world \<Rightarrow> outbox_row \<Rightarrow> job_row \<Rightarrow> string \<Rightarrow> WorkerServer \<Rightarrow> bool" where
  "sweep_ready disp w c j addr s \<longleftrightarrow>
     pending_rows (wd_db w) = [c] \<and> o_attempts c < maxDispatchAttempts
     \<and> j \<in> set (jobs (wd_db w)) \<and> o_job_id c = r_id j \<and> r_id j \<noteq> [] \<and> r_status j = StatusPending \<and> r_attempts j < maxExecutionAttempts
     \<and> (\<exists>x xs. fst (eligible disp (ticked w)) = x # xs \<and> dw_client x = worker_client addr)
     \<and> wd_servers w addr = Some s \<and> sint (ws_inflightN s) < sint (ws_capacity s) \<and> en_rpc (env_of (ticked w)) = Done"

lemma sweep_accepts:
  assumes h: "healthy w" and ready: "sweep_ready disp w c j addr s"
  defines "d1 \<equiv> on_job (r_id j) (accepted_row (en_pg (env_of (ticked w))) (ws_instance s)) (wd_db w)"
  shows "worker_client addr (request_of (job_of_row j)) (ticked w) =
      (Inr \<lparr>xs_WorkerInstance = ws_instance s\<rparr>, (ticked (ticked w))\<lparr>wd_db := d1, wd_servers := (wd_servers w)(addr \<mapsto> accepted_by s),
         wd_tasks := wd_tasks w @ [(addr, r_id j, r_payload j)]\<rparr>)"
proof -
  let ?p = "en_pg (env_of (ticked w))"
  have j: "j \<in> set (jobs (wd_db w))" "r_id j \<noteq> []" "sint (ws_inflightN s) < sint (ws_capacity s)"
    using ready by (simp_all add: sweep_ready_def)
  have f: "filter (\<lambda>r. r_id r = r_id j) (jobs (wd_db w)) = [j]"
    using filter_unique [OF _ j(1), of r_id] h by (simp add: healthy_def wf_db_def)
  have p: "pg_trip ?p = (\<lambda>_. Done)" "pg_uuid_in ?p (r_id j) = Some (r_id j)"
    using healthy_env [OF healthy_ticked [OF h]] j(1) by (simp_all add: env_fine_def ids_def)
  show ?thesis
    using ExecuteJob_accepts [OF p f j(2,3)] ready
    by (simp add: worker_client_def sweep_ready_def d1_def accepted_by_def ticked_def)
qed

lemma sweep_places:
  assumes h: "healthy w" and ready: "sweep_ready disp w c j addr s"
  defines "w' \<equiv> drain (scheduler_relay disp) w"
  shows "wd_servers w' = (wd_servers w)(addr \<mapsto> accepted_by s)"
    "wd_tasks w' = wd_tasks w @ [(addr, r_id j, r_payload j)]"
    "filter (\<lambda>r. r_id r = r_id j) (jobs (wd_db w')) = [accepted_row (en_pg (env_of (ticked w))) (ws_instance s) j]"
    "commands (wd_db w') (o_id c) = Some (OutboxDispatched, o_attempts c)"
proof -
  let ?R = "scheduler_relay disp" and ?e = "\<lparr>oe_ID = o_id c, oe_Attempts = o_attempts c, oe_Job = job_of_row j\<rparr>"
  note r = ready [unfolded sweep_ready_def]
  have wf: "wf_db (wd_db w)" using h by (simp add: healthy_def)
  have f: "filter (\<lambda>r. r_id r = r_id j) (jobs (wd_db w)) = [j]"
    using filter_unique [of r_id "jobs (wd_db w)" j] wf r by (simp add: wf_db_def)
  have c: "c \<in> set (outbox (wd_db w))" "o_status c = OutboxPending"
    using arg_cong [OF conjunct1 [OF r], of set] by (auto simp: pending_rows_def)
  have "ClaimOutbox (en_pg (env_of w)) (wd_db w) drainBatch = Inr [?e]"
    using claim_one [of "en_pg (env_of w)" "wd_db w" c j] healthy_env [OF h] r f by (simp add: env_fine_def)
  then have w': "w' = handle ?R ?e (ticked w)" by (simp add: w'_def drain_def scheduler_relay_sel on_store_eq ticked_def)
  obtain w1 where call: "worker_client addr (request_of (job_of_row j)) (ticked w) = (Inr \<lparr>xs_WorkerInstance = ws_instance s\<rparr>, w1)"
    and w1: "wd_servers w1 = (wd_servers w)(addr \<mapsto> accepted_by s)" "wd_tasks w1 = wd_tasks w @ [(addr, r_id j, r_payload j)]"
      "wd_db w1 = on_job (r_id j) (accepted_row (en_pg (env_of (ticked w))) (ws_instance s)) (wd_db w)"
    using sweep_accepts [OF h ready] by auto
  have h1: "healthy w1" "commands (wd_db w1) = commands (wd_db w)"
    using worker_client_healthy [OF healthy_ticked [OF h] call] by simp_all
  have "Dispatch disp (job_of_row j) (ticked w) = (Inr (ws_instance s), snd (eligible disp (ticked w)), w1)"
    using r call by (auto simp: Dispatch_def case_prod_beta Let_def)
  then have "w' = snd (node_ApplyPlacement (r_id j) (ws_instance s) (snd (on_store (\<lambda>p d. MarkOutboxDispatched p d (o_id c)) w1)))"
    using r by (simp add: w' handle_def scheduler_relay_sel case_prod_beta job_of_row_def)
  then have same: "wd_db w' = snd (MarkOutboxDispatched (en_pg (env_of w1)) (wd_db w1) (o_id c))"
      "wd_servers w' = wd_servers w1" "wd_tasks w' = wd_tasks w1"
    by (simp_all add: node_ApplyPlacement_def on_store_eq ticked_def split: option.splits)
  show "wd_servers w' = (wd_servers w)(addr \<mapsto> accepted_by s)" "wd_tasks w' = wd_tasks w @ [(addr, r_id j, r_payload j)]"
    using same w1 by simp_all
  have cmd: "commands (wd_db w1) (o_id c) = Some (OutboxPending, o_attempts c)"
    unfolding h1(2) commands_Some [OF wf] by (intro bexI [OF _ c(1)] conjI) (simp_all add: Scheduler.cell_def c(2))
  then show "commands (wd_db w') (o_id c) = Some (OutboxDispatched, o_attempts c)"
    using scheduler_mark(1) [OF h1(1) cmd surjective_pairing] same(1) by (simp add: on_store_eq)
  have "o_id c \<in> ids (wd_db w1)" using c w1(3) by (simp add: ids_def)
  then have "jobs (wd_db w') = jobs (wd_db w1)"
    using healthy_env [OF h1(1)] same(1) by (simp add: command_writes(1) env_fine_def)
  then show "filter (\<lambda>r. r_id r = r_id j) (jobs (wd_db w')) = [accepted_row (en_pg (env_of (ticked w))) (ws_instance s) j]"
    using f by (simp add: w1(3) filter_on_job accepted_row_def del: on_job_sel)
qed

text \<open>
  C4 A job from its command to its outcome.  With a store that answers, when the job's command is the
  only pending one, within its budgets, and the first candidate of the dispatcher is reachable and has
  a free slot, one sweep of the relay gives the job to that worker and closes the command; the run the
  worker starts then records exactly what the payload asks for, gives the slot back, and, with a
  reporter, makes the statemanager it reports to count the outcome once in its own shard.  Read back,
  the job has its name and payload, the worker, one more attempt, the terminal status and the error.
\<close>

theorem job_runs_end_to_end:
  fixes decode :: "string \<Rightarrow> string + payload"
  assumes "healthy w" "sweep_ready disp w c j addr s" "ws_instance s \<noteq> []"
    and pgs: "\<forall>p \<in> {p1, p2, p3}. pg_trip p = (\<lambda>_. Done) \<and> pg_uuid_in p (r_id j) = Some (r_id j)"
    and sweep: "w' = drain (scheduler_relay disp) w" "wd_servers w' addr = Some s1" "last (wd_tasks w') = (a, i, raw)"
    and run: "run decode p1 p2 s1 (wd_db w') i raw = (rep, s2, d)"
  shows "a = addr \<and> commands (wd_db w') (o_id c) = Some (OutboxDispatched, o_attempts c) \<and> s2 = s
    \<and> rep = (if ws_reporter s then Some (r_id j, ws_instance s, snd (execute decode (r_payload j)) = None) else None)
    \<and> (\<forall>job worker ok. rep = Some (job, worker, ok) \<longrightarrow>
         sm_byStatus (Reporter_ReportJobEvent (\<lambda>q sm. ReportJobEvent ch now sm q) job worker ok sm)
           = on_counter (\<lambda>n. GCounter_Inc n (sm_replica sm)) (sm_byStatus sm)
               (case snd (execute decode (r_payload j)) of None \<Rightarrow> OutcomeSucceeded | Some _ \<Rightarrow> OutcomeFailed))
    \<and> (\<exists>job. GetJob p3 d (r_id j) = Inr job \<and> j_Name job = r_name j \<and> j_Payload job = r_payload j
         \<and> j_AssignedWorker job = ws_instance s \<and> j_Attempts job = r_attempts j + 1
         \<and> j_Status job = (case snd (execute decode (r_payload j)) of None \<Rightarrow> StatusSucceeded | Some _ \<Rightarrow> StatusFailed)
         \<and> j_Error job = (case snd (execute decode (r_payload j)) of None \<Rightarrow> [] | Some e \<Rightarrow> e))"
proof -
  note pl = sweep_places [OF assms(1,2), folded sweep(1)]
  let ?r = "accepted_row (en_pg (env_of (ticked w))) (ws_instance s) j" and ?err = "snd (execute decode (r_payload j))"
  have t: "a = addr" "i = r_id j" "raw = r_payload j" "s1 = accepted_by s" using sweep(2,3) pl(1,2) by simp_all
  have id: "r_id ?r = r_id j" "r_attempts ?r = r_attempts j" by (simp_all add: accepted_row_def)
  have ne: "r_id j \<noteq> []" "r_attempts j < 2147483647" using assms(2) by (simp_all add: sweep_ready_def maxExecutionAttempts_def)
  from run_finishes [where ?p1.0 = p1 and ?p2.0 = p2 and r = ?r and d = "wd_db w'" and s = s1 and decode = decode and raw = raw] pgs pl(3) ne run obtain
    rep: "rep = (if ws_reporter s1 then Some (r_id j, ws_instance s1, ?err = None) else None)"
      "s2 = s1\<lparr>ws_inflightN := ws_inflightN s1 - 1, ws_inflight := ws_inflight s1 - 1\<rparr>"
    and f: "filter (\<lambda>x. r_id x = r_id j) (jobs d) = [finished_row p1 p2 ?err ?r]" by (auto simp: id t)
  have s: "s2 = s" "ws_reporter s1 = ws_reporter s" "ws_instance s1 = ws_instance s" using rep(2) by (simp_all add: t accepted_by_def)
  have "GetJob p3 d (r_id j) = Inr (job_of_row (finished_row p1 p2 ?err ?r))" using GetJob_done [OF _ _ f] pgs by simp
  moreover have "sm_byStatus (Reporter_ReportJobEvent (\<lambda>q sm. ReportJobEvent ch now sm q) job worker ok sm)
      = on_counter (\<lambda>n. GCounter_Inc n (sm_replica sm)) (sm_byStatus sm) (case ?err of None \<Rightarrow> OutcomeSucceeded | Some _ \<Rightarrow> OutcomeFailed)"
    if "rep = Some (job, worker, ok)" for job worker ok
    using that rep(1) s ne assms(3)
    by (auto simp: Reporter_ReportJobEvent_def ReportJobEvent_def split: if_splits option.splits)
  ultimately show ?thesis using rep(1) s t(1) pl(4)
    by (simp add: job_of_row_def finished_row_def accepted_row_def coalesce_def nullif_empty_def split: option.splits)
qed

definition ex_pending :: job_row where
  "ex_pending = (ex_row ''j1'' StatusPending None)\<lparr>r_payload := write_payload 5 True\<rparr>"

definition ex_start :: world where
  "ex_start = ex_world\<lparr>wd_db := \<lparr>jobs = [ex_pending], outbox = [new_outbox_row ex_pg ''o1'' ''j1'']\<rparr>,
     wd_reg := Registry_Record 90 (Registry_New workerStaleTTL workerDeadTTL) ''w1'' 4 0,
     wd_servers := (\<lambda>_. None)(''a'' \<mapsto> WorkerServer_New ''w1'' 4 True)\<rparr>"

definition ex_first :: "world worker" where
  "ex_first = \<lparr>dw_name = ''w1'', dw_client = worker_client ''a'', dw_close = Some ''a''\<rparr>"

definition ex_one_worker :: "world Dispatcher" where
  "ex_one_worker = \<lparr>dp_workers = [ex_first], dp_byName = fmupd ''w1'' ex_first fmempty, dp_candidates = Some candidates_of, dp_next = 0\<rparr>"

lemma ex_one_worker: "scheduler_dispatcher (\<lambda>_. []) (fmupd ''w1'' ''a'' fmempty) = Inr ex_one_worker"
proof -
  have "sort (range_keys (\<lambda>_. []) (fmupd ''w1'' ''a'' fmempty)) = [''w1'']" "fmupd ''w1'' ''a'' fmempty \<noteq> fmempty" by code_simp+
  then show ?thesis
    by (simp add: scheduler_dispatcher_def Dispatcher_New_def Let_def ex_one_worker_def ex_first_def)
qed

lemma healthy_ex_start: "healthy ex_start"
  by (simp add: healthy_def ex_start_def ex_world_def ex_env_def env_fine_def ex_pg_def wf_db_def ex_pending_def ex_row_def
      new_outbox_row_def job_statuses_def outbox_statuses_def)

lemma ready_ex_start:
  "sweep_ready ex_one_worker ex_start (new_outbox_row ex_pg ''o1'' ''j1'') ex_pending ''a'' (WorkerServer_New ''w1'' 4 True)"
proof -
  have "candidates_of (ticked ex_start) = [''w1'']" by code_simp
  then have "fst (eligible ex_one_worker (ticked ex_start)) = [ex_first]"
    by (simp add: eligible_def ex_one_worker_def map_filter_simps)
  moreover have "sint (0 :: 32 word) < sint (word_of_int 4 :: 32 word)" by code_simp
  ultimately show ?thesis
    by (simp add: sweep_ready_def ex_first_def ex_start_def ex_world_def ex_env_def env_of_def ticked_def pending_rows_def ex_pending_def
        ex_row_def new_outbox_row_def maxDispatchAttempts_def maxExecutionAttempts_def WorkerServer_New_def)
qed

theorem job_runs_end_to_end_witness:
  "\<exists>w' s1 rep s2 d job. w' = drain (scheduler_relay ex_one_worker) ex_start \<and> wd_servers w' ''a'' = Some s1
     \<and> run (decode_payload (\<lambda>_. [])) ex_pg ex_pg s1 (wd_db w') ''j1'' (write_payload 5 True) = (rep, s2, d)
     \<and> rep = Some (''j1'', ''w1'', False) \<and> GetJob ex_pg d ''j1'' = Inr job
     \<and> j_Status job = StatusFailed \<and> j_Error job = ''job requested failure''"
proof -
  let ?w = "drain (scheduler_relay ex_one_worker) ex_start" and ?s = "WorkerServer_New ''w1'' 4 True" and ?D = "decode_payload (\<lambda>_. [])"
  note pl = sweep_places [OF healthy_ex_start ready_ex_start]
  have j: "r_id ex_pending = ''j1''" "r_payload ex_pending = write_payload 5 True" by (simp_all add: ex_pending_def ex_row_def)
  have s: "ws_instance ?s = ''w1''" "ws_reporter ?s" by (simp_all add: WorkerServer_New_def)
  have one: "wd_servers ?w ''a'' = Some (accepted_by ?s)" "last (wd_tasks ?w) = (''a'', ''j1'', write_payload 5 True)"
    using pl(1,2) j by simp_all
  obtain rep s2 d where run: "run ?D ex_pg ex_pg (accepted_by ?s) (wd_db ?w) ''j1'' (write_payload 5 True) = (rep, s2, d)"
    by (metis prod_cases3)
  have "sint (5 :: 64 word) = 5" by code_simp
  moreover have "write_payload 5 True \<noteq> []" by (simp add: write_payload_def write_object_def)
  ultimately have x: "snd (execute ?D (write_payload 5 True)) = Some ''job requested failure''"
    using decode_write_payload [of 5 "\<lambda>_. []" True] by (simp add: execute_def)
  have p: "\<forall>p \<in> {ex_pg, ex_pg, ex_pg}. pg_trip p = (\<lambda>_. Done) \<and> pg_uuid_in p (r_id ex_pending) = Some (r_id ex_pending)"
    by (simp add: ex_pg_def)
  from job_runs_end_to_end [where ch = "\<lambda>_. []" and now = 0 and sm = "StateServer_New ''sm1''", OF healthy_ex_start ready_ex_start _ p refl one run] show ?thesis
    using one run s by (auto simp: j x)
qed

end
