(* ===== verification/GoTime.thy ===== *)
theory GoTime
  imports Json
begin

section \<open>Times and their RFC 3339 text\<close>

text \<open>
  \<open>time.Time\<close> as far as the placement log uses it: a civil time with its offset from UTC in minutes,
  the text that \<open>MarshalJSON\<close> writes and \<open>UnmarshalJSON\<close> reads.  Reading is \<open>parseRFC3339\<close>; the
  lenient parser that the package falls back to on other texts is the argument \<open>lenient\<close>, and nothing
  the program writes reaches it.  \<open>UnixNano\<close> counts nanoseconds from the epoch.

  Shown: a UTC time of the years 0 to 9999 is written and read back unchanged (\<open>parse_format_time\<close>).
\<close>

record gotime =
  t_year :: nat
  t_month :: nat
  t_day :: nat
  t_hour :: nat
  t_minute :: nat
  t_second :: nat
  t_nanosecond :: nat
  t_offset :: int

text \<open>The zero \<open>time.Time\<close>.\<close>

definition zero_time :: gotime where
  "zero_time = \<lparr>t_year = 1, t_month = 1, t_day = 1, t_hour = 0, t_minute = 0, t_second = 0, t_nanosecond = 0, t_offset = 0\<rparr>"

definition isLeap :: "nat \<Rightarrow> bool" where
  "isLeap y \<longleftrightarrow> y mod 4 = 0 \<and> (y mod 100 \<noteq> 0 \<or> y mod 400 = 0)"

definition daysIn :: "nat \<Rightarrow> nat \<Rightarrow> nat" where
  "daysIn m y = (if m = 2 then (if isLeap y then 29 else 28) else if m \<in> {4, 6, 9, 11} then 30 else 31)"

text \<open>Days since the epoch: whole years, whole months, days.\<close>

definition days_before_year :: "nat \<Rightarrow> int" where
  "days_before_year y =
     (let p = int y - 1 in 365 * int y + p div 4 - p div 100 + p div 400 + 1) - 719528"

definition days_before_month :: "nat \<Rightarrow> nat \<Rightarrow> nat" where
  "days_before_month m y = sum_list (map (\<lambda>k. daysIn k y) [1..<m])"

definition UnixNano :: "gotime \<Rightarrow> int" where
  "UnixNano t =
     (((days_before_year (t_year t) + int (days_before_month (t_month t) (t_year t)) + int (t_day t) - 1) * 24
        + int (t_hour t)) * 60 + int (t_minute t) - t_offset t) * 60000000000
     + int (t_second t) * 1000000000 + int (t_nanosecond t)"

lemma UnixNano_examples:
  "UnixNano (zero_time\<lparr>t_year := 1970\<rparr>) = 0"
  "UnixNano (zero_time\<lparr>t_year := 2000, t_month := 3, t_day := 1\<rparr>) = 951868800 * 1000000000"
  "UnixNano zero_time = - 62135596800 * 1000000000"
  by code_simp+

definition wf_time :: "gotime \<Rightarrow> bool" where
  "wf_time t \<longleftrightarrow> t_year t \<le> 9999 \<and> 1 \<le> t_month t \<and> t_month t \<le> 12 \<and> 1 \<le> t_day t \<and> t_day t \<le> daysIn (t_month t) (t_year t)
     \<and> t_hour t < 24 \<and> t_minute t < 60 \<and> t_second t < 60 \<and> t_nanosecond t < 1000000000 \<and> \<bar>t_offset t\<bar> < 1440"

subsection \<open>Digits of fixed width\<close>

fun pad :: "nat \<Rightarrow> nat \<Rightarrow> string" where
  "pad 0 n = []"
| "pad (Suc w) n = pad w (n div 10) @ [char_of (48 + n mod 10)]"

lemma length_pad [simp]: "length (pad w n) = w"
  by (induction w arbitrary: n) simp_all

lemma pad_digits: "list_all is_digit (pad w n)"
  by (induction w arbitrary: n) (simp_all add: digit_byte)

lemma pad_value: "n < 10 ^ w \<Longrightarrow> digits_value (pad w n) = n"
  by (induction w arbitrary: n) (simp_all add: digit_byte less_mult_imp_div_less mult.commute)

text \<open>\<open>parseUint\<close> of the time package: all digits, within the bounds.\<close>

definition field :: "nat \<Rightarrow> nat \<Rightarrow> string \<Rightarrow> nat option" where
  "field lo hi s =
     (if list_all is_digit s \<and> lo \<le> digits_value s \<and> digits_value s \<le> hi then Some (digits_value s) else None)"

lemma field_pad: "n < 10 ^ w \<Longrightarrow> lo \<le> n \<Longrightarrow> n \<le> hi \<Longrightarrow> field lo hi (pad w n) = Some n"
  by (simp add: field_def pad_digits pad_value)

subsection \<open>Writing and reading\<close>

text \<open>\<open>appendNano\<close>: nine digits without the trailing zeros.\<close>

definition trim_zeros :: "string \<Rightarrow> string" where
  "trim_zeros s = rev (dropWhile (\<lambda>c. c = CHR ''0'') (rev s))"

definition format_nanos :: "nat \<Rightarrow> string" where
  "format_nanos n = (if n = 0 then [] else ''.'' @ trim_zeros (pad 9 n))"

definition format_zone :: "int \<Rightarrow> string" where
  "format_zone z =
     (if z = 0 then ''Z''
      else (if z < 0 then ''-'' else ''+'') @ pad 2 (nat \<bar>z\<bar> div 60) @ '':'' @ pad 2 (nat \<bar>z\<bar> mod 60))"

definition format_time :: "gotime \<Rightarrow> string" where
  "format_time t =
     pad 4 (t_year t) @ ''-'' @ pad 2 (t_month t) @ ''-'' @ pad 2 (t_day t) @ ''T''
     @ pad 2 (t_hour t) @ '':'' @ pad 2 (t_minute t) @ '':'' @ pad 2 (t_second t)
     @ format_nanos (t_nanosecond t) @ format_zone (t_offset t)"

text \<open>\<open>MarshalJSON\<close> refuses years beyond four digits and zones of a day or more.\<close>

definition marshal_time :: "gotime \<Rightarrow> string option" where
  "marshal_time t = (if t_year t \<le> 9999 \<and> \<bar>t_offset t\<bar> < 1440 then Some (quote (format_time t)) else None)"

definition parse_nanos :: "string \<Rightarrow> nat \<times> string" where
  "parse_nanos s =
     (if take 1 s = ''.'' \<and> (case drop 1 s of [] \<Rightarrow> False | c # _ \<Rightarrow> is_digit c)
      then let ds = take 9 (takeWhile is_digit (drop 1 s))
           in (digits_value ds * 10 ^ (9 - length ds), dropWhile is_digit (drop 1 s))
      else (0, s))"

definition parse_zone :: "string \<Rightarrow> int option" where
  "parse_zone s =
     (if s = ''Z'' then Some 0
      else if length s \<noteq> 6 \<or> s ! 3 \<noteq> CHR '':'' \<or> s ! 0 \<notin> {CHR ''+'', CHR ''-''} then None
      else (case (field 0 23 (take 2 (drop 1 s)), field 0 59 (drop 4 s)) of
              (Some h, Some m) \<Rightarrow> Some ((if s ! 0 = CHR ''-'' then - 1 else 1) * int (h * 60 + m))
            | _ \<Rightarrow> None))"

definition parse_RFC3339 :: "string \<Rightarrow> gotime option" where
  "parse_RFC3339 s =
     (if length s < 19 \<or> s ! 4 \<noteq> CHR ''-'' \<or> s ! 7 \<noteq> CHR ''-'' \<or> s ! 10 \<noteq> CHR ''T'' \<or> s ! 13 \<noteq> CHR '':'' \<or> s ! 16 \<noteq> CHR '':'' then None
      else
        (case (field 0 9999 (take 4 s), field 1 12 (take 2 (drop 5 s)),
               field 0 23 (take 2 (drop 11 s)), field 0 59 (take 2 (drop 14 s)), field 0 59 (take 2 (drop 17 s))) of
           (Some y, Some mo, Some h, Some mi, Some sec) \<Rightarrow>
             (case field 1 (daysIn mo y) (take 2 (drop 8 s)) of
                None \<Rightarrow> None
              | Some dy \<Rightarrow>
                  (let (ns, z) = parse_nanos (drop 19 s) in
                   map_option (\<lambda>off. \<lparr>t_year = y, t_month = mo, t_day = dy, t_hour = h, t_minute = mi, t_second = sec,
                                      t_nanosecond = ns, t_offset = off\<rparr>) (parse_zone z)))
         | _ \<Rightarrow> None))"

text \<open>
  \<open>UnmarshalJSON\<close> of the raw text of a value: \<open>null\<close> leaves the time as it is, otherwise the text
  between the quotes is parsed as it stands, escapes included.
\<close>

definition decode_time :: "(string \<Rightarrow> gotime option) \<Rightarrow> string \<Rightarrow> gotime \<Rightarrow> gotime option" where
  "decode_time lenient raw old =
     (if raw = ''null'' then Some old
      else if length raw < 2 \<or> hd raw \<noteq> dq \<or> last raw \<noteq> dq then None
      else
        (let s = butlast (tl raw) in
         case parse_RFC3339 s of Some t \<Rightarrow> Some t | None \<Rightarrow> lenient s))"

subsection \<open>The round trip\<close>

lemma digits_value_zeros: "digits_value (xs @ replicate k (CHR ''0'')) = digits_value xs * 10 ^ k"
proof (induction k)
  case (Suc k)
  have d: "digit_of (CHR ''0'') = 0" by code_simp
  have "xs @ replicate (Suc k) (CHR ''0'') = (xs @ replicate k (CHR ''0'')) @ [CHR ''0'']" by (simp add: replicate_append_same)
  then have "digits_value (xs @ replicate (Suc k) (CHR ''0'')) = 10 * digits_value (xs @ replicate k (CHR ''0''))"
    using d by (simp only: digits_value_snoc)
  then show ?case using Suc by simp
qed simp

lemma trim_zeros_split: "s = trim_zeros s @ replicate (length s - length (trim_zeros s)) (CHR ''0'')"
proof -
  let ?z = "\<lambda>c. c = CHR ''0''"
  have "rev s = takeWhile ?z (rev s) @ dropWhile ?z (rev s)" by simp
  moreover have "takeWhile ?z (rev s) = replicate (length (takeWhile ?z (rev s))) (CHR ''0'')"
    by (rule replicate_length_same [symmetric]) (auto dest: set_takeWhileD)
  ultimately have "s = trim_zeros s @ replicate (length (takeWhile ?z (rev s))) (CHR ''0'')"
    unfolding trim_zeros_def by (metis rev_append rev_replicate rev_rev_ident)
  moreover from this have "length s = length (trim_zeros s) + length (takeWhile ?z (rev s))"
    by (metis length_append length_replicate)
  ultimately show ?thesis by simp
qed

lemma parse_format_nanos:
  assumes "n < 1000000000" "z \<noteq> []" "\<not> is_digit (hd z)" "hd z \<noteq> CHR ''.''"
  shows "parse_nanos (format_nanos n @ z) = (n, z)"
proof (cases "n = 0")
  case True
  then show ?thesis using assms by (cases z) (simp_all add: parse_nanos_def format_nanos_def)
next
  case False
  let ?t = "trim_zeros (pad 9 n)"
  have s: "pad 9 n = ?t @ replicate (9 - length ?t) (CHR ''0'')" using trim_zeros_split [of "pad 9 n"] by simp
  have v: "digits_value ?t * 10 ^ (9 - length ?t) = n"
    using pad_value [of n 9] assms(1) s digits_value_zeros [of ?t "9 - length ?t"] by simp
  have l: "length ?t \<le> 9" using arg_cong [OF s, of length] by simp
  have d: "list_all is_digit ?t" using pad_digits [of 9 n] s by (metis list_all_append)
  have "?t \<noteq> []" using v False by (metis digits_value_Nil mult_zero_left)
  then obtain c cs where c: "?t = c # cs" by (cases ?t) auto
  have "takeWhile is_digit (?t @ z) = ?t" "dropWhile is_digit (?t @ z) = z"
    using d assms(2,3) by (auto simp: list_all_iff takeWhile_append dropWhile_append) (cases z; simp)+
  then show ?thesis using v l False c d by (simp add: parse_nanos_def format_nanos_def)
qed

lemma parse_format_zone:
  assumes "\<bar>z\<bar> < 1440"
  shows "parse_zone (format_zone z) = Some z"
    "format_zone z \<noteq> []" "\<not> is_digit (hd (format_zone z))" "hd (format_zone z) \<noteq> CHR ''.''"
proof -
  let ?a = "nat \<bar>z\<bar>"
  have a: "?a div 60 < 24" "?a mod 60 < 60" using assms by auto
  have f: "field 0 23 (pad 2 (?a div 60)) = Some (?a div 60)" "field 0 59 (pad 2 (?a mod 60)) = Some (?a mod 60)"
    using a by (simp_all add: field_pad)
  have sum: "int (?a div 60 * 60 + ?a mod 60) = \<bar>z\<bar>" by simp
  show "parse_zone (format_zone z) = Some z"
  proof (cases "z = 0")
    case False
    let ?c = "if z < 0 then CHR ''-'' else CHR ''+''"
    let ?s = "?c # pad 2 (?a div 60) @ '':'' @ pad 2 (?a mod 60)"
    have "format_zone z = ?s" using False by (simp add: format_zone_def)
    moreover have "length ?s = 6" "?s ! 3 = CHR '':''" "take 2 (drop 1 ?s) = pad 2 (?a div 60)" "drop 4 ?s = pad 2 (?a mod 60)"
      by (simp_all add: nth_append)
    moreover have "?s \<noteq> ''Z''" by simp
    ultimately show ?thesis using f sum by (simp add: parse_zone_def del: length_append length_Cons)
  qed (simp add: parse_zone_def format_zone_def)
  show "format_zone z \<noteq> []" "\<not> is_digit (hd (format_zone z))" "hd (format_zone z) \<noteq> CHR ''.''"
    by (auto simp: format_zone_def is_digit_def nat_of_byte_def)
qed

lemma parse_format_time:
  assumes "wf_time t"
  shows "parse_RFC3339 (format_time t) = Some t"
proof -
  let ?r = "format_nanos (t_nanosecond t) @ format_zone (t_offset t)"
  let ?s = "format_time t"
  have b: "daysIn (t_month t) (t_year t) < 100" by (simp add: daysIn_def)
  have z: "parse_nanos ?r = (t_nanosecond t, format_zone (t_offset t))" "parse_zone (format_zone (t_offset t)) = Some (t_offset t)"
    using assms by (simp_all add: parse_format_nanos parse_format_zone wf_time_def)
  have parts: "take 4 ?s = pad 4 (t_year t)" "take 2 (drop 5 ?s) = pad 2 (t_month t)" "take 2 (drop 8 ?s) = pad 2 (t_day t)"
    "take 2 (drop 11 ?s) = pad 2 (t_hour t)" "take 2 (drop 14 ?s) = pad 2 (t_minute t)" "take 2 (drop 17 ?s) = pad 2 (t_second t)"
    "drop 19 ?s = ?r" "length ?s \<ge> 19"
    by (simp_all add: format_time_def)
  have seps: "?s ! 4 = CHR ''-''" "?s ! 7 = CHR ''-''" "?s ! 10 = CHR ''T''" "?s ! 13 = CHR '':''" "?s ! 16 = CHR '':''"
    by (simp_all add: format_time_def nth_append)
  have fields: "field 0 9999 (pad 4 (t_year t)) = Some (t_year t)" "field 1 12 (pad 2 (t_month t)) = Some (t_month t)"
    "field 1 (daysIn (t_month t) (t_year t)) (pad 2 (t_day t)) = Some (t_day t)" "field 0 23 (pad 2 (t_hour t)) = Some (t_hour t)"
    "field 0 59 (pad 2 (t_minute t)) = Some (t_minute t)" "field 0 59 (pad 2 (t_second t)) = Some (t_second t)"
    using assms b by (auto simp: wf_time_def intro!: field_pad)
  show ?thesis unfolding parse_RFC3339_def using parts seps fields z by simp
qed

text \<open>The text needs no escaping, so the quoted text is read as it was written.\<close>

definition plain_text :: "string \<Rightarrow> bool" where
  "plain_text s \<longleftrightarrow> list_all (\<lambda>c. is_digit c \<or> c \<in> set ''-:.TZ+'') s"

lemma quote_body_plain: "plain_text s \<Longrightarrow> quote_body s = s"
proof (induction s)
  case (Cons c s)
  have "nat_of_byte c < 128" "esc c = [c]"
    using Cons.prems by (auto simp: plain_text_def esc_def is_digit_def dq_def bs_def nat_of_byte_def Let_def)
  then show ?case using Cons by (simp add: quote_body.simps plain_text_def)
qed simp

lemma plain_text_valid: "plain_text s \<Longrightarrow> valid_utf8 s"
  by (rule valid_utf8_ascii) (auto simp: plain_text_def list_all_iff is_digit_def nat_of_byte_def)

lemma plain_text_time: "plain_text (format_time t)"
proof -
  have "list_all is_digit (trim_zeros (pad 9 n))" for n
    using pad_digits [of 9 n] trim_zeros_split [of "pad 9 n"] by (metis list_all_append)
  then show ?thesis using pad_digits
    by (auto simp: plain_text_def format_time_def format_nanos_def format_zone_def list_all_iff)
qed

lemma decode_marshal_time:
  assumes "wf_time t" "marshal_time t = Some raw"
  shows "decode_time lenient raw old = Some t" "reads_as 1 d raw (JStr (format_time t))"
proof -
  have raw: "raw = dq # format_time t @ [dq]"
    using assms(2) by (auto simp: marshal_time_def quote_def quote_body_plain plain_text_time split: if_splits)
  have "dq \<noteq> CHR ''n''" by code_simp
  then show "decode_time lenient raw old = Some t"
    using parse_format_time [OF assms(1)] by (simp add: decode_time_def raw butlast_append)
  show "reads_as 1 d raw (JStr (format_time t))"
    using reads_as_quote [OF plain_text_valid [OF plain_text_time], of d t] assms(2)
    by (auto simp: marshal_time_def split: if_splits)
qed

end
