(* ===== verification/RaftNode.thy ===== *)
theory RaftNode
  imports GoTime
begin

section \<open>The consensus member (internal/raftnode)\<close>

text \<open>
  The placement state machine and the node around it (\<open>src/internal/raftnode/fsm.go\<close>,
  \<open>raftnode.go\<close>).  Log entries and snapshots are the JSON texts that the code writes and reads.
  \<open>github.com/hashicorp/raft\<close> is the record \<open>raft_lib\<close>: what the code calls of it, over the state
  \<open>'w\<close> of the surroundings.  \<open>etext\<close> is the text of a JSON error, \<open>lenient\<close> the fallback time parser,
  \<open>fmt_q\<close> the \<open>%q\<close> verb.  An empty \<open>Recent\<close> is the nil slice, as it is in the code until the first
  entry.

  Shown: a placement and a snapshot are read back as they were written; applying a log keeps the
  count and the last 16 placements; a node that starts from a snapshot and applies the rest of the
  log is in the state of one that applied everything; every member bootstraps with the same
  configuration.
\<close>

definition maxRecentPlacements :: nat where "maxRecentPlacements = 16"

record Placement =
  p_JobID :: string
  p_Worker :: string
  p_At :: gotime

record fsmState =
  f_Count :: "64 word"
  f_Recent :: "Placement list"

definition zero_placement :: Placement where
  "zero_placement = \<lparr>p_JobID = [], p_Worker = [], p_At = zero_time\<rparr>"

definition zero_state :: fsmState where
  "zero_state = \<lparr>f_Count = 0, f_Recent = []\<rparr>"

subsection \<open>The JSON texts\<close>

definition marshal_placement :: "Placement \<Rightarrow> string option" where
  "marshal_placement p =
     map_option (\<lambda>at. write_object [(''job_id'', quote (p_JobID p)), (''worker'', quote (p_Worker p)), (''at'', at)])
       (marshal_time (p_At p))"

definition placement_field :: "(string \<Rightarrow> gotime option) \<Rightarrow> string \<Rightarrow> string \<Rightarrow> json \<Rightarrow> Placement \<Rightarrow> Placement option" where
  "placement_field lenient k raw v p =
     (if k = ''JOB_ID'' then map_option (\<lambda>s. p\<lparr>p_JobID := s\<rparr>) (decode_string v (p_JobID p))
      else if k = ''WORKER'' then map_option (\<lambda>s. p\<lparr>p_Worker := s\<rparr>) (decode_string v (p_Worker p))
      else if k = ''AT'' then map_option (\<lambda>t. p\<lparr>p_At := t\<rparr>) (decode_time lenient raw (p_At p))
      else Some p)"

definition decode_placement :: "(string \<Rightarrow> gotime option) \<Rightarrow> json \<Rightarrow> Placement option" where
  "decode_placement lenient v = decode_struct (placement_field lenient) v zero_placement"

definition unmarshal_placement :: "(string \<Rightarrow> gotime option) \<Rightarrow> string \<Rightarrow> Placement option" where
  "unmarshal_placement lenient data =
     (case json_text data of None \<Rightarrow> None | Some v \<Rightarrow> decode_placement lenient v)"

fun marshal_all :: "Placement list \<Rightarrow> string list option" where
  "marshal_all [] = Some []"
| "marshal_all (p # ps) =
     (case marshal_placement p of None \<Rightarrow> None | Some t \<Rightarrow> map_option ((#) t) (marshal_all ps))"

definition marshal_state :: "fsmState \<Rightarrow> string option" where
  "marshal_state st =
     map_option (\<lambda>ts. write_object [(''count'', show_nat (unat (f_Count st))),
                                    (''recent'', if f_Recent st = [] then ''null'' else write_array ts)])
       (marshal_all (f_Recent st))"

definition state_field :: "(string \<Rightarrow> gotime option) \<Rightarrow> string \<Rightarrow> string \<Rightarrow> json \<Rightarrow> fsmState \<Rightarrow> fsmState option" where
  "state_field lenient k raw v st =
     (if k = ''COUNT'' then map_option (\<lambda>n. st\<lparr>f_Count := word_of_nat n\<rparr>) (decode_uint v (unat (f_Count st)))
      else if k = ''RECENT'' then map_option (\<lambda>ps. st\<lparr>f_Recent := ps\<rparr>) (decode_slice (decode_placement lenient) v (f_Recent st))
      else Some st)"

subsection \<open>The state machine\<close>

definition fsm_Apply :: "(string \<Rightarrow> gotime option) \<Rightarrow> (string \<Rightarrow> string) \<Rightarrow> string \<Rightarrow> fsmState \<Rightarrow> string option \<times> fsmState" where
  "fsm_Apply lenient etext data st =
     (case unmarshal_placement lenient data of
        None \<Rightarrow> (Some (''raftnode: decode placement entry: '' @ etext data), st)
      | Some p \<Rightarrow>
          (let recent = f_Recent st @ [p] in
           (None, st\<lparr>f_Count := f_Count st + 1,
                     f_Recent := (if length recent > maxRecentPlacements
                                  then drop (length recent - maxRecentPlacements) recent else recent)\<rparr>)))"

definition Placements :: "fsmState \<Rightarrow> 64 word \<times> Placement list" where
  "Placements st = (f_Count st, f_Recent st)"

definition fsm_Snapshot :: "fsmState \<Rightarrow> string option" where
  "fsm_Snapshot st = marshal_state st"

definition fsm_Restore :: "(string \<Rightarrow> gotime option) \<Rightarrow> string \<Rightarrow> fsmState \<Rightarrow> bool \<times> fsmState" where
  "fsm_Restore lenient data st =
     (case json_first data of
        None \<Rightarrow> (False, st)
      | Some (v, _) \<Rightarrow>
          (case decode_struct (state_field lenient) v zero_state of
             None \<Rightarrow> (False, st)
           | Some st' \<Rightarrow> (True, st')))"

text \<open>\<open>Persist\<close>: what happens to the sink, and the error returned, given how its calls end.\<close>

datatype sink = Sink_Cancelled | Sink_Closed string

definition Persist :: "string option \<Rightarrow> string option \<Rightarrow> string \<Rightarrow> string option \<times> sink" where
  "Persist write_err close_err data =
     (case write_err of
        Some e \<Rightarrow> (Some e, Sink_Cancelled)
      | None \<Rightarrow> (close_err, Sink_Closed data))"

subsection \<open>The node\<close>

datatype RaftState = Follower | Candidate | Leader | Shutdown

fun RaftState_String :: "RaftState \<Rightarrow> string" where
  "RaftState_String Follower = ''Follower''"
| "RaftState_String Candidate = ''Candidate''"
| "RaftState_String Leader = ''Leader''"
| "RaftState_String Shutdown = ''Shutdown''"

text \<open>
  The future of \<open>Apply\<close> is an error, or the value the state machine returned (an error or nothing);
  the configuration is an error or the ids of the servers.
\<close>

record 'w raft_lib =
  ra_State :: "'w \<Rightarrow> RaftState"
  ra_LeaderWithID :: "'w \<Rightarrow> string \<times> string"
  ra_Apply :: "string \<Rightarrow> 'w \<Rightarrow> (string + string option) \<times> 'w"
  ra_Stats :: "'w \<Rightarrow> (string, string) fmap"
  ra_GetConfiguration :: "'w \<Rightarrow> string + string list"
  ra_LeadershipTransfer :: "'w \<Rightarrow> string option \<times> 'w"
  ra_Shutdown :: "'w \<Rightarrow> string option \<times> 'w"

record Info =
  in_State :: string
  in_LeaderID :: string
  in_Term :: nat
  in_LastLogIndex :: nat
  in_AppliedIndex :: nat
  in_Peers :: "string list"
  in_PlacementCount :: "64 word"
  in_RecentPlacements :: "Placement list"

definition IsLeader :: "'w raft_lib \<Rightarrow> 'w \<Rightarrow> bool" where
  "IsLeader R w \<longleftrightarrow> ra_State R w = Leader"

definition LeaderID :: "'w raft_lib \<Rightarrow> 'w \<Rightarrow> string" where
  "LeaderID R w = snd (ra_LeaderWithID R w)"

definition ApplyPlacement :: "'w raft_lib \<Rightarrow> gotime \<Rightarrow> string \<Rightarrow> string \<Rightarrow> string \<Rightarrow> 'w \<Rightarrow> (string + unit) \<times> 'w" where
  "ApplyPlacement R now terr jobID worker_name w =
     (case marshal_placement \<lparr>p_JobID = jobID, p_Worker = worker_name, p_At = now\<rparr> of
        None \<Rightarrow> (Inl terr, w)
      | Some data \<Rightarrow>
          (case ra_Apply R data w of
             (Inl e, w') \<Rightarrow> (Inl (''raftnode: apply placement: '' @ e), w')
           | (Inr (Some e), w') \<Rightarrow> (Inl e, w')
           | (Inr None, w') \<Rightarrow> (Inr (), w')))"

text \<open>\<open>strconv.ParseUint\<close> with the error dropped: 0 on a syntax error, the maximum out of range.\<close>

definition statUint :: "(string, string) fmap \<Rightarrow> string \<Rightarrow> nat" where
  "statUint stats key =
     (let s = at_or [] stats key in
      if s = [] \<or> \<not> list_all is_digit s then 0
      else min (digits_value s) (2 ^ 64 - 1))"

definition Node_Info :: "'w raft_lib \<Rightarrow> ('w \<Rightarrow> fsmState) \<Rightarrow> 'w \<Rightarrow> Info" where
  "Node_Info R fsm w =
     (let stats = ra_Stats R w; (count, recent) = Placements (fsm w);
          peers = (case ra_GetConfiguration R w of Inl _ \<Rightarrow> [] | Inr servers \<Rightarrow> sort servers)
      in \<lparr>in_State = RaftState_String (ra_State R w), in_LeaderID = LeaderID R w,
          in_Term = statUint stats ''term'', in_LastLogIndex = statUint stats ''last_log_index'',
          in_AppliedIndex = statUint stats ''applied_index'', in_Peers = peers,
          in_PlacementCount = count, in_RecentPlacements = recent\<rparr>)"

definition Node_Shutdown :: "'w raft_lib \<Rightarrow> 'w \<Rightarrow> 'w" where
  "Node_Shutdown R w =
     (let w1 = (if IsLeader R w then snd (ra_LeadershipTransfer R w) else w)
      in snd (ra_Shutdown R w1))"

subsection \<open>Starting a member\<close>

record RaftConfig =
  rc_Instance :: string
  rc_Peers :: "(string, string) fmap"

datatype bootstrapped = Boot_ok | Boot_cant | Boot_err string

text \<open>How the calls that open files and sockets end; \<open>None\<close> is success.\<close>

record raft_backends =
  rb_ServerTLS :: "string option"
  rb_ClientTLS :: "string option"
  rb_StreamLayer :: "string option"
  rb_MkdirAll :: "string option"
  rb_NewBoltStore :: "string option"
  rb_NewFileSnapshotStore :: "string option"
  rb_HasExistingState :: "string + bool"
  rb_NewRaft :: "string option"
  rb_BootstrapCluster :: bootstrapped

definition bootstrap_servers :: "choice \<Rightarrow> (string, string) fmap \<Rightarrow> (string \<times> string) list" where
  "bootstrap_servers ch peers = sort_key fst (map (\<lambda>name. (name, at_or [] peers name)) (range_keys ch peers))"

fun first_error :: "(string \<times> string option) list \<Rightarrow> string option" where
  "first_error [] = None"
| "first_error ((prefix, Some e) # xs) = Some (prefix @ e)"
| "first_error ((prefix, None) # xs) = first_error xs"

definition newWithBackends :: "raft_backends \<Rightarrow> string option" where
  "newWithBackends b = first_error [(''raftnode: start raft: '', rb_NewRaft b)]"

text \<open>An error, or the member with the configuration it bootstraps with on its first start.\<close>

definition Node_New :: "choice \<Rightarrow> (string \<Rightarrow> string) \<Rightarrow> RaftConfig \<Rightarrow> raft_backends \<Rightarrow> string + (string \<times> string) list option" where
  "Node_New ch fmt_q cfg b =
     (case fmlookup (rc_Peers cfg) (rc_Instance cfg) of
        None \<Rightarrow> Inl (''raftnode: instance '' @ fmt_q (rc_Instance cfg) @ '' missing from IRONWORK_RAFT_PEERS'')
      | Some advertise \<Rightarrow>
          (case first_error [([], rb_ServerTLS b), ([], rb_ClientTLS b), ([], rb_StreamLayer b),
                  (''raftnode: create data dir: '', rb_MkdirAll b),
                  (''raftnode: open bolt store: '', rb_NewBoltStore b),
                  (''raftnode: open snapshot store: '', rb_NewFileSnapshotStore b)] of
             Some e \<Rightarrow> Inl e
           | None \<Rightarrow>
               (case rb_HasExistingState b of
                  Inl e \<Rightarrow> Inl (''raftnode: check existing state: '' @ e)
                | Inr hasState \<Rightarrow>
                    (case newWithBackends b of
                       Some e \<Rightarrow> Inl e
                     | None \<Rightarrow>
                         if hasState then Inr None
                         else (case rb_BootstrapCluster b of
                                 Boot_err e \<Rightarrow> Inl (''raftnode: bootstrap: '' @ e)
                               | _ \<Rightarrow> Inr (Some (bootstrap_servers ch (rc_Peers cfg))))))))"

subsection \<open>Written and read back\<close>

definition wf_placement :: "Placement \<Rightarrow> bool" where
  "wf_placement p \<longleftrightarrow> valid_utf8 (p_JobID p) \<and> valid_utf8 (p_Worker p) \<and> wf_time (p_At p)"

lemma field_names:
  "valid_utf8 ''job_id''" "valid_utf8 ''worker''" "valid_utf8 ''at''" "valid_utf8 ''count''" "valid_utf8 ''recent''"
  by (simp_all add: valid_utf8_ascii nat_of_byte_def)

lemma folded_names:
  "foldName ''job_id'' = ''JOB_ID''" "foldName ''worker'' = ''WORKER''" "foldName ''at'' = ''AT''"
  "foldName ''count'' = ''COUNT''" "foldName ''recent'' = ''RECENT''"
  by code_simp+

lemmas names = field_names folded_names

lemma marshal_placement_reads:
  assumes "wf_placement p"
  obtains s v where "marshal_placement p = Some s" "\<And>d. reads_as 5 (Suc d) s v" "decode_placement lenient v = Some p"
proof -
  from assms obtain raw where raw: "marshal_time (p_At p) = Some raw" by (auto simp: wf_placement_def wf_time_def marshal_time_def)
  let ?kts = "[(''job_id'', quote (p_JobID p)), (''worker'', quote (p_Worker p)), (''at'', raw)]"
  let ?ms = "[(''job_id'', quote (p_JobID p), JStr (p_JobID p)), (''worker'', quote (p_Worker p), JStr (p_Worker p)),
              (''at'', raw, JStr (format_time (p_At p)))]"
  note t = decode_marshal_time [OF _ raw]
  have "reads_as 5 (Suc d) (write_object ?kts) (JObj ?ms)" for d
    using reads_as_object [of 1 d ?kts ?ms] assms t(2) [of d] reads_as_quote [of "p_JobID p" d] reads_as_quote [of "p_Worker p" d]
    by (simp add: names wf_placement_def eval_nat_numeral)
  moreover have "decode_placement lenient (JObj ?ms) = Some p"
    using assms t(1) [of lenient zero_time]
    by (simp add: decode_placement_def decode_struct_def names placement_field_def decode_string_def
        zero_placement_def wf_placement_def)
  moreover have "marshal_placement p = Some (write_object ?kts)" using raw by (simp add: marshal_placement_def)
  ultimately show thesis using that by blast
qed

lemma unmarshal_marshal_placement:
  assumes "wf_placement p" "marshal_placement p = Some s"
  shows "unmarshal_placement lenient s = Some p"
proof -
  obtain s' v where s': "marshal_placement p = Some s'" and r: "\<And>d. reads_as 5 (Suc d) s' v" and v: "decode_placement lenient v = Some p"
    using marshal_placement_reads [OF assms(1)] by blast
  have "reads_as 5 maxNestingDepth s' v" using r [of 9999] by (simp add: maxNestingDepth_def)
  then have "json_text s = Some v" using s' assms(2) reads_as_json_text by simp
  then show ?thesis using v by (simp add: unmarshal_placement_def)
qed

lemma marshal_all_reads:
  assumes "list_all wf_placement ps"
  obtains ts vs where "marshal_all ps = Some ts" "length ts = length ps" "\<And>d. list_all2 (reads_as 5 (Suc d)) ts vs"
    "decode_each (decode_placement lenient) vs = Some ps"
proof -
  have "\<exists>ts vs. marshal_all ps = Some ts \<and> length ts = length ps \<and> (\<forall>d. list_all2 (reads_as 5 (Suc d)) ts vs)
      \<and> decode_each (decode_placement lenient) vs = Some ps"
    using assms
  proof (induction ps)
    case (Cons p ps)
    then obtain ts vs where IH: "marshal_all ps = Some ts" "length ts = length ps" "\<forall>d. list_all2 (reads_as 5 (Suc d)) ts vs"
      "decode_each (decode_placement lenient) vs = Some ps" by auto
    obtain s v where "marshal_placement p = Some s" "\<And>d. reads_as 5 (Suc d) s v" "decode_placement lenient v = Some p"
      using marshal_placement_reads [of p] Cons.prems by (metis list.pred_inject(2))
    with IH show ?case by (intro exI [of _ "s # ts"] exI [of _ "v # vs"]) simp
  qed simp
  then show thesis using that by blast
qed

text \<open>A snapshot of a state whose placements are well-formed restores that state.\<close>

lemma Restore_Snapshot:
  assumes "list_all wf_placement (f_Recent st)"
  obtains data where "fsm_Snapshot st = Some data" "\<And>st'. fsm_Restore lenient data st' = (True, st)"
proof -
  obtain ts vs where ts: "marshal_all (f_Recent st) = Some ts" "length ts = length (f_Recent st)"
    "\<And>d. list_all2 (reads_as 5 (Suc d)) ts vs" "decode_each (decode_placement lenient) vs = Some (f_Recent st)"
    using marshal_all_reads [OF assms] by blast
  let ?n = "show_nat (unat (f_Count st))" and ?k = "Suc (5 + length ts)"
  let ?t = "if f_Recent st = [] then ''null'' else write_array ts" and ?v = "if f_Recent st = [] then JNull else JArr vs"
  let ?kts = "[(''count'', ?n), (''recent'', ?t)]" and ?ms = "[(''count'', ?n, JNum ?n), (''recent'', ?t, ?v)]"
  have t: "reads_as ?k (Suc (Suc d)) ?t ?v" for d
    using reads_as_array [OF ts(3) [of d]] reads_as_more [OF reads_as_null] by simp
  have n: "reads_as ?k (Suc (Suc d)) ?n (JNum ?n)" for d by (rule reads_as_more [OF reads_as_show_nat]) simp
  have "reads_as (Suc (?k + 2)) (Suc (Suc (Suc 9997))) (write_object ?kts) (JObj ?ms)"
    using reads_as_object [of ?k "Suc (Suc 9997)" ?kts ?ms] t [of 9997] n [of 9997] by (simp add: names)
  then have "json_first (write_object ?kts @ []) = Some (JObj ?ms, [])"
    by (intro reads_as_json_first [of "Suc (?k + 2)"]) (simp_all add: maxNestingDepth_def)
  moreover have "decode_struct (state_field lenient) (JObj ?ms) zero_state = Some st"
    using ts(4) unsigned_less [of "f_Count st", where ?'a = nat]
    by (simp add: decode_struct_def state_field_def names decode_uint_def decode_slice_def zero_state_def)
  ultimately have "fsm_Restore lenient (write_object ?kts) st' = (True, st)" for st' by (simp add: fsm_Restore_def)
  then show thesis using that ts(1) by (simp add: fsm_Snapshot_def marshal_state_def)
qed

subsection \<open>Replaying a log\<close>

definition apply_log :: "(string \<Rightarrow> gotime option) \<Rightarrow> (string \<Rightarrow> string) \<Rightarrow> string list \<Rightarrow> fsmState \<Rightarrow> fsmState" where
  "apply_log lenient etext log st = fold (\<lambda>data st. snd (fsm_Apply lenient etext data st)) log st"

definition last_n :: "nat \<Rightarrow> 'a list \<Rightarrow> 'a list" where
  "last_n n xs = drop (length xs - n) xs"

lemma last_n_snoc: "last_n n (last_n n xs @ [x]) = last_n n (xs @ [x])"
proof (cases "length xs \<le> n")
  case False
  then have "length xs + 1 - n = Suc (length xs - n)" by simp
  with False show ?thesis by (cases n) (simp_all add: last_n_def)
qed (simp add: last_n_def)

lemma length_last_n: "length (last_n n xs) = min n (length xs)"
  by (simp add: last_n_def)

lemma set_last_n: "set (last_n n xs) \<subseteq> set xs"
  by (simp add: last_n_def set_drop_subset)

text \<open>The placements of a log: its entries that decode.\<close>

definition placements_of :: "(string \<Rightarrow> gotime option) \<Rightarrow> string list \<Rightarrow> Placement list" where
  "placements_of lenient log = List.map_filter (unmarshal_placement lenient) log"

lemma fsm_Apply_state:
  "snd (fsm_Apply lenient etext data st) =
     (case unmarshal_placement lenient data of
        None \<Rightarrow> st
      | Some p \<Rightarrow> \<lparr>f_Count = f_Count st + 1, f_Recent = last_n 16 (f_Recent st @ [p])\<rparr>)"
  by (cases st) (auto simp: fsm_Apply_def last_n_def maxRecentPlacements_def Let_def split: option.splits)

lemma apply_log_from:
  assumes "f_Recent st = last_n 16 hist"
  shows "apply_log lenient etext log st =
     \<lparr>f_Count = f_Count st + word_of_nat (length (placements_of lenient log)),
      f_Recent = last_n 16 (hist @ placements_of lenient log)\<rparr>"
  using assms
proof (induction log arbitrary: st hist)
  case Nil
  then show ?case by (cases st) (simp add: apply_log_def placements_of_def map_filter_simps)
next
  case (Cons data log)
  let ?st = "snd (fsm_Apply lenient etext data st)"
  have step: "apply_log lenient etext (data # log) st = apply_log lenient etext log ?st" by (simp add: apply_log_def)
  show ?case
  proof (cases "unmarshal_placement lenient data")
    case None
    then show ?thesis using Cons by (simp add: step fsm_Apply_state placements_of_def map_filter_simps)
  next
    case (Some p)
    then have st: "f_Recent ?st = last_n 16 (hist @ [p])" "f_Count ?st = f_Count st + 1"
      using Cons.prems last_n_snoc [of 16 hist p] by (simp_all add: fsm_Apply_state)
    show ?thesis using Cons.IH [OF st(1)] st(2) Some by (simp add: step placements_of_def map_filter_simps)
  qed
qed

lemma apply_log_zero:
  "apply_log lenient etext log zero_state =
     \<lparr>f_Count = word_of_nat (length (placements_of lenient log)), f_Recent = last_n 16 (placements_of lenient log)\<rparr>"
  using apply_log_from [of zero_state Nil lenient etext log] by (simp add: zero_state_def last_n_def)

lemma apply_log_append: "apply_log l e (xs @ ys) st = apply_log l e ys (apply_log l e xs st)"
  by (simp add: apply_log_def)

subsection \<open>Properties\<close>

text \<open>
  C26 Every node reaches the same placement history.  For a log of entries written by
  \<open>ApplyPlacement\<close>, applying it counts every placement (modulo 64 bits) and keeps the last 16 in
  order; and whatever prefix a node compacts into a snapshot, restoring it (into any state) and
  applying the rest of the log gives exactly the state of a node that applied the whole log.
\<close>

theorem fsm_replay:
  assumes "list_all wf_placement ps" "map marshal_placement ps = map Some log"
  defines "st \<equiv> \<lparr>f_Count = word_of_nat (length ps), f_Recent = last_n 16 ps\<rparr>"
  shows "apply_log lenient etext log zero_state = st
    \<and> (\<exists>data. fsm_Snapshot (apply_log lenient etext (take k log) zero_state) = Some data
        \<and> (\<forall>st'. fst (fsm_Restore lenient data st')
              \<and> apply_log lenient etext (drop k log) (snd (fsm_Restore lenient data st')) = st))"
proof -
  have pl: "placements_of lenient xs = qs" if "list_all wf_placement qs" "map marshal_placement qs = map Some xs" for qs xs
    using that
  proof (induction qs arbitrary: xs)
    case (Cons q qs)
    then obtain x xs' where "xs = x # xs'" by (cases xs) auto
    then show ?case using Cons unmarshal_marshal_placement [of q x lenient] by (simp add: placements_of_def map_filter_simps)
  qed (simp add: placements_of_def)
  have whole: "apply_log lenient etext log zero_state = st"
    unfolding st_def apply_log_zero pl [OF assms(1,2)] ..
  let ?st1 = "apply_log lenient etext (take k log) zero_state"
  have "placements_of lenient (take k log) = take k ps"
    by (rule pl) (use assms(1) in \<open>auto simp: list_all_iff take_map [symmetric] assms(2) dest: in_set_takeD\<close>)
  then have "f_Recent ?st1 = last_n 16 (take k ps)" by (simp add: apply_log_zero)
  then have "set (f_Recent ?st1) \<subseteq> set ps" using set_last_n [of 16 "take k ps"] set_take_subset [of k ps] by simp
  then have "list_all wf_placement (f_Recent ?st1)" using assms(1) by (auto simp: list_all_iff)
  then obtain data where "fsm_Snapshot ?st1 = Some data" "\<And>st'. fsm_Restore lenient data st' = (True, ?st1)"
    using Restore_Snapshot by blast
  moreover have "apply_log lenient etext (drop k log) ?st1 = st"
    using whole by (simp add: apply_log_append [symmetric])
  ultimately show ?thesis using whole by simp
qed

definition ex_time :: gotime where
  "ex_time = \<lparr>t_year = 2025, t_month = 11, t_day = 3, t_hour = 9, t_minute = 5, t_second = 7, t_nanosecond = 120000000, t_offset = 0\<rparr>"

definition ex_placement :: Placement where
  "ex_placement = \<lparr>p_JobID = ''j1'', p_Worker = ''worker-1'', p_At = ex_time\<rparr>"

definition ex_entry :: string where
  "ex_entry = (case marshal_placement ex_placement of None \<Rightarrow> [] | Some s \<Rightarrow> s)"

lemma wf_ex_placement: "wf_placement ex_placement"
  by (simp add: wf_placement_def ex_placement_def ex_time_def wf_time_def daysIn_def valid_utf8_ascii nat_of_byte_def)

lemma marshal_ex: "marshal_placement ex_placement = Some ex_entry"
  by (rule marshal_placement_reads [OF wf_ex_placement, of "\<lambda>_. None"]) (simp add: ex_entry_def)

theorem fsm_replay_witness:
  "apply_log (\<lambda>_. None) (\<lambda>_. ''bad'') [ex_entry, ex_entry] zero_state = \<lparr>f_Count = 2, f_Recent = [ex_placement, ex_placement]\<rparr>"
  using fsm_replay [of "[ex_placement, ex_placement]" "[ex_entry, ex_entry]" "\<lambda>_. None" "\<lambda>_. ''bad''" 1]
  by (simp add: wf_ex_placement marshal_ex last_n_def)

text \<open>Up to the limit, the recent placements after a log are the last of those before it and of the log's.\<close>

lemma apply_log_Cons: "apply_log lenient etext (data # log) st = apply_log lenient etext log (snd (fsm_Apply lenient etext data st))"
  by (simp add: apply_log_def)

lemma apply_log_count:
  "f_Count (apply_log lenient etext log st) = f_Count st + word_of_nat (length (placements_of lenient log))"
proof (induction log arbitrary: st)
  case (Cons data log)
  then show ?case
    by (simp add: apply_log_Cons fsm_Apply_state placements_of_def map_filter_simps split: option.split)
qed (simp add: apply_log_def placements_of_def map_filter_simps)

lemma last_n_append: "last_n n (last_n n xs @ ys) = last_n n (xs @ ys)"
  by (cases "length xs \<le> n") (simp_all add: last_n_def add.commute)

lemma apply_log_recent:
  "last_n 16 (f_Recent (apply_log lenient etext log st) @ ys) = last_n 16 (f_Recent st @ placements_of lenient log @ ys)"
proof (induction log arbitrary: st)
  case (Cons data log)
  then show ?case
    using last_n_append [of 16 "f_Recent st @ [q]" "placements_of lenient log @ ys" for q]
    by (simp add: apply_log_Cons fsm_Apply_state placements_of_def map_filter_simps split: option.split)
qed (simp add: apply_log_def placements_of_def map_filter_simps)

text \<open>
  C27 \<open>ApplyPlacement\<close> of a job and worker whose names are valid UTF-8: whatever the raft library
  answers, a success means that this node's state machine has recorded exactly this placement, once,
  after the entries that the library applied before it and before those that it applied after it, and
  the only error is that of the library: an entry never fails to be encoded or
  decoded.  (Relied on: the state machine applies the entries of the log one after the other, and the response of a
  committed entry is what it returned for that entry.  The entries that were committed before it and not yet applied, and those
  applied after it until the call returned, are arbitrary.)
\<close>

theorem ApplyPlacement_spec:
  assumes raft: "\<And>data w resp w'. ra_Apply R data w = (Inr resp, w') \<Longrightarrow>
      \<exists>st. fsm_Apply lenient etext data (apply_log lenient etext (earlier w) (fsm w)) = (resp, st)
         \<and> fsm w' = apply_log lenient etext (later w) st"
    and wf: "wf_placement \<lparr>p_JobID = jobID, p_Worker = worker_name, p_At = now\<rparr>"
    and call: "ApplyPlacement R now terr jobID worker_name w = (res, w')"
  shows "(res = Inr ()
            \<and> f_Count (fsm w') = f_Count (fsm w) + word_of_nat (length (placements_of lenient (earlier w)) + 1 + length (placements_of lenient (later w)))
            \<and> f_Recent (fsm w') = last_n 16 (f_Recent (fsm w) @ placements_of lenient (earlier w)
                 @ \<lparr>p_JobID = jobID, p_Worker = worker_name, p_At = now\<rparr> # placements_of lenient (later w)))
       \<or> (\<exists>e. res = Inl (''raftnode: apply placement: '' @ e))"
proof -
  let ?p = "\<lparr>p_JobID = jobID, p_Worker = worker_name, p_At = now\<rparr>"
  obtain data where data: "marshal_placement ?p = Some data" using marshal_placement_reads [OF wf] by blast
  have un: "unmarshal_placement lenient data = Some ?p" by (rule unmarshal_marshal_placement [OF wf data])
  obtain a w1 where a: "ra_Apply R data w = (a, w1)" by fastforce
  show ?thesis
  proof (cases a)
    case (Inl e)
    then show ?thesis using call data a by (auto simp: ApplyPlacement_def)
  next
    case (Inr resp)
    let ?st0 = "apply_log lenient etext (earlier w) (fsm w)"
    from raft a Inr obtain st where r: "fsm_Apply lenient etext data ?st0 = (resp, st)"
      and w1: "fsm w1 = apply_log lenient etext (later w) st" by blast
    then have "resp = None" using un by (simp add: fsm_Apply_def Let_def split: if_splits)
    moreover have st: "f_Count st = f_Count ?st0 + 1" "f_Recent st = last_n 16 (f_Recent (fsm w) @ placements_of lenient (earlier w) @ [?p])"
      using arg_cong [OF r, of snd] fsm_Apply_state [of lenient etext data ?st0] un apply_log_recent by auto
    moreover note apply_log_from [OF st(2), of lenient etext "later w"]
    ultimately show ?thesis using call data a Inr w1 by (auto simp: ApplyPlacement_def apply_log_count)
  qed
qed

definition ex_raft :: "fsmState raft_lib" where
  "ex_raft = \<lparr>ra_State = (\<lambda>_. Leader), ra_LeaderWithID = (\<lambda>_. (''scheduler-1:9444'', ''scheduler-1'')),
     ra_Apply = (\<lambda>data st. case fsm_Apply (\<lambda>_. None) (\<lambda>_. ''bad'') data (apply_log (\<lambda>_. None) (\<lambda>_. ''bad'') [ex_entry] st) of
        (r, st') \<Rightarrow> (Inr r, st')),
     ra_Stats = (\<lambda>_. fmempty), ra_GetConfiguration = (\<lambda>_. Inr [''scheduler-1'']),
     ra_LeadershipTransfer = (\<lambda>st. (None, st)), ra_Shutdown = (\<lambda>st. (None, st))\<rparr>"

text \<open>A new leader, with one entry of its predecessor still to be applied.\<close>

theorem ApplyPlacement_spec_witness:
  "\<exists>res st. ApplyPlacement ex_raft ex_time [] ''j1'' ''worker-1'' zero_state = (res, st)
     \<and> res = Inr () \<and> f_Count st = 2 \<and> f_Recent st = [ex_placement, ex_placement]"
proof -
  obtain res st where c: "ApplyPlacement ex_raft ex_time [] ''j1'' ''worker-1'' zero_state = (res, st)" by fastforce
  have raft: "\<exists>st. fsm_Apply (\<lambda>_. None) (\<lambda>_. ''bad'') data (apply_log (\<lambda>_. None) (\<lambda>_. ''bad'') [ex_entry] w) = (resp, st)
      \<and> w' = apply_log (\<lambda>_. None) (\<lambda>_. ''bad'') [] st" if "ra_Apply ex_raft data w = (Inr resp, w')" for data w resp w'
    using that by (auto simp: ex_raft_def apply_log_def split: prod.splits)
  have un: "unmarshal_placement (\<lambda>_. None) ex_entry = Some ex_placement"
    by (rule unmarshal_marshal_placement [OF wf_ex_placement marshal_ex])
  then have pl: "placements_of (\<lambda>_. None) [ex_entry] = [ex_placement]" "placements_of (\<lambda>_. None) [] = []"
    by (simp_all add: placements_of_def map_filter_simps)
  have "res = Inr ()" using arg_cong [OF c, of fst] marshal_ex un
    by (simp add: ApplyPlacement_def ex_raft_def ex_placement_def fsm_Apply_def Let_def split: prod.splits)
  then show ?thesis
    using ApplyPlacement_spec [of ex_raft "\<lambda>_. None" "\<lambda>_. ''bad''" "\<lambda>_. [ex_entry]" "\<lambda>st. st" "\<lambda>_. []" "''j1''" "''worker-1''" ex_time "[]" zero_state res st, OF raft _ c]
      wf_ex_placement c by (simp add: ex_placement_def [symmetric] pl) (simp add: zero_state_def last_n_def)
qed

lemma bootstrap_servers_spec:
  "map_of (bootstrap_servers ch peers) = fmlookup peers"
  "sorted (map fst (bootstrap_servers ch peers))" "distinct (map fst (bootstrap_servers ch peers))"
  "bootstrap_servers ch peers = bootstrap_servers ch' peers"
proof -
  let ?f = "\<lambda>name. (name, at_or [] peers name)"
  show s: "sorted (map fst (bootstrap_servers ch peers))" for ch by (simp add: bootstrap_servers_def)
  have "mset (map fst (bootstrap_servers ch peers)) = mset (range_keys ch peers)" for ch
    by (simp add: bootstrap_servers_def multiset.map_comp comp_def)
  from mset_eq_imp_distinct_iff [OF this] show d: "distinct (map fst (bootstrap_servers ch peers))" for ch by simp
  have set: "set (bootstrap_servers ch peers) = ?f ` fset (fmdom peers)" for ch by (simp add: bootstrap_servers_def)
  show "bootstrap_servers ch peers = bootstrap_servers ch' peers"
    by (rule map_sorted_distinct_set_unique [where f = fst])
      (use s d in \<open>auto simp: set distinct_map inj_on_def\<close>)
  show "map_of (bootstrap_servers ch peers) = fmlookup peers"
  proof
    fix n
    show "map_of (bootstrap_servers ch peers) n = fmlookup peers n"
    proof (cases "fmlookup peers n")
      case None
      then show ?thesis by (auto simp: map_of_eq_None_iff set image_iff fmlookup_dom_iff)
    next
      case (Some a)
      then have "(n, a) \<in> set (bootstrap_servers ch peers)" by (auto simp: set at_or_def fmlookup_dom_iff image_iff)
      then show ?thesis using Some d by (simp add: map_of_eq_Some_iff)
    qed
  qed
qed

text \<open>
  C28 All members of one peer map that start for the first time bootstrap with the same
  configuration, in whatever order they loop over the map: every peer exactly once with its
  address, sorted by id.  A member that finds state on its disk does not bootstrap.  An instance that is not in the
  peer map does not start, first start or not, whatever its files hold.
\<close>

theorem bootstrap_same:
  assumes "Node_New ch q cfg b = Inr (Some servers)" "Node_New ch' q' cfg' b' = Inr (Some servers')"
    and "rc_Peers cfg' = rc_Peers cfg"
  shows "servers = servers' \<and> map_of servers = fmlookup (rc_Peers cfg) \<and> sorted (map fst servers) \<and> distinct (map fst servers)
    \<and> rc_Instance cfg \<in> set (map fst servers) \<and> rc_Instance cfg' \<in> set (map fst servers)
    \<and> rb_HasExistingState b = Inr False
    \<and> (\<forall>ch fmt_q inst backends. inst \<notin> set (map fst servers) \<longrightarrow>
         Node_New ch fmt_q \<lparr>rc_Instance = inst, rc_Peers = rc_Peers cfg\<rparr> backends
           = Inl (''raftnode: instance '' @ fmt_q inst @ '' missing from IRONWORK_RAFT_PEERS''))
    \<and> (\<forall>ch fmt_q inst backends boot. rb_HasExistingState backends = Inr True \<longrightarrow>
         Node_New ch fmt_q \<lparr>rc_Instance = inst, rc_Peers = rc_Peers cfg\<rparr> backends = Inr boot \<longrightarrow> boot = None)"
proof -
  have new: "rc_Instance c |\<in>| fmdom (rc_Peers c) \<and> s = bootstrap_servers h (rc_Peers c) \<and> rb_HasExistingState bb = Inr False"
    if "Node_New h fq c bb = Inr (Some s)" for h fq c bb s
    using that by (auto simp: Node_New_def fmlookup_dom_iff split: option.splits sum.splits if_splits bootstrapped.splits)
  from new [OF assms(1)] new [OF assms(2)] have s: "servers = bootstrap_servers ch (rc_Peers cfg)"
    "servers' = bootstrap_servers ch' (rc_Peers cfg)"
    and i: "rc_Instance cfg |\<in>| fmdom (rc_Peers cfg)" "rc_Instance cfg' |\<in>| fmdom (rc_Peers cfg)" "rb_HasExistingState b = Inr False"
    using assms(3) by auto
  have set: "set (map fst servers) = fset (fmdom (rc_Peers cfg))" by (simp add: s(1) bootstrap_servers_def image_image)
  have "\<forall>ch fmt_q inst backends. inst \<notin> set (map fst servers) \<longrightarrow>
       Node_New ch fmt_q \<lparr>rc_Instance = inst, rc_Peers = rc_Peers cfg\<rparr> backends
         = Inl (''raftnode: instance '' @ fmt_q inst @ '' missing from IRONWORK_RAFT_PEERS'')"
    unfolding set by (auto simp: Node_New_def fmdom_notD)
  moreover have "\<forall>ch fmt_q inst backends boot. rb_HasExistingState backends = Inr True \<longrightarrow>
       Node_New ch fmt_q \<lparr>rc_Instance = inst, rc_Peers = rc_Peers cfg\<rparr> backends = Inr boot \<longrightarrow> boot = None"
    by (auto simp: Node_New_def split: option.splits)
  ultimately show ?thesis using i s set bootstrap_servers_spec by auto
qed

definition ex_backends :: raft_backends where
  "ex_backends = \<lparr>rb_ServerTLS = None, rb_ClientTLS = None, rb_StreamLayer = None, rb_MkdirAll = None, rb_NewBoltStore = None,
     rb_NewFileSnapshotStore = None, rb_HasExistingState = Inr False, rb_NewRaft = None, rb_BootstrapCluster = Boot_cant\<rparr>"

definition ex_peers :: "(string, string) fmap" where
  "ex_peers = fmap_of_list [(''scheduler-2'', ''scheduler-2:9444''), (''scheduler-1'', ''scheduler-1:9444'')]"

theorem bootstrap_same_witness:
  "\<exists>s. Node_New (\<lambda>_. []) (\<lambda>s. s) \<lparr>rc_Instance = ''scheduler-1'', rc_Peers = ex_peers\<rparr> ex_backends = Inr (Some s)
     \<and> Node_New (\<lambda>_. [1]) (\<lambda>s. s) \<lparr>rc_Instance = ''scheduler-2'', rc_Peers = ex_peers\<rparr> (ex_backends\<lparr>rb_BootstrapCluster := Boot_ok\<rparr>) = Inr (Some s)
     \<and> ''scheduler-2'' \<in> set (map fst s)
     \<and> isl (Node_New (\<lambda>_. []) (\<lambda>s. s) \<lparr>rc_Instance = ''scheduler-3'', rc_Peers = ex_peers\<rparr> (ex_backends\<lparr>rb_HasExistingState := Inr True\<rparr>))"
proof -
  have n: "Node_New ch (\<lambda>s. s) \<lparr>rc_Instance = i, rc_Peers = ex_peers\<rparr> (ex_backends\<lparr>rb_BootstrapCluster := bt\<rparr>)
      = Inr (Some (bootstrap_servers ch ex_peers))"
    if "i \<in> {''scheduler-1'', ''scheduler-2''}" "bt \<in> {Boot_ok, Boot_cant}" for ch i bt
    using that by (auto simp: Node_New_def ex_peers_def ex_backends_def newWithBackends_def fmlookup_of_list)
  have b: "ex_backends\<lparr>rb_BootstrapCluster := Boot_cant\<rparr> = ex_backends" by (simp add: ex_backends_def)
  note n1 = n [of "''scheduler-1''" Boot_cant "\<lambda>_. []", unfolded b] and n2 = n [of "''scheduler-2''" Boot_ok "\<lambda>_. [1]"]
  have "''scheduler-3'' \<notin> set (map fst (bootstrap_servers (\<lambda>_. []) ex_peers))" by (simp add: bootstrap_servers_def ex_peers_def)
  with bootstrap_same [OF n1 n2] n1 n2 show ?thesis by auto
qed

end
