(* ===== verification/SchedulerSvc.thy ===== *)
theory SchedulerSvc
  imports ProtoConv Registry RaftNode
begin

section \<open>The scheduler's services (internal/schedulersvc)\<close>

text \<open>
  The job service, the worker-facing service and the state service of a scheduler
  (\<open>src/internal/schedulersvc/schedulersvc.go\<close>, \<open>workers.go\<close>, \<open>state.go\<close>).  The collaborators of the job service
  (\<open>JobStore\<close>, \<open>Leadership\<close>, \<open>Waker\<close>) are the record \<open>job_deps\<close> over the state \<open>'w\<close> of the
  surroundings.  \<open>uuid.Parse\<close> of \<open>github.com/google/uuid\<close> is a parameter.  Log lines have no effect.

  Shown: the handlers branch by branch; the locale \<open>job_store\<close> says what the service needs of its
  store, and inside it a submission has the effect of one transaction.
\<close>

record SubmitJobRequest =
  sr_Name :: string
  sr_Payload :: string

record ListJobsRequest =
  lr_StatusFilter :: JobStatus
  lr_PageSize :: "32 word"

record GetOutboxStatsResponse =
  sx_Pending :: nat
  sx_Dispatched :: nat
  sx_Failed :: nat
  sx_OldestPendingSeconds :: seconds

record 'w job_deps =
  jd_CreateJobWithOutbox :: "string \<Rightarrow> string \<Rightarrow> 'w \<Rightarrow> Job stored \<times> 'w"
  jd_GetJob :: "string \<Rightarrow> 'w \<Rightarrow> Job stored \<times> 'w"
  jd_ListJobs :: "string \<Rightarrow> int \<Rightarrow> 'w \<Rightarrow> Job list stored \<times> 'w"
  jd_OutboxStats :: "'w \<Rightarrow> outbox_stats stored \<times> 'w"
  jd_IsLeader :: "'w \<Rightarrow> bool \<times> 'w"
  jd_LeaderID :: "'w \<Rightarrow> string \<times> 'w"
  jd_Wake :: "'w \<Rightarrow> 'w"

definition maxNameLength :: nat where "maxNameLength = 200"
definition defaultLimit :: int where "defaultLimit = 50"
definition maxLimit :: int where "maxLimit = 200"

definition SubmitJob :: "'w job_deps \<Rightarrow> SubmitJobRequest \<Rightarrow> 'w \<Rightarrow> PJob rpc \<times> 'w" where
  "SubmitJob D req w =
     (case jd_IsLeader D w of (lead, w1) \<Rightarrow>
        if \<not> lead then
          (case jd_LeaderID D w1 of (l, w2) \<Rightarrow>
             (Inl (RpcError FailedPrecondition (''not leader (leader: '' @ l @ '')'')), w2))
        else if sr_Name req = [] \<or> length (sr_Name req) > maxNameLength then
          (Inl (RpcError InvalidArgument ''name is required (max 200 chars)''), w1)
        else
          (case jd_CreateJobWithOutbox D (sr_Name req) (sr_Payload req) w1 of
             (Inl _, w2) \<Rightarrow> (Inl (RpcError Internal ''create job''), w2)
           | (Inr job, w2) \<Rightarrow> (Inr (JobToProto job), jd_Wake D w2)))"

definition GetOutboxStats :: "'w job_deps \<Rightarrow> 'w \<Rightarrow> GetOutboxStatsResponse rpc \<times> 'w" where
  "GetOutboxStats D w =
     (case jd_OutboxStats D w of
        (Inl _, w1) \<Rightarrow> (Inl (RpcError Internal ''outbox stats''), w1)
      | (Inr stats, w1) \<Rightarrow>
          (Inr \<lparr>sx_Pending = os_Pending stats, sx_Dispatched = os_Dispatched stats, sx_Failed = os_Failed stats,
                sx_OldestPendingSeconds = Seconds (os_OldestPending stats)\<rparr>, w1))"

definition JobServer_GetJob :: "(string \<Rightarrow> bool) \<Rightarrow> 'w job_deps \<Rightarrow> string \<Rightarrow> 'w \<Rightarrow> PJob rpc \<times> 'w" where
  "JobServer_GetJob uuid_Parse D i w =
     (if \<not> uuid_Parse i then (Inl (RpcError InvalidArgument ''id must be a UUID''), w)
      else
        (case jd_GetJob D i w of
           (Inl ErrNotFound, w1) \<Rightarrow> (Inl (RpcError NotFound (''job '' @ i @ '' not found'')), w1)
         | (Inl (StoreErr _), w1) \<Rightarrow> (Inl (RpcError Internal ''get job''), w1)
         | (Inr job, w1) \<Rightarrow> (Inr (JobToProto job), w1)))"

definition page_limit :: "int \<Rightarrow> int" where
  "page_limit limit = (if limit < 1 \<or> limit > maxLimit then defaultLimit else limit)"

definition JobServer_ListJobs :: "choice \<Rightarrow> 'w job_deps \<Rightarrow> ListJobsRequest \<Rightarrow> 'w \<Rightarrow> PJob list rpc \<times> 'w" where
  "JobServer_ListJobs ch D req w =
     (case jd_ListJobs D (StatusFromProto ch (lr_StatusFilter req)) (page_limit (uint (lr_PageSize req))) w of
        (Inl _, w1) \<Rightarrow> (Inl (RpcError Internal ''list jobs''), w1)
      | (Inr js, w1) \<Rightarrow> (Inr (map JobToProto js), w1))"

subsection \<open>The worker-facing half\<close>

record RegisterWorkerRequest =
  rw_WorkerId :: string
  rw_Capacity :: "32 word"

record HeartbeatRequest =
  hb_WorkerId :: string
  hb_Capacity :: "32 word"
  hb_Inflight :: "32 word"

text \<open>
  \<open>uint32(interval.Seconds())\<close>: the conversion drops the fraction.  (For the whole seconds used here
  the \<open>float64\<close> is exact.)
\<close>

definition whole_seconds :: "int \<Rightarrow> 32 word" where
  "whole_seconds d = word_of_int (d div 1000000000)"

definition RegisterWorker :: "int \<Rightarrow> int \<Rightarrow> Registry \<Rightarrow> RegisterWorkerRequest \<Rightarrow> 32 word rpc \<times> Registry" where
  "RegisterWorker interval now reg req =
     (if rw_WorkerId req = [] then (Inl (RpcError InvalidArgument ''worker_id is required''), reg)
      else (Inr (whole_seconds interval),
            Registry_Record now reg (rw_WorkerId req) (uint (rw_Capacity req)) 0))"

definition Heartbeat :: "int \<Rightarrow> Registry \<Rightarrow> HeartbeatRequest \<Rightarrow> unit rpc \<times> Registry" where
  "Heartbeat now reg req =
     (if hb_WorkerId req = [] then (Inl (RpcError InvalidArgument ''worker_id is required''), reg)
      else (Inr (),
            Registry_Record now reg (hb_WorkerId req) (uint (hb_Capacity req)) (uint (hb_Inflight req))))"

lemma wf_registry_Heartbeat: "wf_registry reg \<Longrightarrow> wf_registry (snd (Heartbeat now reg req))"
  by (simp add: Heartbeat_def wf_registry_Record)

lemma wf_registry_RegisterWorker: "wf_registry reg \<Longrightarrow> wf_registry (snd (RegisterWorker iv now reg req))"
  by (simp add: RegisterWorker_def wf_registry_Record)

subsection \<open>The state service\<close>

record PlacementRecord =
  pr_JobId :: string
  pr_Worker :: string
  pr_At :: "Timestamp option"

record RaftStatus =
  rs_State :: string
  rs_LeaderId :: string
  rs_Term :: nat
  rs_LastLogIndex :: nat
  rs_AppliedIndex :: nat
  rs_Peers :: "string list"
  rs_RecentPlacements :: "PlacementRecord list"

record WorkerStatus =
  ws_Instance :: string
  ws_Alive :: bool
  ws_SecondsSinceHeartbeat :: seconds
  ws_Capacity :: "32 word"
  ws_Inflight :: "32 word"

record ClusterState =
  cs_ReportingNode :: string
  cs_AsOf :: "Timestamp option"
  cs_Raft :: "RaftStatus option"
  cs_Workers :: "WorkerStatus list"

definition raft_status :: "Info \<Rightarrow> RaftStatus" where
  "raft_status info =
     \<lparr>rs_State = in_State info, rs_LeaderId = in_LeaderID info, rs_Term = in_Term info,
      rs_LastLogIndex = in_LastLogIndex info, rs_AppliedIndex = in_AppliedIndex info, rs_Peers = in_Peers info,
      rs_RecentPlacements = map (\<lambda>p. \<lparr>pr_JobId = p_JobID p, pr_Worker = p_Worker p,
                                       pr_At = Some (timestamp_New (UnixNano (p_At p)))\<rparr>) (in_RecentPlacements info)\<rparr>"

definition worker_status :: "int \<Rightarrow> WorkerState \<Rightarrow> WorkerStatus" where
  "worker_status now w =
     \<lparr>ws_Instance = w_Instance w, ws_Alive = w_Alive w,
      ws_SecondsSinceHeartbeat = Seconds (time_Sub now (w_LastSeen w)),
      ws_Capacity = word_of_int (w_Capacity w), ws_Inflight = word_of_int (w_Inflight w)\<rparr>"

text \<open>\<open>clock i\<close> is the time at its \<open>i\<close>th reading: one for each worker, then one for the answer.\<close>

definition StateServer_GetClusterState ::
  "string \<Rightarrow> Info \<Rightarrow> WorkerState list \<Rightarrow> (nat \<Rightarrow> int) \<Rightarrow> ClusterState rpc" where
  "StateServer_GetClusterState inst info snapshot clock =
     Inr \<lparr>cs_ReportingNode = inst, cs_AsOf = Some (timestamp_New (clock (length snapshot))), cs_Raft = Some (raft_status info),
          cs_Workers = map (\<lambda>(i, w). worker_status (clock i) w) (enumerate 0 snapshot)\<rparr>"

subsection \<open>Lists and reads\<close>

lemma page_limit_bounds: "1 \<le> page_limit n \<and> page_limit n \<le> 200"
  by (simp add: page_limit_def defaultLimit_def maxLimit_def)

lemma page_limit_idem [simp]: "page_limit (page_limit n) = page_limit n"
  by (simp add: page_limit_def defaultLimit_def maxLimit_def)

subsection \<open>What the service needs of its store\<close>

text \<open>
  One transaction that creates a job: nothing, or the job and its command, appended together.  The
  result may be an error although the transaction committed.
\<close>

definition job_created :: "string \<Rightarrow> string \<Rightarrow> job_row \<Rightarrow> outbox_row \<Rightarrow> db \<Rightarrow> db \<Rightarrow> bool" where
  "job_created name payload r c d d' \<longleftrightarrow>
     jobs d' = jobs d @ [r] \<and> outbox d' = outbox d @ [c]
     \<and> r_id r \<notin> ids d \<and> r_name r = name \<and> r_payload r = payload \<and> r_status r = StatusPending
     \<and> o_job_id c = r_id r \<and> o_status c = OutboxPending"

text \<open>
  A call starts in a \<open>ready\<close> state and ends in a \<open>used\<close> one: the ids that the database draws in one call
  are new, but not a second time.
\<close>

locale job_store =
  fixes D :: "'w job_deps" and db_of :: "'w \<Rightarrow> db" and ready used :: "'w \<Rightarrow> bool"
  assumes ready_used: "ready w \<Longrightarrow> used w"
    and create:
    "ready w \<Longrightarrow> jd_CreateJobWithOutbox D name payload w = (res, w') \<Longrightarrow>
       used w' \<and> (isl res \<and> db_of w' = db_of w
                  \<or> (\<exists>r c. job_created name payload r c (db_of w) (db_of w') \<and> (isl res \<or> res = Inr (job_of_row r))))"
    and lead: "ready w \<Longrightarrow> jd_IsLeader D w = (b, w') \<Longrightarrow> ready w' \<and> db_of w' = db_of w"
    and leader_id: "ready w \<Longrightarrow> jd_LeaderID D w = (s, w') \<Longrightarrow> ready w' \<and> db_of w' = db_of w"
    and wake: "used w \<Longrightarrow> used (jd_Wake D w) \<and> db_of (jd_Wake D w) = db_of w"
begin

lemma SubmitJob_effect:
  assumes "ready w" "SubmitJob D req w = (res, w')"
  shows "used w' \<and> (isl res \<and> db_of w' = db_of w
                   \<or> (\<exists>r c. job_created (sr_Name req) (sr_Payload req) r c (db_of w) (db_of w')
                          \<and> (isl res \<and> err_code (projl res) = Internal \<or> res = Inr (JobToProto (job_of_row r)))))"
proof -
  obtain b w1 where l: "jd_IsLeader D w = (b, w1)" by fastforce
  obtain s w2 where i: "jd_LeaderID D w1 = (s, w2)" by fastforce
  obtain cr w3 where c: "jd_CreateJobWithOutbox D (sr_Name req) (sr_Payload req) w1 = (cr, w3)" by fastforce
  note w1 = lead [OF assms(1) l]
  note w2 = leader_id [OF conjunct1 [OF w1] i]
  note w3 = create [OF conjunct1 [OF w1] c]
  note w4 = wake [OF conjunct1 [OF w3]]
  consider "\<not> b" | "b" "sr_Name req = [] \<or> length (sr_Name req) > maxNameLength"
    | "b" "\<not> (sr_Name req = [] \<or> length (sr_Name req) > maxNameLength)" by blast
  then show ?thesis
  proof cases
    case 1
    then show ?thesis using assms(2) l i w1 w2 ready_used by (auto simp: SubmitJob_def)
  next
    case 2
    then show ?thesis using assms(2) l w1 ready_used by (auto simp: SubmitJob_def)
  next
    case 3
    then show ?thesis using assms(2) l c w1 w3 w4 by (cases cr) (auto simp: SubmitJob_def)
  qed
qed

lemma SubmitJob_follower:
  assumes "ready w" "jd_IsLeader D w = (False, w1)" "SubmitJob D req w = (res, w')"
  shows "\<exists>m. res = Inl (RpcError FailedPrecondition m)" "db_of w' = db_of w"
proof -
  obtain s w2 where i: "jd_LeaderID D w1 = (s, w2)" by fastforce
  show "\<exists>m. res = Inl (RpcError FailedPrecondition m)" using assms(2,3) i by (auto simp: SubmitJob_def)
  show "db_of w' = db_of w"
    using assms(3) i assms(2) lead [OF assms(1,2)] leader_id [of w1 s w2] by (auto simp: SubmitJob_def)
qed

end

end
