(* ===== verification/Clients.thy ===== *)
theory Clients
  imports Prelude
begin

section \<open>Connections to a set of named servers\<close>

text \<open>
  \<open>leaderclient.New\<close>, \<open>heartbeat.New\<close> and \<open>crdtview.New\<close> are the same loop: sort the configured names,
  dial each address, and on an error close what was opened.  \<open>dial\<close> stands for \<open>grpc.NewClient\<close>: an
  error or the client for an address.  \<open>cn_close\<close> is the address whose connection the close function
  of a member closes (\<open>None\<close>: a nil function).

  Shown: a success has one member per configured name, sorted by name, each with the client of its
  address; after an error no connection stays open.
\<close>

record 'c conn =
  cn_name :: string
  cn_client :: 'c
  cn_close :: "string option"

definition close_all :: "'c conn list \<Rightarrow> string list" where
  "close_all ms = List.map_filter cn_close ms"

fun dial_names ::
  "string \<Rightarrow> (string \<Rightarrow> string + 'c) \<Rightarrow> (string, string) fmap \<Rightarrow> string list \<Rightarrow> 'c conn list
     \<Rightarrow> (string \<times> string list) + 'c conn list" where
  "dial_names pkg dial addrs [] ms = Inr ms"
| "dial_names pkg dial addrs (name # names) ms =
     (let addr = at_or [] addrs name in
      case dial addr of
        Inl e \<Rightarrow> Inl (pkg @ '': client for '' @ name @ '': '' @ e, close_all ms)
      | Inr c \<Rightarrow> dial_names pkg dial addrs names (ms @ [\<lparr>cn_name = name, cn_client = c, cn_close = Some addr\<rparr>]))"

definition connect_all ::
  "string \<Rightarrow> string \<Rightarrow> choice \<Rightarrow> (string \<Rightarrow> string + 'c) \<Rightarrow> (string, string) fmap
     \<Rightarrow> (string \<times> string list) + 'c conn list" where
  "connect_all pkg missing ch dial addrs =
     (if addrs = fmempty then Inl (pkg @ '': no '' @ missing, [])
      else dial_names pkg dial addrs (sort (range_keys ch addrs)) [])"

lemma close_all_append: "close_all (xs @ ys) = close_all xs @ close_all ys"
  by (induction xs) (simp_all add: close_all_def split: option.splits)

lemma close_all_one [simp]: "close_all [] = []" "close_all [m] = (case cn_close m of None \<Rightarrow> [] | Some a \<Rightarrow> [a])"
  by (simp_all add: close_all_def split: option.splits)

lemma dial_names_Inr:
  "dial_names pkg dial addrs names ms = Inr ms' \<Longrightarrow>
     \<exists>new. ms' = ms @ new \<and> map cn_name new = names
         \<and> (\<forall>m \<in> set new. dial (at_or [] addrs (cn_name m)) = Inr (cn_client m) \<and> cn_close m = Some (at_or [] addrs (cn_name m)))"
proof (induction names arbitrary: ms)
  case (Cons n names)
  then obtain c where c: "dial (at_or [] addrs n) = Inr c" by (cases "dial (at_or [] addrs n)") (auto simp: Let_def)
  let ?m = "\<lparr>cn_name = n, cn_client = c, cn_close = Some (at_or [] addrs n)\<rparr>"
  from Cons c obtain new where "ms' = (ms @ [?m]) @ new" "map cn_name new = names"
    "\<forall>m \<in> set new. dial (at_or [] addrs (cn_name m)) = Inr (cn_client m) \<and> cn_close m = Some (at_or [] addrs (cn_name m))"
    by (fastforce simp: Let_def)
  then show ?case using c by (intro exI [of _ "?m # new"]) auto
qed simp

lemma dial_names_Inl:
  "dial_names pkg dial addrs names ms = Inl (e, closed) \<Longrightarrow>
     \<exists>pre n post err. names = pre @ n # post \<and> dial (at_or [] addrs n) = Inl err
       \<and> (\<forall>x \<in> set pre. \<not> isl (dial (at_or [] addrs x)))
       \<and> e = pkg @ '': client for '' @ n @ '': '' @ err \<and> closed = close_all ms @ map (at_or [] addrs) pre"
proof (induction names arbitrary: ms)
  case (Cons n names)
  show ?case
  proof (cases "dial (at_or [] addrs n)")
    case (Inl err)
    then show ?thesis using Cons.prems 
      by (rule_tac exI [of _ Nil], rule_tac exI [of _ n], rule_tac exI [of _ names], rule_tac exI [of _ err]) (simp add: Let_def)
  next
    case (Inr c)
    then obtain pre m post err where "names = pre @ m # post" "dial (at_or [] addrs m) = Inl err"
      "\<forall>x \<in> set pre. \<not> isl (dial (at_or [] addrs x))" "e = pkg @ '': client for '' @ m @ '': '' @ err"
      "closed = close_all (ms @ [\<lparr>cn_name = n, cn_client = c, cn_close = Some (at_or [] addrs n)\<rparr>]) @ map (at_or [] addrs) pre"
      using Cons by (fastforce simp: Let_def)
    then show ?thesis using Inr
      by (rule_tac exI [of _ "n # pre"], rule_tac exI [of _ m], rule_tac exI [of _ post], rule_tac exI [of _ err])
        (auto simp: close_all_append)
  qed
qed simp

lemma connect_all_Inr:
  assumes "connect_all pkg missing ch dial addrs = Inr ms"
  shows "ms \<noteq> []" "map cn_name ms = sort (range_keys ch addrs)" "distinct (map cn_name ms)" "set (map cn_name ms) = fset (fmdom addrs)"
    "\<forall>m \<in> set ms. dial (at_or [] addrs (cn_name m)) = Inr (cn_client m)"
proof -
  have ne: "addrs \<noteq> fmempty" and d: "dial_names pkg dial addrs (sort (range_keys ch addrs)) [] = Inr ms"
    using assms by (auto simp: connect_all_def split: if_splits)
  from dial_names_Inr [OF d] show n: "map cn_name ms = sort (range_keys ch addrs)"
    and "\<forall>m \<in> set ms. dial (at_or [] addrs (cn_name m)) = Inr (cn_client m)" by auto
  show "distinct (map cn_name ms)" "set (map cn_name ms) = fset (fmdom addrs)" unfolding n by simp_all
  then show "ms \<noteq> []" using ne by (metis fset_fmdom_empty list.map_disc_iff set_empty)
qed

text \<open>After an error every connection that was opened is closed again.\<close>

lemma connect_all_Inl:
  assumes "connect_all pkg missing ch dial addrs = Inl (e, closed)" "addrs \<noteq> fmempty"
  shows "\<exists>pre n post err. sort (range_keys ch addrs) = pre @ n # post \<and> dial (at_or [] addrs n) = Inl err
    \<and> e = pkg @ '': client for '' @ n @ '': '' @ err \<and> closed = map (at_or [] addrs) pre"
  using assms dial_names_Inl [of pkg dial addrs "sort (range_keys ch addrs)" Nil e closed]
  by (auto simp: connect_all_def split: if_splits)

subsection \<open>Concurrent calls\<close>

text \<open>
  One goroutine per member, each writing its own slot of the result.  The calls take effect in some
  order, which \<open>order\<close> chooses.
\<close>

fun call_each :: "('m \<Rightarrow> 'w \<Rightarrow> 'b \<times> 'w) \<Rightarrow> (nat \<times> 'm) list \<Rightarrow> 'w \<Rightarrow> (nat \<times> 'b) list \<times> 'w" where
  "call_each f [] w = ([], w)"
| "call_each f ((i, m) # xs) w =
     (case f m w of (b, w1) \<Rightarrow> (case call_each f xs w1 of (bs, w2) \<Rightarrow> ((i, b) # bs, w2)))"

definition fan_out :: "nat list \<Rightarrow> ('m \<Rightarrow> 'w \<Rightarrow> 'b \<times> 'w) \<Rightarrow> 'm list \<Rightarrow> 'w \<Rightarrow> 'b list \<times> 'w" where
  "fan_out order f ms w =
     (case call_each f (reorder order (enumerate 0 ms)) w of
        (rs, w') \<Rightarrow> (List.map_filter (map_of rs) [0..<length ms], w'))"

lemma call_each_keys: "map fst (fst (call_each f xs w)) = map fst xs"
  by (induction f xs w rule: call_each.induct) (auto split: prod.splits)

lemma call_each_invariant:
  assumes "\<And>m w. m \<in> snd ` set xs \<Longrightarrow> P w \<Longrightarrow> P (snd (f m w))" "P w" "call_each f xs w = (rs, w')"
  shows "P w' \<and> (\<forall>(i, b) \<in> set rs. \<exists>m w1. (i, m) \<in> set xs \<and> P w1 \<and> fst (f m w1) = b)"
  using assms
proof (induction xs arbitrary: w rs)
  case (Cons x xs)
  obtain j m where x: "x = (j, m)" by fastforce
  obtain b1 w1 where b: "f m w = (b1, w1)" by fastforce
  obtain bs where r: "call_each f xs w1 = (bs, w')" "rs = (j, b1) # bs"
    using Cons.prems(3) x b by (auto split: prod.splits)
  have w1: "P w1" using Cons.prems(1) [of m w] Cons.prems(2) x b by simp
  have "P w' \<and> (\<forall>(i, b) \<in> set bs. \<exists>m w1. (i, m) \<in> set xs \<and> P w1 \<and> fst (f m w1) = b)"
    by (rule Cons.IH [OF _ w1 r(1)]) (use Cons.prems(1) in auto)
  moreover have "\<exists>m w1. (j, m) \<in> set (x # xs) \<and> P w1 \<and> fst (f m w1) = b1"
    using b x Cons.prems(2) by (intro exI [of _ m] exI [of _ w]) simp
  ultimately show ?case using r(2) by fastforce
qed simp

lemma map_filter_total: "(\<And>x. x \<in> set xs \<Longrightarrow> f x = Some (g x)) \<Longrightarrow> List.map_filter f xs = map g xs"
  by (induction xs) auto

text \<open>
  Every member is called once, in a state that satisfies what all calls preserve, and its answer
  stands at its own place.
\<close>

lemma fan_out_invariant:
  assumes "fan_out order f ms w = (out, w')" "P w" "\<And>m w. m \<in> set ms \<Longrightarrow> P w \<Longrightarrow> P (snd (f m w))"
  shows "P w'" "length out = length ms" "i < length ms \<Longrightarrow> \<exists>w1. P w1 \<and> fst (f (ms ! i) w1) = out ! i"
proof -
  obtain rs where rs: "call_each f (reorder order (enumerate 0 ms)) w = (rs, w')"
    and out: "out = List.map_filter (map_of rs) [0..<length ms]"
    using assms(1) by (auto simp: fan_out_def split: prod.splits)
  have keys: "map fst rs = map fst (reorder order (enumerate 0 ms))"
    using call_each_keys [of f "reorder order (enumerate 0 ms)" w] rs by simp
  have dom: "fst ` set rs = {0..<length ms}"
  proof -
    have "map fst (enumerate 0 ms) = [0..<length ms]" by (simp add: enumerate_map_upt)
    then have "fst ` set (enumerate 0 ms) = {0..<length ms}" by (metis set_map set_upt)
    then show ?thesis using arg_cong [OF keys, of set] by simp
  qed
  have some: "map_of rs i = Some (the (map_of rs i))" if "i < length ms" for i
    using that dom by (metis atLeastLessThan_iff le0 map_of_eq_None_iff option.collapse)
  then have o: "out = map (\<lambda>i. the (map_of rs i)) [0..<length ms]" unfolding out by (intro map_filter_total) simp
  then show "length out = length ms" by simp
  have "m \<in> set ms" if "m \<in> snd ` set (reorder order (enumerate 0 ms))" for m
    using that by (auto simp: in_set_enumerate_eq)
  with call_each_invariant [of "reorder order (enumerate 0 ms)" P f w rs w'] assms(2,3) rs
  have all: "P w' \<and> (\<forall>(i, b) \<in> set rs. \<exists>m w1. (i, m) \<in> set (enumerate 0 ms) \<and> P w1 \<and> fst (f m w1) = b)" by simp
  then show "P w'" by blast
  assume i: "i < length ms"
  then have "(i, out ! i) \<in> set rs" using some [OF i] by (simp add: o map_of_SomeD)
  with all obtain m w1 where "(i, m) \<in> set (enumerate 0 ms)" "P w1" "fst (f m w1) = out ! i" by fast
  then show "\<exists>w1. P w1 \<and> fst (f (ms ! i) w1) = out ! i" by (auto simp: in_set_enumerate_eq)
qed

text \<open>The members in the order in which their calls take effect.\<close>

lemma snd_reorder_enumerate: "snd ` set (reorder order (enumerate n xs)) = set xs"
  by (metis map_snd_enumerate set_map set_reorder)

lemma distinct_reorder_enumerate:
  assumes "distinct (map f xs)"
  shows "distinct (map (\<lambda>x. f (snd x)) (reorder order (enumerate n xs)))"
proof -
  have "map (\<lambda>x. f (snd x)) (enumerate n xs) = map f xs"
    by (metis (no_types, lifting) map_snd_enumerate map_map comp_def map_cong)
  moreover have "mset (map (\<lambda>x. f (snd x)) (reorder order (enumerate n xs))) = mset (map (\<lambda>x. f (snd x)) (enumerate n xs))" by simp
  ultimately show ?thesis using assms by (metis mset_eq_imp_distinct_iff)
qed

end
