(* ===== verification/Heartbeat.thy ===== *)
theory Heartbeat
  imports SchedulerSvc Clients Scheduler
begin

section \<open>The worker's heartbeat loop (internal/heartbeat)\<close>

text \<open>
  The reporter of a worker (\<open>src/internal/heartbeat/heartbeat.go\<close>) and its target, the worker-facing
  service of every scheduler.  The state is the registry of each scheduler, by address; one round of
  concurrent calls takes effect in some order.  What the outside contributes is a sequence of
  environments, one per call: whether the request arrives, and the clock of the scheduler that
  handles it.  A lost answer makes no difference to the loop, which ignores answers.

  Shown: after a round every scheduler that was reached holds the worker's capacity and load, and
  offers it work while it has free slots and the record is fresh; the others keep what they had.
\<close>

definition Interval :: int where "Interval = 2 * 1000000000"

record HeartbeatConfig =
  hc_Instance :: string
  hc_Capacity :: int

record beat_env =
  be_delivered :: bool
  be_now :: int

record fleet =
  fl_regs :: "string \<Rightarrow> Registry"
  fl_env :: "nat \<Rightarrow> beat_env"
  fl_tick :: nat

text \<open>The client of the scheduler at an address: the two calls the loop makes.\<close>

record worker_service_client =
  wc_RegisterWorker :: "RegisterWorkerRequest \<Rightarrow> fleet \<Rightarrow> 32 word rpc \<times> fleet"
  wc_Heartbeat :: "HeartbeatRequest \<Rightarrow> fleet \<Rightarrow> unit rpc \<times> fleet"

definition worker_call :: "string \<Rightarrow> (int \<Rightarrow> Registry \<Rightarrow> 'a rpc \<times> Registry) \<Rightarrow> fleet \<Rightarrow> 'a rpc \<times> fleet" where
  "worker_call addr h f =
     (let e = fl_env f (fl_tick f); f1 = f\<lparr>fl_tick := Suc (fl_tick f)\<rparr> in
      if \<not> be_delivered e then (Inl (RpcError Unavailable ''unreachable''), f1)
      else (case h (be_now e) (fl_regs f addr) of (res, reg) \<Rightarrow> (res, f1\<lparr>fl_regs := (fl_regs f)(addr := reg)\<rparr>)))"

definition worker_client_at :: "string \<Rightarrow> worker_service_client" where
  "worker_client_at addr =
     \<lparr>wc_RegisterWorker = (\<lambda>req. worker_call addr (\<lambda>now reg. RegisterWorker Interval now reg req)),
      wc_Heartbeat = (\<lambda>req. worker_call addr (\<lambda>now reg. Heartbeat now reg req))\<rparr>"

record Loop =
  lp_cfg :: HeartbeatConfig
  lp_targets :: "worker_service_client conn list"

definition Loop_New ::
  "choice \<Rightarrow> (string \<Rightarrow> string + worker_service_client) \<Rightarrow> HeartbeatConfig \<Rightarrow> (string, string) fmap \<Rightarrow> (string \<times> string list) + Loop" where
  "Loop_New ch dial cfg schedulers =
     map_sum (\<lambda>x. x) (\<lambda>ts. \<lparr>lp_cfg = cfg, lp_targets = ts\<rparr>)
       (connect_all ''heartbeat'' ''schedulers configured (IRONWORK_SCHEDULERS)'' ch dial schedulers)"

definition Loop_Close :: "Loop \<Rightarrow> string list" where
  "Loop_Close l = close_all (lp_targets l)"

text \<open>\<open>fanOut\<close>: the answers are only logged.\<close>

definition fanOut :: "nat list \<Rightarrow> (worker_service_client conn \<Rightarrow> fleet \<Rightarrow> bool \<times> fleet) \<Rightarrow> Loop \<Rightarrow> fleet \<Rightarrow> fleet" where
  "fanOut order fn l f = snd (fan_out order fn (lp_targets l) f)"

definition register_round :: "nat list \<Rightarrow> Loop \<Rightarrow> fleet \<Rightarrow> fleet" where
  "register_round order l f =
     fanOut order (\<lambda>t f. case wc_RegisterWorker (cn_client t)
         \<lparr>rw_WorkerId = hc_Instance (lp_cfg l), rw_Capacity = word_of_int (hc_Capacity (lp_cfg l))\<rparr> f of
         (res, f') \<Rightarrow> (\<not> isl res, f')) l f"

definition heartbeat_round :: "nat list \<Rightarrow> Loop \<Rightarrow> int \<Rightarrow> fleet \<Rightarrow> fleet" where
  "heartbeat_round order l inflight f =
     fanOut order (\<lambda>t f. case wc_Heartbeat (cn_client t)
         \<lparr>hb_WorkerId = hc_Instance (lp_cfg l), hb_Capacity = word_of_int (hc_Capacity (lp_cfg l)),
          hb_Inflight = word_of_int inflight\<rparr> f of
         (res, f') \<Rightarrow> (\<not> isl res, f')) l f"

text \<open>\<open>Run\<close>: register, then one round per tick with the load sampled at the tick.\<close>

fun Loop_ticks :: "Loop \<Rightarrow> (nat list \<times> int) list \<Rightarrow> fleet \<Rightarrow> fleet" where
  "Loop_ticks l [] f = f"
| "Loop_ticks l ((order, inflight) # ts) f = Loop_ticks l ts (heartbeat_round order l inflight f)"

definition Loop_Run :: "nat list \<Rightarrow> Loop \<Rightarrow> (nat list \<times> int) list \<Rightarrow> fleet \<Rightarrow> fleet" where
  "Loop_Run order l ticks f = Loop_ticks l ticks (register_round order l f)"

subsection \<open>One round\<close>

text \<open>
  Every target's registry changes at most by its own call, made in one of the environments of the
  round.
\<close>

definition beat :: "(int \<Rightarrow> Registry \<Rightarrow> Registry) \<Rightarrow> beat_env \<Rightarrow> Registry \<Rightarrow> Registry" where
  "beat g e reg = (if be_delivered e then g (be_now e) reg else reg)"

definition acts_at :: "(int \<Rightarrow> Registry \<Rightarrow> Registry) \<Rightarrow> string \<Rightarrow> (fleet \<Rightarrow> 'r \<times> fleet) \<Rightarrow> bool" where
  "acts_at g a h \<longleftrightarrow> (\<forall>f res f'. h f = (res, f') \<longrightarrow> fl_env f' = fl_env f \<and> fl_tick f' = Suc (fl_tick f)
      \<and> fl_regs f' = (fl_regs f)(a := beat g (fl_env f (fl_tick f)) (fl_regs f a)))"

lemma call_each_registries:
  assumes "\<forall>x \<in> set xs. acts_at g (addr (snd x)) (fn (snd x))"
    and "distinct (map (\<lambda>x. addr (snd x)) xs)" "call_each fn xs f = (rs, f')"
  shows "fl_env f' = fl_env f \<and> fl_tick f' = fl_tick f + length xs
    \<and> (\<forall>a. if a \<in> (\<lambda>x. addr (snd x)) ` set xs
           then \<exists>k < length xs. fl_regs f' a = beat g (fl_env f (fl_tick f + k)) (fl_regs f a)
           else fl_regs f' a = fl_regs f a)"
  using assms
proof (induction xs arbitrary: f rs f')
  case (Cons x xs)
  obtain i t where x: "x = (i, t)" by fastforce
  obtain res f1 where c: "fn t f = (res, f1)" by fastforce
  obtain rs' where r: "call_each fn xs f1 = (rs', f')" using Cons.prems(3) x c by (auto split: prod.splits)
  have one: "fl_env f1 = fl_env f" "fl_tick f1 = Suc (fl_tick f)"
    "fl_regs f1 = (fl_regs f)(addr t := beat g (fl_env f (fl_tick f)) (fl_regs f (addr t)))"
    using Cons.prems(1) c x unfolding acts_at_def by auto
  have rest: "fl_env f' = fl_env f1 \<and> fl_tick f' = fl_tick f1 + length xs
    \<and> (\<forall>a. if a \<in> (\<lambda>x. addr (snd x)) ` set xs
           then \<exists>k < length xs. fl_regs f' a = beat g (fl_env f1 (fl_tick f1 + k)) (fl_regs f1 a)
           else fl_regs f' a = fl_regs f1 a)"
    by (rule Cons.IH [OF _ _ r]) (use Cons.prems(1,2) in auto)
  have new: "addr t \<notin> (\<lambda>x. addr (snd x)) ` set xs" using Cons.prems(2) x by auto
  have "if a \<in> (\<lambda>x. addr (snd x)) ` set (x # xs)
        then \<exists>k < length (x # xs). fl_regs f' a = beat g (fl_env f (fl_tick f + k)) (fl_regs f a)
        else fl_regs f' a = fl_regs f a" for a
  proof (cases "a = addr t")
    case True
    then have "fl_regs f' a = beat g (fl_env f (fl_tick f + 0)) (fl_regs f a)" using rest new one(3) by simp
    then show ?thesis using True x by (auto intro!: exI [of _ 0])
  next
    case False
    then have same: "fl_regs f1 a = fl_regs f a" using one(3) by simp
    show ?thesis
    proof (cases "a \<in> (\<lambda>x. addr (snd x)) ` set xs")
      case True
      then obtain k where "k < length xs" "fl_regs f' a = beat g (fl_env f (fl_tick f + Suc k)) (fl_regs f a)"
        using rest same one(1,2) by (metis add_Suc add_Suc_right)
      then show ?thesis using True by (auto intro!: exI [of _ "Suc k"])
    next
      case no: False
      then have "fl_regs f' a = fl_regs f a" using rest same by metis
      then show ?thesis using no False x by simp
    qed
  qed
  moreover have "fl_env f' = fl_env f" "fl_tick f' = fl_tick f + length (x # xs)" using rest one by simp_all
  ultimately show ?case by blast
qed simp

lemma heartbeat_call:
  assumes "wc_Heartbeat (worker_client_at a) \<lparr>hb_WorkerId = i, hb_Capacity = c, hb_Inflight = n\<rparr> f = (res, f')" "i \<noteq> []"
  shows "fl_env f' = fl_env f \<and> fl_tick f' = Suc (fl_tick f)
    \<and> fl_regs f' = (fl_regs f)(a := beat (\<lambda>now reg. Registry_Record now reg i (uint c) (uint n)) (fl_env f (fl_tick f)) (fl_regs f a))"
  using assms by (auto simp: worker_client_at_def worker_call_def Heartbeat_def beat_def Let_def split: if_splits prod.splits)

lemma uint_word_of_int32: "0 \<le> x \<Longrightarrow> x < 2 ^ 32 \<Longrightarrow> uint (word_of_int x :: 32 word) = x"
  by (simp add: uint_word_of_int)

text \<open>The registry of every configured scheduler after one round.\<close>

lemma Loop_New_targets:
  assumes "Loop_New ch (\<lambda>addr. Inr (worker_client_at addr)) cfg schedulers = Inr l"
    and "inj_on (at_or [] schedulers) (fset (fmdom schedulers))"
  shows "lp_cfg l = cfg" "length (lp_targets l) = fcard (fmdom schedulers)"
    "cn_name ` set (lp_targets l) = fset (fmdom schedulers)"
    "t \<in> set (lp_targets l) \<Longrightarrow> cn_client t = worker_client_at (at_or [] schedulers (cn_name t))"
    "distinct (map (\<lambda>t. at_or [] schedulers (cn_name t)) (lp_targets l))"
proof -
  let ?c = "connect_all ''heartbeat'' ''schedulers configured (IRONWORK_SCHEDULERS)'' ch (\<lambda>addr. Inr (worker_client_at addr)) schedulers"
  from assms(1) obtain ts where c: "?c = Inr ts" and l: "l = \<lparr>lp_cfg = cfg, lp_targets = ts\<rparr>"
    unfolding Loop_New_def by (cases ?c) auto
  note ts = connect_all_Inr [OF c]
  show "lp_cfg l = cfg" by (simp add: l)
  show "length (lp_targets l) = fcard (fmdom schedulers)" using arg_cong [OF ts(2), of length] by (simp add: l)
  show names: "cn_name ` set (lp_targets l) = fset (fmdom schedulers)" using ts(4) by (simp add: l)
  show "cn_client t = worker_client_at (at_or [] schedulers (cn_name t))" if "t \<in> set (lp_targets l)"
    using ts(5) that by (metis l Loop.select_convs(2) sum.inject(2))
  have "inj_on (at_or [] schedulers) (set (map cn_name ts))" using assms(2) ts(4) by simp
  moreover have "distinct (map cn_name ts)" using ts(3,4) by (simp add: distinct_map)
  ultimately have "distinct (map (at_or [] schedulers) (map cn_name ts))" by (simp only: distinct_map [of "at_or [] schedulers"] simp_thms)
  then show "distinct (map (\<lambda>t. at_or [] schedulers (cn_name t)) (lp_targets l))" by (simp add: l comp_def)
qed

lemma heartbeat_round_registries:
  fixes f :: fleet and order :: "nat list"
  assumes new: "Loop_New ch (\<lambda>addr. Inr (worker_client_at addr)) cfg schedulers = Inr l"
    and addrs: "inj_on (at_or [] schedulers) (fset (fmdom schedulers))"
    and cfg: "hc_Instance cfg \<noteq> []" "0 \<le> inflight" "inflight < 2 ^ 32" "0 \<le> hc_Capacity cfg" "hc_Capacity cfg < 2 ^ 32"
  defines "f' \<equiv> heartbeat_round order l inflight f"
  shows "fl_env f' = fl_env f"
    "name |\<in>| fmdom schedulers \<Longrightarrow> \<exists>k < fcard (fmdom schedulers). let a = at_or [] schedulers name in
       fl_regs f' a = beat (\<lambda>now reg. Registry_Record now reg (hc_Instance cfg) (hc_Capacity cfg) inflight)
                        (fl_env f (fl_tick f + k)) (fl_regs f a)"
proof -
  note ts = Loop_New_targets [OF new addrs]
  let ?ts = "lp_targets l" and ?xs = "reorder order (enumerate 0 (lp_targets l))"
  let ?a = "\<lambda>t :: worker_service_client conn. at_or [] schedulers (cn_name t)"
  let ?g = "\<lambda>now reg. Registry_Record now reg (hc_Instance cfg) (hc_Capacity cfg) inflight"
  let ?fn = "\<lambda>t f. case wc_Heartbeat (cn_client t) \<lparr>hb_WorkerId = hc_Instance cfg, hb_Capacity = word_of_int (hc_Capacity cfg),
      hb_Inflight = word_of_int inflight\<rparr> f of (res, f') \<Rightarrow> (\<not> isl res, f')"
  obtain rs f2 where r2: "call_each ?fn ?xs f = (rs, f2)" by fastforce
  then have rs: "call_each ?fn ?xs f = (rs, f')" by (simp add: f'_def heartbeat_round_def fanOut_def fan_out_def ts(1))
  have call: "acts_at ?g (?a (snd x)) (?fn (snd x))" if "x \<in> set ?xs" for x
    unfolding acts_at_def
  proof (intro allI impI)
    fix f1 res f2
    let ?t = "snd x"
    assume r: "?fn ?t f1 = (res, f2)"
    have "cn_client ?t = worker_client_at (?a ?t)" using ts(4) that snd_reorder_enumerate [of order 0 ?ts] by blast
    with r obtain q where "wc_Heartbeat (worker_client_at (?a ?t)) \<lparr>hb_WorkerId = hc_Instance cfg,
        hb_Capacity = word_of_int (hc_Capacity cfg), hb_Inflight = word_of_int inflight\<rparr> f1 = (q, f2)" by (auto split: prod.splits)
    from heartbeat_call [OF this cfg(1)]
    show "fl_env f2 = fl_env f1 \<and> fl_tick f2 = Suc (fl_tick f1)
        \<and> fl_regs f2 = (fl_regs f1)(?a ?t := beat ?g (fl_env f1 (fl_tick f1)) (fl_regs f1 (?a ?t)))"
      using cfg by (simp add: uint_word_of_int32)
  qed
  note all = call_each_registries [OF ballI [OF call] distinct_reorder_enumerate [OF ts(5)] rs]
  then show "fl_env f' = fl_env f" by blast
  assume "name |\<in>| fmdom schedulers"
  then obtain t where "t \<in> set ?ts" "cn_name t = name" using ts(3) by (metis (no_types, lifting) imageE)
  then have "at_or [] schedulers name \<in> (\<lambda>x. ?a (snd x)) ` set ?xs"
    using snd_reorder_enumerate [of order 0 ?ts] by (metis (no_types, lifting) image_iff)
  with all ts(2) show "\<exists>k < fcard (fmdom schedulers). let a = at_or [] schedulers name in
       fl_regs f' a = beat ?g (fl_env f (fl_tick f + k)) (fl_regs f a)" by (metis (no_types, lifting) length_enumerate length_reorder)
qed

subsection \<open>Properties\<close>

lemma time_Sub_small: "0 \<le> t - u \<Longrightarrow> t - u < 2 ^ 63 \<Longrightarrow> time_Sub t u = t - u"
  by (simp add: time_Sub_def)

text \<open>What a scheduler with the TTLs of \<open>cmd/scheduler\<close> concludes from one recorded beat.\<close>

lemma recorded_beat_verdicts:
  fixes t :: int and i :: string and c :: int and n :: int
  assumes "wf_registry reg" "reg_staleTTL reg = workerStaleTTL" "reg_deadTTL reg = workerDeadTTL"
  defines "reg' \<equiv> Registry_Record t reg i c n"
  shows "t \<le> now \<Longrightarrow> now \<le> t + 2 * Interval \<Longrightarrow> i \<in> set (Registry_Available ch now reg') \<longleftrightarrow> n < c"
    and "t \<le> now \<Longrightarrow> now < t + 2 ^ 63 \<Longrightarrow> i \<in> set (Registry_Dead ch now reg') \<longleftrightarrow> t + 4 * Interval < now"
proof -
  have wf: "wf_registry reg'" unfolding reg'_def by (rule wf_registry_Record [OF assms(1)])
  have ttl: "reg_staleTTL reg' = workerStaleTTL" "reg_deadTTL reg' = workerDeadTTL"
    using assms(2,3) by (simp_all add: reg'_def Registry_Record_def)
  have look: "fmlookup (reg_workers reg') i = Some \<lparr>w_Instance = i, w_Capacity = c, w_Inflight = n, w_LastSeen = t, w_Alive = False\<rparr>"
    by (simp add: reg'_def Registry_Record_def)
  show "i \<in> set (Registry_Available ch now reg') \<longleftrightarrow> n < c" if "t \<le> now" "now \<le> t + 2 * Interval"
    unfolding Registry_Available_iff [OF wf] look eligible_worker_def
    using that by (simp add: time_Sub_small ttl Interval_def workerStaleTTL_def)
  show "i \<in> set (Registry_Dead ch now reg') \<longleftrightarrow> t + 4 * Interval < now" if "t \<le> now" "now < t + 2 ^ 63"
    unfolding Registry_Dead_iff [OF wf] look
    using that by (auto simp: time_Sub_small ttl Interval_def workerDeadTTL_def)
qed

text \<open>
  C29 One heartbeat round, whatever schedulers are unreachable and in whatever order the calls land:
  a scheduler that was not reached keeps its registry; one that was reached at time \<open>t\<close> holds the
  worker's capacity and load, offers it work (if it has a free slot) at every time up to two intervals
  after \<open>t\<close>, so one missed beat is tolerated, does not presume it dead up to four intervals after
  \<open>t\<close>, and does so after that if no further beat arrives.
\<close>

theorem heartbeat_round_spec:
  fixes f :: fleet and order :: "nat list"
  assumes "Loop_New ch (\<lambda>addr. Inr (worker_client_at addr)) cfg schedulers = Inr l"
    and "inj_on (at_or [] schedulers) (fset (fmdom schedulers))" "name |\<in>| fmdom schedulers"
    and "hc_Instance cfg \<noteq> []" "0 \<le> inflight" "inflight \<le> hc_Capacity cfg" "hc_Capacity cfg < 2 ^ 32"
    and "wf_registry (fl_regs f (at_or [] schedulers name))"
      "reg_staleTTL (fl_regs f (at_or [] schedulers name)) = workerStaleTTL"
      "reg_deadTTL (fl_regs f (at_or [] schedulers name)) = workerDeadTTL"
  defines "reg \<equiv> fl_regs f (at_or [] schedulers name)"
    and "reg' \<equiv> fl_regs (heartbeat_round order l inflight f) (at_or [] schedulers name)"
  shows "\<exists>k < fcard (fmdom schedulers). let e = fl_env f (fl_tick f + k); t = be_now e in
     if \<not> be_delivered e then reg' = reg
     else reg' = Registry_Record t reg (hc_Instance cfg) (hc_Capacity cfg) inflight
        \<and> (\<forall>now ch'. t \<le> now \<longrightarrow> now \<le> t + 2 * Interval \<longrightarrow>
             (hc_Instance cfg \<in> set (Registry_Available ch' now reg') \<longleftrightarrow> inflight < hc_Capacity cfg))
        \<and> (\<forall>now ch'. t \<le> now \<longrightarrow> now < t + 2 ^ 63 \<longrightarrow>
             (hc_Instance cfg \<in> set (Registry_Dead ch' now reg') \<longleftrightarrow> t + 4 * Interval < now))"
proof -
  let ?i = "hc_Instance cfg" and ?c = "hc_Capacity cfg"
  from heartbeat_round_registries(2) [OF assms(1,2), of inflight name order f] assms(3-7)
  obtain k where k: "k < fcard (fmdom schedulers)"
    and r: "reg' = beat (\<lambda>now reg. Registry_Record now reg ?i ?c inflight) (fl_env f (fl_tick f + k)) reg"
    by (auto simp: reg_def reg'_def Let_def)
  let ?e = "fl_env f (fl_tick f + k)"
  let ?t = "be_now ?e"
  have spec: "reg' = Registry_Record ?t reg ?i ?c inflight
      \<and> (\<forall>now ch'. ?t \<le> now \<longrightarrow> now \<le> ?t + 2 * Interval \<longrightarrow> (?i \<in> set (Registry_Available ch' now reg') \<longleftrightarrow> inflight < ?c))
      \<and> (\<forall>now ch'. ?t \<le> now \<longrightarrow> now < ?t + 2 ^ 63 \<longrightarrow> (?i \<in> set (Registry_Dead ch' now reg') \<longleftrightarrow> ?t + 4 * Interval < now))"
    if "be_delivered ?e"
  proof -
    have reg': "reg' = Registry_Record ?t reg ?i ?c inflight" using r that by (simp add: beat_def)
    show ?thesis unfolding reg' using recorded_beat_verdicts [OF assms(8-10), folded reg_def] by blast
  qed
  have nd: "reg' = reg" if "\<not> be_delivered ?e" using r that by (simp add: beat_def)
  show ?thesis
  proof (intro exI [of _ k] conjI k)
    show "let e = ?e; t = be_now e in
     if \<not> be_delivered e then reg' = reg
     else reg' = Registry_Record t reg ?i ?c inflight
        \<and> (\<forall>now ch'. t \<le> now \<longrightarrow> now \<le> t + 2 * Interval \<longrightarrow> (?i \<in> set (Registry_Available ch' now reg') \<longleftrightarrow> inflight < ?c))
        \<and> (\<forall>now ch'. t \<le> now \<longrightarrow> now < t + 2 ^ 63 \<longrightarrow> (?i \<in> set (Registry_Dead ch' now reg') \<longleftrightarrow> t + 4 * Interval < now))"
    proof (cases "be_delivered ?e")
      case True
      show ?thesis unfolding Let_def if_not_P [OF not_not [THEN iffD2, OF True]] by (rule spec [OF True])
    next
      case False
      show ?thesis unfolding Let_def if_P [OF False] by (rule nd [OF False])
    qed
  qed
qed

definition ex_fleet :: fleet where
  "ex_fleet = \<lparr>fl_regs = (\<lambda>_. Registry_New workerStaleTTL workerDeadTTL), fl_env = (\<lambda>_. \<lparr>be_delivered = True, be_now = 100\<rparr>), fl_tick = 0\<rparr>"

definition ex_loop :: "(string \<times> string list) + Loop" where
  "ex_loop = Loop_New (\<lambda>_. []) (\<lambda>addr. Inr (worker_client_at addr)) \<lparr>hc_Instance = ''worker-1'', hc_Capacity = 4\<rparr> (fmupd ''s1'' ''a'' fmempty)"

theorem heartbeat_round_spec_witness:
  "\<exists>l. ex_loop = Inr l \<and> fl_regs (heartbeat_round [] l 1 ex_fleet) ''a''
     = Registry_Record 100 (Registry_New workerStaleTTL workerDeadTTL) ''worker-1'' 4 1
     \<and> ''worker-1'' \<in> set (Registry_Available (\<lambda>_. []) 200 (fl_regs (heartbeat_round [] l 1 ex_fleet) ''a''))"
proof -
  have "\<not> isl ex_loop" by code_simp
  then obtain l where l: "ex_loop = Inr l" by (metis sum.collapse(2))
  have ex: "fl_regs ex_fleet = (\<lambda>_. Registry_New workerStaleTTL workerDeadTTL)" "fl_env ex_fleet = (\<lambda>_. \<lparr>be_delivered = True, be_now = 100\<rparr>)"
    by (simp_all add: ex_fleet_def)
  have ttl: "reg_staleTTL (Registry_New s d) = s" "reg_deadTTL (Registry_New s d) = d" for s d by (simp_all add: Registry_New_def)
  from heartbeat_round_spec [OF l [unfolded ex_loop_def], of "''s1''" 1 ex_fleet "[]"]
  have "fl_regs (heartbeat_round [] l 1 ex_fleet) ''a'' = Registry_Record 100 (Registry_New workerStaleTTL workerDeadTTL) ''worker-1'' 4 1
     \<and> (\<forall>now ch'. 100 \<le> now \<longrightarrow> now \<le> 100 + 2 * Interval \<longrightarrow>
          ''worker-1'' \<in> set (Registry_Available ch' now (fl_regs (heartbeat_round [] l 1 ex_fleet) ''a'')))"
    by (simp add: ex ttl wf_registry_New at_or_def Let_def) metis
  then show ?thesis using l by (auto simp: Interval_def)
qed

end
