(* ===== verification/LeaderClient.thy ===== *)
theory LeaderClient
  imports SchedulerSvc Clients "HOL-Library.Signed_Division"
begin

section \<open>Routing to the leader (internal/leaderclient)\<close>

text \<open>
  The gateway's client of the scheduler set (\<open>src/internal/leaderclient/leaderclient.go\<close>).  A member's
  job client is a record of the four calls over the state \<open>'w\<close> of the surroundings; the context is the
  predicate \<open>expired\<close> that says whether it is done when a pause between rounds ends.  An error with no
  member asked is \<open>Inl None\<close> (a nil error): \<open>New\<close> rules it out.  \<open>leader\<close> is the cached index; its two
  accesses are atomic and the only shared state of concurrent calls.

  Shown: the two nested loops with their pauses are one walk over a flat schedule of at most three
  rounds, starting at the cached leader, that stops at the first definitive answer
  (\<open>route_spec\<close>); the status fan-out reports every member, by name.
\<close>

definition retryRounds :: nat where "retryRounds = 3"

record 'w job_client =
  jc_SubmitJob :: "SubmitJobRequest \<Rightarrow> 'w \<Rightarrow> PJob rpc \<times> 'w"
  jc_GetJob :: "string \<Rightarrow> 'w \<Rightarrow> PJob rpc \<times> 'w"
  jc_ListJobs :: "ListJobsRequest \<Rightarrow> 'w \<Rightarrow> PJob list rpc \<times> 'w"
  jc_GetOutboxStats :: "'w \<Rightarrow> GetOutboxStatsResponse rpc \<times> 'w"

record 'w scheduler_client =
  sc_jobs :: "'w job_client"
  sc_states :: "'w \<Rightarrow> ClusterState option rpc \<times> 'w"

record 'w Router =
  rt_members :: "'w scheduler_client conn list"
  rt_leader :: int

definition Router_New ::
  "choice \<Rightarrow> (string \<Rightarrow> string + 'w scheduler_client) \<Rightarrow> (string, string) fmap \<Rightarrow> (string \<times> string list) + 'w Router" where
  "Router_New ch dial schedulers =
     map_sum (\<lambda>x. x) (\<lambda>ms. \<lparr>rt_members = ms, rt_leader = 0\<rparr>)
       (connect_all ''leaderclient'' ''schedulers configured (IRONWORK_SCHEDULERS)'' ch dial schedulers)"

definition Router_Close :: "'w Router \<Rightarrow> string list" where
  "Router_Close r = close_all (rt_members r)"

definition retryable :: "rpc_error \<Rightarrow> bool" where
  "retryable e \<longleftrightarrow> (case err_code e of FailedPrecondition \<Rightarrow> True | Unavailable \<Rightarrow> True | DeadlineExceeded \<Rightarrow> True | _ \<Rightarrow> False)"

text \<open>The inner loop: \<open>Inr\<close> when the function returned inside it, \<open>Inl\<close> with the last error otherwise.\<close>

type_synonym ('a, 'w) routed = "(rpc_error option + 'a) \<times> 'w Router \<times> 'w"

fun ask_round ::
  "('w job_client \<Rightarrow> 'w \<Rightarrow> 'a rpc \<times> 'w) \<Rightarrow> 'w Router \<Rightarrow> int \<Rightarrow> nat list \<Rightarrow> rpc_error option \<Rightarrow> 'w
     \<Rightarrow> rpc_error option \<times> 'w + ('a, 'w) routed" where
  "ask_round fn r start [] lastErr w = Inl (lastErr, w)"
| "ask_round fn r start (i # is) lastErr w =
     (let idx = (start + int i) smod int (length (rt_members r)) in
      case fn (sc_jobs (cn_client (rt_members r ! nat idx))) w of
        (Inr out, w') \<Rightarrow> Inr (Inr out, r\<lparr>rt_leader := idx\<rparr>, w')
      | (Inl e, w') \<Rightarrow> if \<not> retryable e then Inr (Inl (Some e), r, w') else ask_round fn r start is (Some e) w')"

text \<open>The outer loop, with \<open>k\<close> rounds to go.\<close>

fun route_rounds ::
  "('w job_client \<Rightarrow> 'w \<Rightarrow> 'a rpc \<times> 'w) \<Rightarrow> ('w \<Rightarrow> bool) \<Rightarrow> 'w Router \<Rightarrow> int \<Rightarrow> nat \<Rightarrow> rpc_error option \<Rightarrow> 'w \<Rightarrow> ('a, 'w) routed" where
  "route_rounds fn expired r start 0 lastErr w = (Inl lastErr, r, w)"
| "route_rounds fn expired r start (Suc k) lastErr w =
     (case ask_round fn r start [0..<length (rt_members r)] lastErr w of
        Inr answer \<Rightarrow> answer
      | Inl (lastErr', w') \<Rightarrow>
          if 0 < k \<and> expired w' then (Inl lastErr', r, w')
          else route_rounds fn expired r start k lastErr' w')"

definition route :: "('w job_client \<Rightarrow> 'w \<Rightarrow> 'a rpc \<times> 'w) \<Rightarrow> ('w \<Rightarrow> bool) \<Rightarrow> 'w Router \<Rightarrow> 'w \<Rightarrow> ('a, 'w) routed" where
  "route fn expired r w = route_rounds fn expired r (rt_leader r) retryRounds None w"

definition Router_SubmitJob :: "('w \<Rightarrow> bool) \<Rightarrow> 'w Router \<Rightarrow> SubmitJobRequest \<Rightarrow> 'w \<Rightarrow> (PJob, 'w) routed" where
  "Router_SubmitJob expired r req w = route (\<lambda>c. jc_SubmitJob c req) expired r w"

definition Router_GetJob :: "('w \<Rightarrow> bool) \<Rightarrow> 'w Router \<Rightarrow> string \<Rightarrow> 'w \<Rightarrow> (PJob, 'w) routed" where
  "Router_GetJob expired r i w = route (\<lambda>c. jc_GetJob c i) expired r w"

definition Router_ListJobs :: "('w \<Rightarrow> bool) \<Rightarrow> 'w Router \<Rightarrow> ListJobsRequest \<Rightarrow> 'w \<Rightarrow> (PJob list, 'w) routed" where
  "Router_ListJobs expired r req w = route (\<lambda>c. jc_ListJobs c req) expired r w"

definition Router_GetOutboxStats :: "('w \<Rightarrow> bool) \<Rightarrow> 'w Router \<Rightarrow> 'w \<Rightarrow> (GetOutboxStatsResponse, 'w) routed" where
  "Router_GetOutboxStats expired r w = route jc_GetOutboxStats expired r w"

subsection \<open>The status fan-out\<close>

record PlacementView =
  pv_JobID :: string
  pv_Worker :: string
  pv_At :: int

record WorkerView =
  wv_Instance :: string
  wv_Alive :: bool
  wv_SecondsSinceHeartbeat :: seconds
  wv_Capacity :: "32 word"
  wv_Inflight :: "32 word"

record NodeStatus =
  ns_Name :: string
  ns_Reachable :: bool
  ns_Error :: string
  ns_State :: string
  ns_LeaderID :: string
  ns_Term :: nat
  ns_LastLogIndex :: nat
  ns_AppliedIndex :: nat
  ns_Placements :: "PlacementView list"
  ns_Workers :: "WorkerView list"

text \<open>The getters of an absent message give zero values.\<close>

definition zero_raft :: RaftStatus where
  "zero_raft = \<lparr>rs_State = [], rs_LeaderId = [], rs_Term = 0, rs_LastLogIndex = 0, rs_AppliedIndex = 0, rs_Peers = [],
     rs_RecentPlacements = []\<rparr>"

definition GetRaft :: "ClusterState option \<Rightarrow> RaftStatus" where
  "GetRaft s = (case s of None \<Rightarrow> zero_raft | Some cs \<Rightarrow> (case cs_Raft cs of None \<Rightarrow> zero_raft | Some rs \<Rightarrow> rs))"

definition node_status :: "string \<Rightarrow> ClusterState option rpc \<Rightarrow> NodeStatus" where
  "node_status name resp =
     (case resp of
        Inl e \<Rightarrow> \<lparr>ns_Name = name, ns_Reachable = False, ns_Error = err_msg e, ns_State = [], ns_LeaderID = [], ns_Term = 0,
                 ns_LastLogIndex = 0, ns_AppliedIndex = 0, ns_Placements = [], ns_Workers = []\<rparr>
      | Inr st \<Rightarrow>
          (let raft = GetRaft st in
           \<lparr>ns_Name = name, ns_Reachable = True, ns_Error = [], ns_State = rs_State raft, ns_LeaderID = rs_LeaderId raft,
            ns_Term = rs_Term raft, ns_LastLogIndex = rs_LastLogIndex raft, ns_AppliedIndex = rs_AppliedIndex raft,
            ns_Placements = map (\<lambda>p. \<lparr>pv_JobID = pr_JobId p, pv_Worker = pr_Worker p, pv_At = AsTime (pr_At p)\<rparr>) (rs_RecentPlacements raft),
            ns_Workers = map (\<lambda>w. \<lparr>wv_Instance = ws_Instance w, wv_Alive = ws_Alive w,
              wv_SecondsSinceHeartbeat = ws_SecondsSinceHeartbeat w, wv_Capacity = ws_Capacity w, wv_Inflight = ws_Inflight w\<rparr>)
                (case st of None \<Rightarrow> [] | Some cs \<Rightarrow> cs_Workers cs)\<rparr>))"

definition Router_RaftStatus :: "nat list \<Rightarrow> 'w Router \<Rightarrow> 'w \<Rightarrow> NodeStatus list \<times> 'w" where
  "Router_RaftStatus order r w =
     fan_out order (\<lambda>m w. case sc_states (cn_client m) w of (resp, w') \<Rightarrow> (node_status (cn_name m) resp, w')) (rt_members r) w"

subsection \<open>The reference: one walk over a schedule\<close>

definition definitive :: "'a rpc \<Rightarrow> bool" where
  "definitive res \<longleftrightarrow> (case res of Inr _ \<Rightarrow> True | Inl e \<Rightarrow> \<not> retryable e)"

fun walk :: "('w job_client \<Rightarrow> 'w \<Rightarrow> 'a rpc \<times> 'w) \<Rightarrow> 'w scheduler_client conn list \<Rightarrow> nat list \<Rightarrow> 'w \<Rightarrow> (nat \<times> 'a rpc) list \<times> 'w" where
  "walk fn ms [] w = ([], w)"
| "walk fn ms (i # is) w =
     (case fn (sc_jobs (cn_client (ms ! i))) w of
        (res, w') \<Rightarrow>
          if definitive res then ([(i, res)], w')
          else (case walk fn ms is w' of (tr, w'') \<Rightarrow> ((i, res) # tr, w'')))"

definition one_round :: "nat \<Rightarrow> nat \<Rightarrow> nat list" where
  "one_round n start = map (\<lambda>i. (start + i) mod n) [0..<n]"

definition schedule :: "nat \<Rightarrow> nat \<Rightarrow> nat \<Rightarrow> nat list" where
  "schedule n start k = concat (replicate k (one_round n start))"

definition verdict :: "(nat \<times> 'a rpc) list \<Rightarrow> rpc_error option + 'a" where
  "verdict tr = (if tr = [] then Inl None else case snd (last tr) of Inl e \<Rightarrow> Inl (Some e) | Inr x \<Rightarrow> Inr x)"

definition ended :: "(nat \<times> 'a rpc) list \<Rightarrow> bool" where
  "ended tr \<longleftrightarrow> tr \<noteq> [] \<and> definitive (snd (last tr))"

definition cached :: "(nat \<times> 'a rpc) list \<Rightarrow> 'w Router \<Rightarrow> 'w Router" where
  "cached tr r = (if tr \<noteq> [] \<and> \<not> isl (snd (last tr)) then r\<lparr>rt_leader := int (fst (last tr))\<rparr> else r)"

definition wf_router :: "'w Router \<Rightarrow> bool" where
  "wf_router r \<longleftrightarrow> rt_members r \<noteq> [] \<and> 0 \<le> rt_leader r \<and> rt_leader r < int (length (rt_members r))"

lemma wf_Router_New:
  assumes "Router_New ch dial schedulers = Inr r"
  shows "wf_router r" "sorted (map cn_name (rt_members r))" "distinct (map cn_name (rt_members r))"
    "set (map cn_name (rt_members r)) = fset (fmdom schedulers)"
    "\<forall>m \<in> set (rt_members r). dial (at_or [] schedulers (cn_name m)) = Inr (cn_client m)"
proof -
  from assms obtain ms where c: "connect_all ''leaderclient'' ''schedulers configured (IRONWORK_SCHEDULERS)'' ch dial schedulers = Inr ms"
    and r: "r = \<lparr>rt_members = ms, rt_leader = 0\<rparr>"
    unfolding Router_New_def by (cases "connect_all ''leaderclient'' ''schedulers configured (IRONWORK_SCHEDULERS)'' ch dial schedulers") auto
  note ms = connect_all_Inr [OF c]
  show "wf_router r" using ms(1) by (simp add: wf_router_def r)
  show "sorted (map cn_name (rt_members r))" using ms(2) by (simp add: r)
  show "distinct (map cn_name (rt_members r))" "set (map cn_name (rt_members r)) = fset (fmdom schedulers)"
    "\<forall>m \<in> set (rt_members r). dial (at_or [] schedulers (cn_name m)) = Inr (cn_client m)"
    using ms(3-5) by (simp_all add: r)
qed

lemma smod_nonneg: "0 \<le> a \<Longrightarrow> 0 < b \<Longrightarrow> a smod b = a mod (b :: int)"
  by (simp add: signed_modulo_int_def sgn_if)

lemma walk_append:
  "walk fn ms (xs @ ys) w =
     (case walk fn ms xs w of
        (tr, w') \<Rightarrow> if ended tr then (tr, w') else (case walk fn ms ys w' of (tr', w'') \<Rightarrow> (tr @ tr', w'')))"
proof (induction xs arbitrary: w)
  case Nil
  then show ?case by (simp add: ended_def split: prod.splits)
next
  case (Cons i xs)
  obtain res w1 where f: "fn (sc_jobs (cn_client (ms ! i))) w = (res, w1)" by fastforce
  obtain tr w2 where t: "walk fn ms xs w1 = (tr, w2)" by fastforce
  show ?case
  proof (cases "definitive res")
    case True
    then show ?thesis using f by (simp add: ended_def)
  next
    case False
    then have "ended ((i, res) # tr) = ended tr" by (simp add: ended_def)
    then show ?thesis using f t False Cons.IH [of w1] by (auto split: prod.splits)
  qed
qed

lemma walk_length: "walk fn ms xs w = (tr, w') \<Longrightarrow> map fst tr = take (length tr) xs \<and> length tr \<le> length xs"
  by (induction xs arbitrary: w tr w') (fastforce split: prod.splits if_splits)+

lemma walk_nonempty: "walk fn ms xs w = (tr, w') \<Longrightarrow> xs \<noteq> [] \<Longrightarrow> tr \<noteq> []"
  by (cases xs) (auto split: prod.splits if_splits)

lemma walk_butlast: "walk fn ms xs w = (tr, w') \<Longrightarrow> \<forall>x \<in> set (butlast tr). \<not> definitive (snd x)"
proof (induction xs arbitrary: w tr w')
  case (Cons i xs)
  then show ?case by (fastforce split: prod.splits if_splits)
qed simp

lemma walk_not_ended: "walk fn ms xs w = (tr, w') \<Longrightarrow> \<not> ended tr \<Longrightarrow> length tr = length xs"
proof (induction xs arbitrary: w tr w')
  case (Cons i xs)
  obtain res w1 where f: "fn (sc_jobs (cn_client (ms ! i))) w = (res, w1)" by fastforce
  obtain tr' w2 where t: "walk fn ms xs w1 = (tr', w2)" by fastforce
  show ?case
  proof (cases "definitive res")
    case True
    then show ?thesis using Cons.prems f by (auto simp: ended_def)
  next
    case False
    then have tr: "tr = (i, res) # tr'" using Cons.prems f t by auto
    then have "\<not> ended tr'" using Cons.prems by (auto simp: ended_def split: if_splits)
    then show ?thesis using Cons.IH [OF t] tr by simp
  qed
qed (auto simp: ended_def)

lemma ask_round_walk:
  assumes "0 \<le> start" "rt_members r \<noteq> []"
    and "walk fn (rt_members r) (map (\<lambda>i. (nat start + i) mod length (rt_members r)) is) w = (tr, w')"
  shows "ask_round fn r start is lastErr w =
    (if ended tr then Inr (verdict tr, cached tr r, w')
     else Inl (if tr = [] then lastErr else (case snd (last tr) of Inl e \<Rightarrow> Some e | Inr _ \<Rightarrow> None), w'))"
  using assms(3)
proof (induction "is" arbitrary: w lastErr tr w')
  case Nil
  then show ?case by (simp add: ended_def)
next
  case (Cons i "is")
  let ?n = "length (rt_members r)" and ?j = "(nat start + i) mod length (rt_members r)"
  have n: "0 < ?n" using assms(2) by simp
  have idx: "(start + int i) smod int ?n = int ?j"
    using assms(1) n by (simp add: smod_nonneg zmod_int)
  obtain res w1 where f: "fn (sc_jobs (cn_client (rt_members r ! ?j))) w = (res, w1)" by fastforce
  show ?case
  proof (cases res)
    case (Inr out)
    then have tr: "tr = [(?j, res)]" "w' = w1" using Cons.prems f by (simp_all add: definitive_def)
    show ?thesis unfolding tr using f Inr by (simp add: idx ended_def definitive_def verdict_def cached_def)
  next
    case (Inl e)
    show ?thesis
    proof (cases "retryable e")
      case False
      then have tr: "tr = [(?j, res)]" "w' = w1" using Cons.prems f Inl by (simp_all add: definitive_def)
      show ?thesis unfolding tr using f Inl False by (simp add: idx ended_def definitive_def verdict_def cached_def)
    next
      case True
      then obtain tr' where t: "walk fn (rt_members r) (map (\<lambda>i. (nat start + i) mod ?n) is) w1 = (tr', w')" "tr = (?j, res) # tr'"
        using Cons.prems f Inl by (auto simp: definitive_def split: prod.splits)
      have "ended tr = ended tr'" "ended tr' \<Longrightarrow> verdict tr = verdict tr'" "ended tr' \<Longrightarrow> cached tr r = cached tr' r"
        using True Inl t(2) by (auto simp: ended_def definitive_def verdict_def cached_def)
      then show ?thesis using Cons.IH [OF t(1), of "Some e"] f Inl True t(2) by (simp add: idx)
    qed
  qed
qed

lemma route_rounds_walk:
  assumes "wf_router r" "start = rt_leader r" "0 < k"
  defines "sched \<equiv> schedule (length (rt_members r)) (nat start)"
  shows "\<exists>j tr w'. 1 \<le> j \<and> j \<le> k \<and> ((\<forall>w. \<not> expired w) \<longrightarrow> j = k) \<and> walk fn (rt_members r) (sched j) w = (tr, w')
           \<and> route_rounds fn expired r start k lastErr w = (verdict tr, cached tr r, w')"
  using assms(3)
proof (induction k arbitrary: lastErr w)
  case (Suc k)
  let ?n = "length (rt_members r)"
  have st: "0 \<le> start" "rt_members r \<noteq> []" using assms(1,2) by (simp_all add: wf_router_def)
  obtain tr w' where t: "walk fn (rt_members r) (one_round ?n (nat start)) w = (tr, w')" by fastforce
  note a = ask_round_walk [OF st t [unfolded one_round_def], of lastErr]
  have tr: "tr \<noteq> []" using walk_nonempty [OF t] st by (simp add: one_round_def)
  have s1: "sched (Suc j) = one_round ?n (nat start) @ sched j" "sched 1 = one_round ?n (nat start)" for j
    by (simp_all add: sched_def schedule_def)
  have last: "\<not> ended tr \<Longrightarrow> \<exists>e. snd (last tr) = Inl e \<and> verdict tr = Inl (Some e) \<and> cached tr r = r"
    using tr by (cases "snd (last tr)") (auto simp: ended_def definitive_def verdict_def cached_def)
  consider "ended tr" | "\<not> ended tr" "0 < k \<and> expired w'" | "\<not> ended tr" "k = 0" | "\<not> ended tr" "0 < k" "\<not> expired w'" by blast
  then show ?case
  proof cases
    case 1
    have w: "walk fn (rt_members r) (sched (Suc k)) w = (tr, w')" using 1 t by (simp add: s1 walk_append)
    show ?thesis using 1 a w by (intro exI [of _ "Suc k"] exI [of _ tr] exI [of _ w']) simp
  next
    case 2
    then show ?thesis using a t tr last s1(2) by (intro exI [of _ 1] exI [of _ tr] exI [of _ w']) auto
  next
    case 3
    then show ?thesis using a t tr last s1(2) by (intro exI [of _ 1] exI [of _ tr] exI [of _ w']) auto
  next
    case 4
    from last [OF 4(1)] obtain e where e: "snd (last tr) = Inl e" by blast
    from Suc.IH [OF 4(2), of w' "Some e"] obtain j tr' w'' where j: "1 \<le> j" "j \<le> k" "(\<forall>w. \<not> expired w) \<longrightarrow> j = k"
      "walk fn (rt_members r) (sched j) w' = (tr', w'')"
      "route_rounds fn expired r start k (Some e) w' = (verdict tr', cached tr' r, w'')" by blast
    have "sched j \<noteq> []" using j(1) st by (cases j) (simp_all add: sched_def schedule_def one_round_def)
    then have tr': "tr' \<noteq> []" using walk_nonempty [OF j(4)] by blast
    have "walk fn (rt_members r) (sched (Suc j)) w = (tr @ tr', w'')" using 4 t j(4) by (simp add: s1 walk_append)
    moreover have "verdict (tr @ tr') = verdict tr'" "cached (tr @ tr') r = cached tr' r"
      using tr' by (simp_all add: verdict_def cached_def)
    ultimately show ?thesis using a 4 tr e j
      by (intro exI [of _ "Suc j"] exI [of _ "tr @ tr'"] exI [of _ w'']) simp
  qed
qed simp

subsection \<open>Properties\<close>

text \<open>
  C25 Routing is a walk: the members are asked one after the other, beginning at the cached leader
  and wrapping around, for at most three rounds (exactly three unless the context ends in a pause or
  somebody answers).  It stops at the first definitive answer; every earlier answer was a refusal
  that means "try another scheduler".  The result is the last answer, never an empty one; the cached
  leader becomes the member that answered, and stays as it is on an error.
\<close>

theorem route_spec:
  assumes "wf_router r" "route fn expired r w = (res, r', w')"
  defines "n \<equiv> length (rt_members r)"
  shows "\<exists>k tr. 1 \<le> k \<and> k \<le> 3 \<and> ((\<forall>w. \<not> expired w) \<longrightarrow> k = 3)
    \<and> walk fn (rt_members r) (schedule n (nat (rt_leader r)) k) w = (tr, w')
    \<and> tr \<noteq> [] \<and> length tr \<le> 3 * n \<and> map fst tr = take (length tr) (schedule n (nat (rt_leader r)) k)
    \<and> (\<forall>x \<in> set (butlast tr). \<exists>e. snd x = Inl e \<and> retryable e)
    \<and> (definitive (snd (last tr)) \<or> length tr = k * n)
    \<and> (case snd (last tr) of
         Inr out \<Rightarrow> res = Inr out \<and> r' = r\<lparr>rt_leader := int (fst (last tr))\<rparr>
       | Inl e \<Rightarrow> res = Inl (Some e) \<and> r' = r)
    \<and> wf_router r'"
proof -
  have len: "length (schedule n s k) = k * n" for s k by (induction k) (simp_all add: schedule_def one_round_def)
  from route_rounds_walk [OF assms(1) refl, of retryRounds expired fn w None]
  obtain k tr where k: "1 \<le> k" "k \<le> 3" "(\<forall>w. \<not> expired w) \<longrightarrow> k = 3"
    and t: "walk fn (rt_members r) (schedule n (nat (rt_leader r)) k) w = (tr, w')"
    and res: "res = verdict tr" "r' = cached tr r"
    using assms(2) by (auto simp: route_def retryRounds_def n_def)
  have n: "0 < n" using assms(1) by (simp add: wf_router_def n_def)
  have "schedule n (nat (rt_leader r)) k \<noteq> []" using len [of "nat (rt_leader r)" k] k n by (metis list.size(3) mult_is_0 not_one_le_zero neq0_conv)
  then have tr: "tr \<noteq> []" using walk_nonempty [OF t] by blast
  note l = walk_length [OF t]
  have "length tr \<le> k * n" using l len by simp
  also have "\<dots> \<le> 3 * n" using k by simp
  finally have l3: "length tr \<le> 3 * n" .
  have last: "case snd (last tr) of Inr out \<Rightarrow> res = Inr out \<and> r' = r\<lparr>rt_leader := int (fst (last tr))\<rparr>
       | Inl e \<Rightarrow> res = Inl (Some e) \<and> r' = r"
    using tr res by (auto simp: verdict_def cached_def split: sum.splits)
  have "fst (last tr) \<in> set (map fst tr)" using tr by simp
  also have "\<dots> \<subseteq> set (schedule n (nat (rt_leader r)) k)" using l by (metis set_take_subset)
  finally have "fst (last tr) < n" using n by (auto simp: schedule_def one_round_def split: if_splits)
  then have wf: "wf_router r'" using assms(1) res(2) by (simp add: wf_router_def cached_def n_def)
  have "definitive (snd (last tr)) \<or> length tr = k * n" using walk_not_ended [OF t] tr len by (auto simp: ended_def)
  moreover have "\<forall>x \<in> set (butlast tr). \<exists>e. snd x = Inl e \<and> retryable e"
  proof
    fix x assume "x \<in> set (butlast tr)"
    then have "\<not> definitive (snd x)" using walk_butlast [OF t] by blast
    then show "\<exists>e. snd x = Inl e \<and> retryable e" by (cases "snd x") (auto simp: definitive_def)
  qed
  ultimately show ?thesis using k t tr l l3 last wf by blast
qed

definition ex_sched :: "string \<Rightarrow> rpc_error option \<Rightarrow> string list scheduler_client conn" where
  "ex_sched n e = \<lparr>cn_name = n, cn_client = \<lparr>sc_jobs =
      \<lparr>jc_SubmitJob = (\<lambda>_ w. (Inl (RpcError Internal []), w)), jc_GetJob = (\<lambda>_ w. (Inl (RpcError Internal []), w)),
       jc_ListJobs = (\<lambda>_ w. (case e of None \<Rightarrow> Inr [] | Some x \<Rightarrow> Inl x, w @ [n])),
       jc_GetOutboxStats = (\<lambda>w. (Inl (RpcError Internal []), w))\<rparr>,
      sc_states = (\<lambda>w. (Inl (RpcError Unavailable []), w))\<rparr>, cn_close = None\<rparr>"

definition ex_router :: "string list Router" where
  "ex_router = \<lparr>rt_members = [ex_sched ''s1'' (Some (RpcError FailedPrecondition [])), ex_sched ''s2'' None,
      ex_sched ''s3'' (Some (RpcError Unavailable []))], rt_leader = 2\<rparr>"

theorem route_spec_witness:
  "wf_router ex_router
   \<and> (\<exists>res r' w'. route (\<lambda>c. jc_ListJobs c \<lparr>lr_StatusFilter = JOB_STATUS_UNSPECIFIED, lr_PageSize = 0\<rparr>) (\<lambda>_. False) ex_router [] = (res, r', w')
        \<and> wf_router r' \<and> w' = [''s3'', ''s1'', ''s2''] \<and> rt_leader r' = 1)"
proof -
  let ?fn = "\<lambda>c. jc_ListJobs c \<lparr>lr_StatusFilter = JOB_STATUS_UNSPECIFIED, lr_PageSize = 0\<rparr>"
  obtain res r' w' where c: "route ?fn (\<lambda>_. False) ex_router [] = (res, r', w')" by (cases "route ?fn (\<lambda>_. False) ex_router []") auto
  have wf: "wf_router ex_router" by (simp add: wf_router_def ex_router_def)
  from route_spec [OF wf c] have "wf_router r'" by blast
  moreover have "(case route ?fn (\<lambda>_. False) ex_router [] of (_, r', w') \<Rightarrow> (rt_leader r', w')) = (1, [''s3'', ''s1'', ''s2''])"
    by code_simp
  ultimately show ?thesis using wf c by auto
qed

end
