(* ===== verification/Submission.thy ===== *)
theory Submission
  imports LeaderClient Relay
begin

section \<open>Submitting a job through the gateway's router\<close>

text \<open>
  The router of the gateway in front of the schedulers, which share one database
  (\<open>src/cmd/gateway/main.go\<close>, \<open>src/cmd/scheduler/main.go\<close>).  Schedulers are named by address.  What the
  outside contributes is a sequence of environments, one per RPC, consumed in order: whether the
  request arrives and the answer comes back, which schedulers believe to lead at that moment, and how
  the store answers.

  Shown: one routed submission creates at most one job more than it lost answers, each with its
  dispatch command, and returns the last one created (\<open>routed_submit_safe\<close>); when nobody loses an
  answer and a leader is there by the third round, it succeeds with exactly one job
  (\<open>routed_submit_succeeds\<close>); and a lost answer can make two jobs of one request
  (\<open>routed_submit_twice\<close>).
\<close>

datatype call = Answered | Undelivered rpc_error | AnswerLost rpc_error

record call_env =
  ce_pg :: pg
  ce_call :: call
  ce_leader :: "string \<Rightarrow> bool"
  ce_leaderID :: string

record sched_cluster =
  cl_db :: db
  cl_wake :: "string \<Rightarrow> bool"
  cl_env :: "nat \<Rightarrow> call_env"
  cl_tick :: nat

definition call_env_of :: "sched_cluster \<Rightarrow> call_env" where
  "call_env_of c = cl_env c (cl_tick c)"

definition next_call :: "sched_cluster \<Rightarrow> sched_cluster" where
  "next_call c = c\<lparr>cl_tick := Suc (cl_tick c)\<rparr>"

text \<open>\<open>schedulersvc.New(st, node, relay, log)\<close> of the scheduler at an address.\<close>

definition scheduler_jobs :: "string \<Rightarrow> sched_cluster job_deps" where
  "scheduler_jobs addr =
     \<lparr>jd_CreateJobWithOutbox = (\<lambda>name payload c. case CreateJobWithOutbox (ce_pg (call_env_of c)) (cl_db c) name payload of
          (res, d) \<Rightarrow> (res, c\<lparr>cl_db := d\<rparr>)),
      jd_GetJob = (\<lambda>i c. (GetJob (ce_pg (call_env_of c)) (cl_db c) i, c)),
      jd_ListJobs = (\<lambda>status limit c. (ListJobs (ce_pg (call_env_of c)) (cl_db c) status limit, c)),
      jd_OutboxStats = (\<lambda>c. (OutboxStats (ce_pg (call_env_of c)) (cl_db c), c)),
      jd_IsLeader = (\<lambda>c. (ce_leader (call_env_of c) addr, c)),
      jd_LeaderID = (\<lambda>c. (ce_leaderID (call_env_of c), c)),
      jd_Wake = (\<lambda>c. c\<lparr>cl_wake := (cl_wake c)(addr := Relay_Wake (cl_wake c addr))\<rparr>)\<rparr>"

text \<open>One RPC of a handler.\<close>

definition rpc_call :: "(sched_cluster \<Rightarrow> 'a rpc \<times> sched_cluster) \<Rightarrow> sched_cluster \<Rightarrow> 'a rpc \<times> sched_cluster" where
  "rpc_call h c =
     (case ce_call (call_env_of c) of
        Undelivered e \<Rightarrow> (Inl e, next_call c)
      | AnswerLost e \<Rightarrow> (Inl e, next_call (snd (h c)))
      | Answered \<Rightarrow> (fst (h c), next_call (snd (h c))))"

definition scheduler_client_at :: "(string \<Rightarrow> bool) \<Rightarrow> (sched_cluster \<Rightarrow> ClusterState option rpc \<times> sched_cluster) \<Rightarrow> string \<Rightarrow> sched_cluster scheduler_client" where
  "scheduler_client_at uuid_Parse states addr =
     \<lparr>sc_jobs = \<lparr>jc_SubmitJob = (\<lambda>req. rpc_call (SubmitJob (scheduler_jobs addr) req)),
                 jc_GetJob = (\<lambda>i. rpc_call (JobServer_GetJob uuid_Parse (scheduler_jobs addr) i)),
                 jc_ListJobs = (\<lambda>req. rpc_call (JobServer_ListJobs (\<lambda>_. []) (scheduler_jobs addr) req)),
                 jc_GetOutboxStats = rpc_call (GetOutboxStats (scheduler_jobs addr))\<rparr>,
      sc_states = states\<rparr>"

text \<open>\<open>leaderclient.New(cfg.Schedulers, ...)\<close> of the gateway.\<close>

definition gateway_router ::
  "choice \<Rightarrow> (string \<Rightarrow> bool) \<Rightarrow> (sched_cluster \<Rightarrow> ClusterState option rpc \<times> sched_cluster) \<Rightarrow> (string, string) fmap
     \<Rightarrow> (string \<times> string list) + sched_cluster Router" where
  "gateway_router ch uuid_Parse states schedulers = Router_New ch (\<lambda>addr. Inr (scheduler_client_at uuid_Parse states addr)) schedulers"

subsection \<open>The laws of the shared store\<close>

text \<open>From call \<open>k\<close> on, ids are new, differ between calls and are their own canonical text.\<close>

definition fresh_from :: "nat \<Rightarrow> sched_cluster \<Rightarrow> bool" where
  "fresh_from k c \<longleftrightarrow> wf_db (cl_db c) \<and> (\<forall>n \<ge> k. pg_ok (ce_pg (cl_env c n)) (cl_db c))
     \<and> (\<forall>n m. k \<le> n \<longrightarrow> n < m \<longrightarrow> range (pg_new_id (ce_pg (cl_env c n))) \<inter> range (pg_new_id (ce_pg (cl_env c m))) = {}
            \<and> (\<forall>j. pg_uuid_in (ce_pg (cl_env c m)) (pg_new_id (ce_pg (cl_env c n)) j) = Some (pg_new_id (ce_pg (cl_env c n)) j)))"

abbreviation ready :: "sched_cluster \<Rightarrow> bool" where
  "ready c \<equiv> fresh_from (cl_tick c) c"

abbreviation used :: "sched_cluster \<Rightarrow> bool" where
  "used c \<equiv> fresh_from (Suc (cl_tick c)) c"

lemma ids_with_new_job: "ids (with_new_job p name payload d) = ids d \<union> {pg_new_id p 1, pg_new_id p 2}"
  by (auto simp: ids_def with_new_job_def new_job_row_def new_outbox_row_def)

lemma job_created_with_new_job:
  assumes "pg_ok p d"
  shows "job_created name payload (new_job_row p (pg_new_id p 1) name payload)
           (new_outbox_row p (pg_new_id p 2) (pg_new_id p 1)) d (with_new_job p name payload d)"
  using assms by (simp add: job_created_def with_new_job_def new_job_row_def new_outbox_row_def pg_ok_def)

lemma used_with_new_job:
  assumes "ready c"
  shows "used (c\<lparr>cl_db := with_new_job (ce_pg (call_env_of c)) name payload (cl_db c)\<rparr>)"
proof -
  let ?p = "ce_pg (call_env_of c)" and ?e = "\<lambda>n. ce_pg (cl_env c n)"
  have p: "pg_ok ?p (cl_db c)" using assms by (simp add: fresh_from_def call_env_of_def)
  have wf: "wf_db (with_new_job ?p name payload (cl_db c))"
    using wf_with_new_job [of "cl_db c" ?p] p assms by (simp add: fresh_from_def)
  have "pg_ok (?e n) (with_new_job ?p name payload (cl_db c))" if n: "Suc (cl_tick c) \<le> n" for n
  proof -
    have "pg_ok (?e n) (cl_db c)" using assms n by (simp add: fresh_from_def)
    moreover have "range (pg_new_id ?p) \<inter> range (pg_new_id (?e n)) = {}"
      "\<forall>j. pg_uuid_in (?e n) (pg_new_id ?p j) = Some (pg_new_id ?p j)"
      using assms n by (simp_all add: fresh_from_def call_env_of_def Suc_le_eq)
    ultimately show ?thesis unfolding pg_ok_def ids_with_new_job by blast
  qed
  then show ?thesis using wf assms by (simp add: fresh_from_def)
qed

interpretation shared: job_store "scheduler_jobs addr" cl_db ready used for addr
proof
  fix c assume "ready c" then show "used c" by (simp add: fresh_from_def)
next
  fix c name payload res c'
  assume c: "ready c" and cr: "jd_CreateJobWithOutbox (scheduler_jobs addr) name payload c = (res, c')"
  let ?p = "ce_pg (call_env_of c)"
  obtain d where d: "CreateJobWithOutbox ?p (cl_db c) name payload = (res, d)" "c' = c\<lparr>cl_db := d\<rparr>"
    using cr by (auto simp: scheduler_jobs_def split: prod.splits)
  have p: "pg_ok ?p (cl_db c)" using c by (simp add: fresh_from_def call_env_of_def)
  then have "pg_uuid_in ?p (pg_new_id ?p 1) = Some (pg_new_id ?p 1)" by (simp add: pg_ok_def)
  from this d(1) show "used c' \<and> (isl res \<and> cl_db c' = cl_db c
      \<or> (\<exists>r x. job_created name payload r x (cl_db c) (cl_db c') \<and> (isl res \<or> res = Inr (job_of_row r))))"
  proof (cases rule: CreateJobWithOutbox_cases)
    case nothing
    then show ?thesis using c d(2) by (simp add: fresh_from_def)
  next
    case both
    then show ?thesis using used_with_new_job [OF c, of name payload] job_created_with_new_job [OF p, of name payload] d(2) by auto
  qed
qed (auto simp: scheduler_jobs_def fresh_from_def)

subsection \<open>One call\<close>

abbreviation lost :: "call_env \<Rightarrow> bool" where
  "lost e \<equiv> (\<exists>x. ce_call e = AnswerLost x)"

lemma next_call_sel [simp]:
  "cl_db (next_call c) = cl_db c" "cl_env (next_call c) = cl_env c" "cl_tick (next_call c) = Suc (cl_tick c)"
  "cl_wake (next_call c) = cl_wake c"
  by (simp_all add: next_call_def)

lemma ready_next: "used c \<Longrightarrow> ready (next_call c)"
  by (simp add: fresh_from_def)

lemma SubmitJob_frame:
  assumes "SubmitJob (scheduler_jobs addr) req c = (res, c')"
  shows "cl_tick c' = cl_tick c" "cl_env c' = cl_env c"
  using assms by (auto simp: SubmitJob_def scheduler_jobs_def split: if_splits sum.splits prod.splits)

text \<open>
  One routed call: nothing, or one job with its command; a job that the caller does not get back, and
  that does not end the walk, is one whose answer was lost.
\<close>

lemma submit_call:
  assumes "ready c" "jc_SubmitJob (sc_jobs (scheduler_client_at u st addr)) req c = (res, c')"
  shows "ready c' \<and> cl_tick c' = Suc (cl_tick c) \<and> cl_env c' = cl_env c
    \<and> (cl_db c' = cl_db c \<and> isl res
       \<or> (\<exists>r x. job_created (sr_Name req) (sr_Payload req) r x (cl_db c) (cl_db c')
            \<and> (res = Inr (JobToProto (job_of_row r)) \<or> isl res \<and> (lost (call_env_of c) \<or> definitive res))))"
proof -
  obtain a c1 where a: "SubmitJob (scheduler_jobs addr) req c = (a, c1)" by fastforce
  note eff = shared.SubmitJob_effect [OF assms(1) a] and fr = SubmitJob_frame [OF a]
  have call: "jc_SubmitJob (sc_jobs (scheduler_client_at u st addr)) req c = rpc_call (SubmitJob (scheduler_jobs addr) req) c"
    by (simp add: scheduler_client_at_def)
  have int: "definitive a" if "isl a" "err_code (projl a) = Internal" using that by (cases a) (auto simp: definitive_def retryable_def)
  show ?thesis
  proof (cases "ce_call (call_env_of c)")
    case (Undelivered e)
    then have "res = Inl e" "c' = next_call c" using assms(2) by (simp_all add: call rpc_call_def)
    then show ?thesis using assms(1) by (simp add: fresh_from_def)
  next
    case (AnswerLost e)
    then have "res = Inl e" "c' = next_call c1" using assms(2) a by (simp_all add: call rpc_call_def)
    then show ?thesis using eff fr AnswerLost ready_next [of c1] by auto
  next
    case Answered
    then have "res = a" "c' = next_call c1" using assms(2) a by (simp_all add: call rpc_call_def)
    then show ?thesis using eff fr ready_next [of c1] int by auto
  qed
qed

text \<open>The members of the router are the clients of the schedulers.\<close>

definition routes_to_schedulers :: "(string \<Rightarrow> bool) \<Rightarrow> (sched_cluster \<Rightarrow> ClusterState option rpc \<times> sched_cluster) \<Rightarrow> sched_cluster Router \<Rightarrow> bool" where
  "routes_to_schedulers u st r \<longleftrightarrow> wf_router r \<and> (\<forall>m \<in> set (rt_members r). \<exists>addr. cn_client m = scheduler_client_at u st addr)"

lemma gateway_router_routes: "gateway_router ch u st schedulers = Inr r \<Longrightarrow> routes_to_schedulers u st r"
  unfolding gateway_router_def routes_to_schedulers_def
  using wf_Router_New(1,5) [of ch "\<lambda>addr. Inr (scheduler_client_at u st addr)" schedulers r] by (metis sum.inject(2))

subsection \<open>The whole walk\<close>

definition jobs_added :: "SubmitJobRequest \<Rightarrow> job_row list \<Rightarrow> outbox_row list \<Rightarrow> db \<Rightarrow> db \<Rightarrow> bool" where
  "jobs_added req rs cs d d' \<longleftrightarrow>
     jobs d' = jobs d @ rs \<and> outbox d' = outbox d @ cs \<and> map o_job_id cs = map r_id rs
     \<and> (\<forall>r \<in> set rs. r_name r = sr_Name req \<and> r_payload r = sr_Payload req \<and> r_status r = StatusPending)
     \<and> (\<forall>c \<in> set cs. o_status c = OutboxPending)"

lemma jobs_added_Nil [simp]: "jobs_added req [] [] d d"
  by (simp add: jobs_added_def)

lemma jobs_added_one: "job_created (sr_Name req) (sr_Payload req) r x d d' \<Longrightarrow> jobs_added req [r] [x] d d'"
  by (simp add: jobs_added_def job_created_def)

lemma jobs_added_trans: "jobs_added req rs cs d d' \<Longrightarrow> jobs_added req rs' cs' d' d'' \<Longrightarrow> jobs_added req (rs @ rs') (cs @ cs') d d''"
  by (auto simp: jobs_added_def)

definition lost_between :: "(nat \<Rightarrow> call_env) \<Rightarrow> nat \<Rightarrow> nat \<Rightarrow> nat" where
  "lost_between e a b = length (filter (\<lambda>n. lost (e n)) [a..<b])"

lemma lost_between_Suc: "a < b \<Longrightarrow> lost_between e a b = of_bool (lost (e a)) + lost_between e (Suc a) b"
  by (simp add: lost_between_def upt_conv_Cons)

lemma submit_call_jobs:
  assumes "ready c" "jc_SubmitJob (sc_jobs (scheduler_client_at u st addr)) req c = (res, c')"
  shows "\<exists>rs cs. jobs_added req rs cs (cl_db c) (cl_db c') \<and> length rs \<le> of_bool (lost (call_env_of c) \<or> definitive res)
    \<and> (\<forall>j. res = Inr j \<longrightarrow> rs \<noteq> [] \<and> j = JobToProto (job_of_row (last rs)))"
proof -
  have ok: "definitive res" if "\<not> isl res" using that by (cases res) (simp_all add: definitive_def)
  from submit_call [OF assms] consider "cl_db c' = cl_db c" "isl res"
    | r x where "job_created (sr_Name req) (sr_Payload req) r x (cl_db c) (cl_db c')"
        "res = Inr (JobToProto (job_of_row r)) \<or> isl res \<and> (lost (call_env_of c) \<or> definitive res)" by blast
  then show ?thesis
  proof cases
    case 1
    then show ?thesis by (intro exI [of _ "[]"]) auto
  next
    case (2 r x)
    then show ?thesis using jobs_added_one [OF 2(1)] ok
      by (intro exI [of _ "[r]"] exI [of _ "[x]"]) auto
  qed
qed

lemma walk_submit:
  assumes "\<forall>i \<in> set is. \<exists>addr. cn_client (ms ! i) = scheduler_client_at u st addr"
    and "ready c" "walk (\<lambda>cl. jc_SubmitJob cl req) ms is c = (tr, c')"
  shows "\<exists>rs cs. jobs_added req rs cs (cl_db c) (cl_db c') \<and> ready c' \<and> cl_env c' = cl_env c \<and> cl_tick c' = cl_tick c + length tr
      \<and> length rs \<le> lost_between (cl_env c) (cl_tick c) (cl_tick c') + (if ended tr then 1 else 0)
      \<and> (\<forall>j. verdict tr = Inr j \<longrightarrow> rs \<noteq> [] \<and> j = JobToProto (job_of_row (last rs)))"
  using assms
proof (induction "is" arbitrary: c tr)
  case Nil
  then show ?case by (auto simp: verdict_def intro!: exI [of _ Nil])
next
  case (Cons i "is")
  from Cons.prems(1) obtain addr where addr: "cn_client (ms ! i) = scheduler_client_at u st addr" by auto
  obtain res c1 where f: "jc_SubmitJob (sc_jobs (cn_client (ms ! i))) req c = (res, c1)" by fastforce
  note call = submit_call [OF Cons.prems(2) f [unfolded addr]]
  from submit_call_jobs [OF Cons.prems(2) f [unfolded addr]] obtain rs cs where one: "jobs_added req rs cs (cl_db c) (cl_db c1)"
    "length rs \<le> of_bool (lost (call_env_of c) \<or> definitive res)"
    "\<forall>j. res = Inr j \<longrightarrow> rs \<noteq> [] \<and> j = JobToProto (job_of_row (last rs))" by blast
  show ?case
  proof (cases "definitive res")
    case True
    then have tr: "tr = [(i, res)]" "c' = c1" using Cons.prems(3) f by simp_all
    have "ended tr" "verdict tr = (case res of Inl e \<Rightarrow> Inl (Some e) | Inr x \<Rightarrow> Inr x)"
      using True by (simp_all add: tr ended_def verdict_def)
    then show ?thesis using call one tr True by (intro exI [of _ rs] exI [of _ cs]) (auto split: sum.splits)
  next
    case False
    obtain tr' where t: "walk (\<lambda>cl. jc_SubmitJob cl req) ms is c1 = (tr', c')" "tr = (i, res) # tr'"
      using Cons.prems(3) f False by (auto split: prod.splits)
    from Cons.IH [OF _ _ t(1)] Cons.prems(1) call obtain rs' cs' where
      IH: "jobs_added req rs' cs' (cl_db c1) (cl_db c')" "ready c'" "cl_env c' = cl_env c1" "cl_tick c' = cl_tick c1 + length tr'"
        "length rs' \<le> lost_between (cl_env c1) (cl_tick c1) (cl_tick c') + (if ended tr' then 1 else 0)"
        "\<forall>j. verdict tr' = Inr j \<longrightarrow> rs' \<noteq> [] \<and> j = JobToProto (job_of_row (last rs'))" by auto
    have "isl res" using False by (cases res) (simp_all add: definitive_def)
    then have e: "ended tr = ended tr'" "\<forall>j. verdict tr = Inr j \<longrightarrow> verdict tr' = Inr j"
      using False by (auto simp: t(2) ended_def verdict_def split: sum.splits)
    have "lost_between (cl_env c) (cl_tick c) (cl_tick c') = of_bool (lost (call_env_of c)) + lost_between (cl_env c1) (cl_tick c1) (cl_tick c')"
      using lost_between_Suc [of "cl_tick c" "cl_tick c'" "cl_env c"] call IH(4) by (simp add: call_env_of_def)
    then have "length (rs @ rs') \<le> lost_between (cl_env c) (cl_tick c) (cl_tick c') + (if ended tr then 1 else 0)"
      using IH(5) one(2) False e(1) by simp
    with IH e call t(2) jobs_added_trans [OF one(1) IH(1)] show ?thesis
      by (intro exI [of _ "rs @ rs'"] exI [of _ "cs @ cs'"]) auto
  qed
qed

subsection \<open>When nothing is lost\<close>

definition benign :: "call_env \<Rightarrow> bool" where
  "benign e \<longleftrightarrow> pg_trip (ce_pg e) = (\<lambda>_. Done) \<and> (ce_call e = Answered \<or> (\<exists>x. ce_call e = Undelivered x \<and> retryable x))"

definition serves :: "call_env \<Rightarrow> string \<Rightarrow> bool" where
  "serves e addr \<longleftrightarrow> ce_call e = Answered \<and> ce_leader e addr"

definition good_name :: "SubmitJobRequest \<Rightarrow> bool" where
  "good_name req \<longleftrightarrow> sr_Name req \<noteq> [] \<and> length (sr_Name req) \<le> maxNameLength"

lemma CreateJobWithOutbox_done:
  assumes "pg_trip p = (\<lambda>_. Done)" "pg_ok p d"
  shows "CreateJobWithOutbox p d name payload
    = (Inr (job_of_row (new_job_row p (pg_new_id p 1) name payload)), with_new_job p name payload d)"
  using assms
  by (simp add: CreateJobWithOutbox_def trip_error_def scanJob_def enqueueOutbox_def commit_def Let_def with_new_job_def
      job_of_row_def new_job_row_def pg_ok_def)

lemma submit_serves:
  assumes "ready c" "benign (call_env_of c)" "good_name req"
    and "jc_SubmitJob (sc_jobs (scheduler_client_at u st addr)) req c = (res, c')"
  shows "if serves (call_env_of c) addr
     then cl_wake c' addr \<and> (\<exists>r x. job_created (sr_Name req) (sr_Payload req) r x (cl_db c) (cl_db c') \<and> res = Inr (JobToProto (job_of_row r)))
     else cl_db c' = cl_db c \<and> (\<exists>e. res = Inl e \<and> retryable e)"
proof -
  let ?p = "ce_pg (call_env_of c)"
  have p: "pg_ok ?p (cl_db c)" using assms(1) by (simp add: fresh_from_def call_env_of_def)
  note cr = CreateJobWithOutbox_done [OF _ p, of "sr_Name req" "sr_Payload req"]
  have call: "rpc_call (SubmitJob (scheduler_jobs addr) req) c = (res, c')" using assms(4) by (simp add: scheduler_client_at_def)
  show ?thesis
  proof (cases "serves (call_env_of c) addr")
    case True
    then have "SubmitJob (scheduler_jobs addr) req c =
      (Inr (JobToProto (job_of_row (new_job_row ?p (pg_new_id ?p 1) (sr_Name req) (sr_Payload req)))),
       c\<lparr>cl_db := with_new_job ?p (sr_Name req) (sr_Payload req) (cl_db c), cl_wake := (cl_wake c)(addr := True)\<rparr>)"
      using cr assms(2,3) by (simp add: SubmitJob_def scheduler_jobs_def serves_def benign_def good_name_def Relay_Wake_def)
    then have res: "res = Inr (JobToProto (job_of_row (new_job_row ?p (pg_new_id ?p 1) (sr_Name req) (sr_Payload req))))"
      and c': "cl_db c' = with_new_job ?p (sr_Name req) (sr_Payload req) (cl_db c)" "cl_wake c' addr"
      using True call by (auto simp: serves_def rpc_call_def)
    have "job_created (sr_Name req) (sr_Payload req) (new_job_row ?p (pg_new_id ?p 1) (sr_Name req) (sr_Payload req))
        (new_outbox_row ?p (pg_new_id ?p 2) (pg_new_id ?p 1)) (cl_db c) (cl_db c')"
      unfolding c'(1) by (rule job_created_with_new_job [OF p])
    with res c'(2) True show ?thesis by auto
  next
    case False
    then consider x where "ce_call (call_env_of c) = Undelivered x" "retryable x" | "ce_call (call_env_of c) = Answered" "\<not> ce_leader (call_env_of c) addr"
      using assms(2) by (auto simp: benign_def serves_def)
    then show ?thesis
    proof cases
      case 1
      then show ?thesis using call False by (auto simp: rpc_call_def)
    next
      case 2
      then show ?thesis using call False by (auto simp: rpc_call_def SubmitJob_def scheduler_jobs_def retryable_def)
    qed
  qed
qed

text \<open>The walk ends with a success, or nobody asked was able to serve.\<close>

lemma walk_benign:
  assumes "\<forall>i \<in> set is. cn_client (ms ! i) = scheduler_client_at u st (addr i)"
    and "ready c" "good_name req" "\<forall>k < length is. benign (cl_env c (cl_tick c + k))"
    and "walk (\<lambda>cl. jc_SubmitJob cl req) ms is c = (tr, c')"
  shows "(\<exists>r x. tr \<noteq> [] \<and> verdict tr = Inr (JobToProto (job_of_row r)) \<and> cl_wake c' (addr (fst (last tr)))
            \<and> job_created (sr_Name req) (sr_Payload req) r x (cl_db c) (cl_db c'))
       \<or> (\<forall>k < length is. \<not> serves (cl_env c (cl_tick c + k)) (addr (is ! k)))"
  using assms
proof (induction "is" arbitrary: c tr)
  case (Cons i "is")
  obtain res c1 where f: "jc_SubmitJob (sc_jobs (cn_client (ms ! i))) req c = (res, c1)" by fastforce
  have f': "jc_SubmitJob (sc_jobs (scheduler_client_at u st (addr i))) req c = (res, c1)" using f Cons.prems(1) by simp
  have b: "benign (call_env_of c)" using Cons.prems(4) by (auto simp: call_env_of_def)
  note call = submit_call [OF Cons.prems(2) f'] and sv = submit_serves [OF Cons.prems(2) b Cons.prems(3) f']
  show ?case
  proof (cases "serves (call_env_of c) (addr i)")
    case True
    then obtain r x where r: "job_created (sr_Name req) (sr_Payload req) r x (cl_db c) (cl_db c1)" "res = Inr (JobToProto (job_of_row r))"
      and w: "cl_wake c1 (addr i)" using sv by auto
    then have "tr = [(i, res)]" "c' = c1" using Cons.prems(5) f by (simp_all add: definitive_def)
    then show ?thesis using r w by (auto simp: verdict_def)
  next
    case False
    then obtain e where e: "cl_db c1 = cl_db c" "res = Inl e" "retryable e" using sv by auto
    then obtain tr' where t: "walk (\<lambda>cl. jc_SubmitJob cl req) ms is c1 = (tr', c')" "tr = (i, res) # tr'"
      using Cons.prems(5) f by (auto simp: definitive_def split: prod.splits)
    have b1: "\<forall>k < length is. benign (cl_env c1 (cl_tick c1 + k))"
    proof (intro allI impI)
      fix k assume "k < length is"
      then show "benign (cl_env c1 (cl_tick c1 + k))" using Cons.prems(4) [rule_format, of "Suc k"] call by simp
    qed
    have "ready c1" using call by blast
    from Cons.IH [OF _ this Cons.prems(3) b1 t(1)] Cons.prems(1) consider
      r x where "tr' \<noteq> []" "verdict tr' = Inr (JobToProto (job_of_row r))" "cl_wake c' (addr (fst (last tr')))"
        "job_created (sr_Name req) (sr_Payload req) r x (cl_db c1) (cl_db c')"
      | "\<forall>k < length is. \<not> serves (cl_env c1 (cl_tick c1 + k)) (addr (is ! k))" by auto
    then show ?thesis
    proof cases
      case 1
      then show ?thesis using e(1) t(2) by (auto simp: verdict_def)
    next
      case 2
      have "\<not> serves (cl_env c (cl_tick c + k)) (addr ((i # is) ! k))" if "k < length (i # is)" for k
        using that False 2 call by (cases k) (auto simp: call_env_of_def)
      then show ?thesis by blast
    qed
  qed
qed simp

subsection \<open>Properties\<close>

text \<open>
  C23 One submission through the router, whatever fails: the jobs it added all carry the request's name
  and payload, are pending and have one pending dispatch command each; there is at most one more of
  them than answers were lost on the way, so none is made twice unless an answer is lost; what the
  caller gets back is the last job made; and at most three calls per scheduler were tried.
\<close>

theorem routed_submit_safe:
  assumes "routes_to_schedulers u st r" "ready c" "Router_SubmitJob expired r req c = (res, r', c')"
  shows "\<exists>rs cs. jobs_added req rs cs (cl_db c) (cl_db c') \<and> wf_db (cl_db c')
    \<and> length rs \<le> 1 + lost_between (cl_env c) (cl_tick c) (cl_tick c')
    \<and> (\<forall>j. res = Inr j \<longrightarrow> rs \<noteq> [] \<and> j = JobToProto (job_of_row (last rs)))
    \<and> cl_tick c' \<le> cl_tick c + 3 * length (rt_members r)"
proof -
  let ?n = "length (rt_members r)" and ?fn = "\<lambda>cl. jc_SubmitJob cl req"
  have wf: "wf_router r" using assms(1) by (simp add: routes_to_schedulers_def)
  from route_rounds_walk [OF wf refl, of retryRounds expired ?fn c None] obtain k tr where k: "k \<le> 3"
    and t: "walk ?fn (rt_members r) (schedule ?n (nat (rt_leader r)) k) c = (tr, c')" and res: "res = verdict tr"
    using assms(3) by (auto simp: Router_SubmitJob_def route_def retryRounds_def)
  have n: "0 < ?n" using wf by (simp add: wf_router_def)
  have idx: "\<forall>i \<in> set (schedule ?n (nat (rt_leader r)) k). \<exists>addr. cn_client (rt_members r ! i) = scheduler_client_at u st addr"
    using assms(1) n by (auto simp: schedule_def one_round_def routes_to_schedulers_def)
  have "length tr \<le> k * ?n" using walk_length [OF t] by (simp add: schedule_def one_round_def length_concat sum_list_replicate)
  also have "\<dots> \<le> 3 * ?n" using k by simp
  finally have l: "length tr \<le> 3 * ?n" .
  from walk_submit [OF idx assms(2) t] obtain rs cs where "jobs_added req rs cs (cl_db c) (cl_db c')" "ready c'"
    "cl_tick c' = cl_tick c + length tr" "length rs \<le> lost_between (cl_env c) (cl_tick c) (cl_tick c') + (if ended tr then 1 else 0)"
    "\<forall>j. verdict tr = Inr j \<longrightarrow> rs \<noteq> [] \<and> j = JobToProto (job_of_row (last rs))" by blast
  then show ?thesis using l res by (intro exI [of _ rs] exI [of _ cs]) (auto simp: fresh_from_def split: if_splits)
qed

lemma routed_submit_done:
  assumes r: "gateway_router ch u st schedulers = Inr r" and c: "ready c" "good_name req"
    and benign: "\<forall>k < 3 * length (rt_members r). benign (cl_env c (cl_tick c + k))"
    and leader: "L |\<in>| fmdom schedulers"
      "\<forall>k. 2 * length (rt_members r) \<le> k \<longrightarrow> k < 3 * length (rt_members r) \<longrightarrow>
           serves (cl_env c (cl_tick c + k)) (at_or [] schedulers L)"
    and "\<forall>c. \<not> expired c" "Router_SubmitJob expired r req c = (res, r', c')"
  shows "\<exists>row x. job_created (sr_Name req) (sr_Payload req) row x (cl_db c) (cl_db c')
    \<and> res = Inr (JobToProto (job_of_row row))
    \<and> (\<exists>m < length (rt_members r). rt_leader r' = int m \<and> cl_wake c' (at_or [] schedulers (cn_name (rt_members r ! m))))
    \<and> rt_members r' = rt_members r \<and> cl_env c' = cl_env c \<and> ready c'"
proof -
  let ?n = "length (rt_members r)" and ?fn = "\<lambda>cl. jc_SubmitJob cl req" and ?s = "schedule (length (rt_members r)) (nat (rt_leader r)) 3"
  let ?a = "\<lambda>i. at_or [] schedulers (cn_name (rt_members r ! i))"
  note new = wf_Router_New [OF r [unfolded gateway_router_def]]
  have n: "0 < ?n" using new(1) by (simp add: wf_router_def)
  from route_rounds_walk [OF new(1) refl, of retryRounds expired ?fn c None] obtain tr where
    t: "walk ?fn (rt_members r) ?s c = (tr, c')" and res: "res = verdict tr" "r' = cached tr r"
    using assms(7,8) by (auto simp: Router_SubmitJob_def route_def retryRounds_def)
  have len: "length ?s = 3 * ?n" by (simp add: schedule_def one_round_def length_concat sum_list_replicate)
  have in_range: "\<forall>i \<in> set ?s. i < ?n" using n by (auto simp: schedule_def one_round_def)
  have idx: "\<forall>i \<in> set ?s. cn_client (rt_members r ! i) = scheduler_client_at u st (?a i)"
    using new(5) in_range by (metis nth_mem sum.inject(2))
  from leader(1) new(4) obtain m where m: "m < ?n" "cn_name (rt_members r ! m) = L"
    by (metis in_set_conv_nth length_map nth_map)
  obtain k where k: "k < ?n" "one_round ?n (nat (rt_leader r)) ! k = m"
  proof
    let ?k = "(m + ?n - nat (rt_leader r)) mod ?n"
    show "?k < ?n" using n by simp
    have "nat (rt_leader r) < ?n" using new(1) by (simp add: wf_router_def nat_less_iff)
    then have "(nat (rt_leader r) + (m + ?n - nat (rt_leader r))) mod ?n = m" using m(1) by simp
    then show "one_round ?n (nat (rt_leader r)) ! ?k = m" using n by (simp add: one_round_def mod_add_right_eq)
  qed
  have "?s ! (2 * ?n + k) = m"
    using k by (simp add: schedule_def numeral_3_eq_3 nth_append one_round_def)
  then have sv: "serves (cl_env c (cl_tick c + (2 * ?n + k))) (?a (?s ! (2 * ?n + k)))"
    using leader(2) [rule_format, of "2 * ?n + k"] k(1) m(2) by simp
  have all: "\<forall>k < length ?s. benign (cl_env c (cl_tick c + k))" using benign by (simp add: len)
  have lt: "2 * ?n + k < length ?s" using k(1) by (simp add: len)
  from walk_benign [OF idx c all t] sv lt obtain row x where
    row: "tr \<noteq> []" "verdict tr = Inr (JobToProto (job_of_row row))" "cl_wake c' (?a (fst (last tr)))"
      "job_created (sr_Name req) (sr_Payload req) row x (cl_db c) (cl_db c')" by blast
  have "fst (last tr) \<in> set ?s" using walk_length [OF t] row(1) by (metis in_set_takeD last_in_set list.map_disc_iff list.set_map image_eqI)
  then have "fst (last tr) < ?n" using in_range by blast
  moreover have "rt_leader r' = int (fst (last tr))"
    using row(1,2) by (simp add: res cached_def) (auto simp: verdict_def split: sum.splits)
  moreover have "\<forall>i \<in> set ?s. \<exists>addr. cn_client (rt_members r ! i) = scheduler_client_at u st addr" using idx by blast
  from walk_submit [OF this c(1) t] have "cl_env c' = cl_env c" "ready c'" by blast+
  ultimately show ?thesis using row res by (auto simp: cached_def)
qed

text \<open>
  C24 The router rides out an election.  When no answer is lost, undelivered calls are of the kind that
  means "try another", the store works, the context does not end, and by the third round some
  configured scheduler leads and is reachable throughout, a submission with a legal name succeeds: it
  makes exactly one job, returns it as pending, wakes the relay of the scheduler that served it and
  remembers that scheduler.
\<close>

theorem routed_submit_succeeds:
  assumes r: "gateway_router ch u st schedulers = Inr r" and c: "ready c" "good_name req"
    and benign: "\<forall>k < 3 * length (rt_members r). benign (cl_env c (cl_tick c + k))"
    and leader: "L |\<in>| fmdom schedulers"
      "\<forall>k. 2 * length (rt_members r) \<le> k \<longrightarrow> k < 3 * length (rt_members r) \<longrightarrow>
           serves (cl_env c (cl_tick c + k)) (at_or [] schedulers L)"
    and "\<forall>c. \<not> expired c" "Router_SubmitJob expired r req c = (res, r', c')"
  shows "\<exists>row x. job_created (sr_Name req) (sr_Payload req) row x (cl_db c) (cl_db c')
    \<and> res = Inr (JobToProto (job_of_row row))
    \<and> (\<exists>m < length (rt_members r). rt_leader r' = int m \<and> cl_wake c' (at_or [] schedulers (cn_name (rt_members r ! m))))"
  using routed_submit_done [OF assms] by blast

definition ex_call_env :: "nat \<Rightarrow> call_env" where
  "ex_call_env n = \<lparr>ce_pg = ex_pg\<lparr>pg_new_id := (\<lambda>k. ''n'' @ replicate n CHR ''x'' @ ''/'' @ replicate k CHR ''y'')\<rparr>,
     ce_call = Answered, ce_leader = (\<lambda>a. a = ''b''), ce_leaderID = ''s2''\<rparr>"

definition ex_sched_cluster :: "(nat \<Rightarrow> call_env) \<Rightarrow> sched_cluster" where
  "ex_sched_cluster e = \<lparr>cl_db = ex_db0, cl_wake = (\<lambda>_. False), cl_env = e, cl_tick = 0\<rparr>"

definition ex_schedulers :: "(string, string) fmap" where
  "ex_schedulers = fmap_of_list [(''s1'', ''a''), (''s2'', ''b'')]"

definition ex_states :: "sched_cluster \<Rightarrow> ClusterState option rpc \<times> sched_cluster" where
  "ex_states c = (Inr None, c)"

definition ex_req :: SubmitJobRequest where
  "ex_req = \<lparr>sr_Name = ''demo'', sr_Payload = []\<rparr>"

lemma ready_ex_sched_cluster:
  assumes "\<And>n. ce_pg (e n) = ce_pg (ex_call_env n)"
  shows "ready (ex_sched_cluster e)"
proof -
  have "inj (\<lambda>k. ''n'' @ replicate n CHR ''x'' @ ''/'' @ replicate k CHR ''y'')" for n by (auto simp: inj_def)
  moreover have "range (\<lambda>k. ''n'' @ replicate n CHR ''x'' @ ''/'' @ replicate k CHR ''y'')
      \<inter> range (\<lambda>k. ''n'' @ replicate m CHR ''x'' @ ''/'' @ replicate k CHR ''y'') = {}" if "n < m" for n m
    using ex_ids_disjoint [of n m] that by blast
  ultimately show ?thesis
    unfolding fresh_from_def ex_sched_cluster_def
    by (simp add: assms ex_call_env_def ex_db0_def wf_db_empty pg_ok_def ex_pg_def ids_def)
qed

lemma ex_gateway: "\<exists>r. gateway_router (\<lambda>_. []) (\<lambda>_. True) ex_states ex_schedulers = Inr r \<and> length (rt_members r) = 2"
proof -
  let ?g = "gateway_router (\<lambda>_. []) (\<lambda>_. True) ex_states ex_schedulers"
  have "(case ?g of Inl _ \<Rightarrow> 0 | Inr r \<Rightarrow> length (rt_members r)) = 2" by code_simp
  then show ?thesis by (cases ?g) auto
qed

theorem routed_submit_safe_witness:
  "\<exists>r res r' c'. routes_to_schedulers (\<lambda>_. True) ex_states r
     \<and> Router_SubmitJob (\<lambda>_. False) r ex_req (ex_sched_cluster ex_call_env) = (res, r', c')
     \<and> (\<exists>rs cs. jobs_added ex_req rs cs ex_db0 (cl_db c') \<and> length rs \<le> 1 + lost_between ex_call_env 0 (cl_tick c'))"
proof -
  obtain r where r: "gateway_router (\<lambda>_. []) (\<lambda>_. True) ex_states ex_schedulers = Inr r" using ex_gateway by blast
  obtain res r' c' where s: "Router_SubmitJob (\<lambda>_. False) r ex_req (ex_sched_cluster ex_call_env) = (res, r', c')"
    by (cases "Router_SubmitJob (\<lambda>_. False) r ex_req (ex_sched_cluster ex_call_env)") auto
  from routed_submit_safe [OF gateway_router_routes [OF r] ready_ex_sched_cluster s] obtain rs cs where
    "jobs_added ex_req rs cs ex_db0 (cl_db c')" "length rs \<le> 1 + lost_between ex_call_env 0 (cl_tick c')"
    by (auto simp: ex_sched_cluster_def)
  then show ?thesis using gateway_router_routes [OF r] s by blast
qed

theorem routed_submit_succeeds_witness:
  "\<exists>r res r' c'. gateway_router (\<lambda>_. []) (\<lambda>_. True) ex_states ex_schedulers = Inr r
     \<and> Router_SubmitJob (\<lambda>_. False) r ex_req (ex_sched_cluster ex_call_env) = (res, r', c')
     \<and> \<not> isl res \<and> length (jobs (cl_db c')) = 1"
proof -
  obtain r where r: "gateway_router (\<lambda>_. []) (\<lambda>_. True) ex_states ex_schedulers = Inr r" using ex_gateway by blast
  obtain res r' c' where s: "Router_SubmitJob (\<lambda>_. False) r ex_req (ex_sched_cluster ex_call_env) = (res, r', c')"
    by (cases "Router_SubmitJob (\<lambda>_. False) r ex_req (ex_sched_cluster ex_call_env)") auto
  have g: "good_name ex_req" by (simp add: good_name_def ex_req_def maxNameLength_def)
  have b: "\<forall>k < 3 * length (rt_members r). benign (cl_env (ex_sched_cluster ex_call_env) (cl_tick (ex_sched_cluster ex_call_env) + k))"
    by (simp add: benign_def ex_sched_cluster_def ex_call_env_def ex_pg_def)
  have L: "''s2'' |\<in>| fmdom ex_schedulers" and
    sv: "\<forall>k. 2 * length (rt_members r) \<le> k \<longrightarrow> k < 3 * length (rt_members r) \<longrightarrow>
           serves (cl_env (ex_sched_cluster ex_call_env) (cl_tick (ex_sched_cluster ex_call_env) + k)) (at_or [] ex_schedulers ''s2'')"
    by (simp_all add: ex_schedulers_def serves_def ex_sched_cluster_def ex_call_env_def at_or_def fmlookup_of_list)
  from routed_submit_succeeds [OF r ready_ex_sched_cluster g b L sv _ s] obtain row x where
    "job_created (sr_Name ex_req) (sr_Payload ex_req) row x (cl_db (ex_sched_cluster ex_call_env)) (cl_db c')"
    "res = Inr (JobToProto (job_of_row row))" by auto
  then show ?thesis using r s by (auto simp: job_created_def ex_sched_cluster_def ex_db0_def)
qed

text \<open>
  A lost answer and one request become two jobs: the first scheduler commits the job, its answer is
  lost (it crashed after the commit), the router takes that for "try another scheduler" and the new
  leader creates the job again.
\<close>

definition ex_crash_env :: "nat \<Rightarrow> call_env" where
  "ex_crash_env n = (if n = 0 then (ex_call_env 0)\<lparr>ce_leader := (\<lambda>a. a = ''a''), ce_call := AnswerLost (RpcError Unavailable ''connection closed'')\<rparr>
     else ex_call_env n)"

lemma routed_submit_twice:
  "\<exists>r. gateway_router (\<lambda>_. []) (\<lambda>_. True) ex_states ex_schedulers = Inr r
     \<and> (case Router_SubmitJob (\<lambda>_. False) r ex_req (ex_sched_cluster ex_crash_env) of
          (res, _, c') \<Rightarrow> \<not> isl res \<and> map r_name (jobs (cl_db c')) = [''demo'', ''demo''] \<and> length (outbox (cl_db c')) = 2)"
proof -
  let ?g = "gateway_router (\<lambda>_. []) (\<lambda>_. True) ex_states ex_schedulers"
  have "case ?g of Inl _ \<Rightarrow> False | Inr r \<Rightarrow> (case Router_SubmitJob (\<lambda>_. False) r ex_req (ex_sched_cluster ex_crash_env) of
          (res, _, c') \<Rightarrow> \<not> isl res \<and> map r_name (jobs (cl_db c')) = [''demo'', ''demo''] \<and> length (outbox (cl_db c')) = 2)"
    by code_simp
  then show ?thesis by (cases ?g) auto
qed

end
