(* ===== verification/CrdtView.thy ===== *)
theory CrdtView
  imports Gossip Clients
begin

section \<open>The convergence dashboard's client (internal/crdtview)\<close>

text \<open>
  \<open>src/internal/crdtview/crdtview.go\<close>: one client per statemanager replica, the concurrent fetch of
  all their states with the convergence verdict, and the partition switch.  A client is a pair of
  functions on the world behind the network.  \<open>proto.Equal\<close> on two states is equality of the records.
  The replicas of the cluster of \<open>Gossip\<close>, reached over a network that loses requests and answers,
  are the clients of the composition.

  Shown: the verdict is true exactly when every replica answered and all states are equal; on the
  cluster, a true verdict means that the totals on display count the reports accepted anywhere, and
  the verdict is true whenever all replicas are reached and agree; the switch reaches every replica
  whose call succeeded, and reports the others.
\<close>

record 'w state_client =
  st_GetCRDTState :: "'w \<Rightarrow> (CRDTState option \<times> bool) rpc \<times> 'w"
  st_SetGossip :: "bool \<Rightarrow> 'w \<Rightarrow> bool rpc \<times> 'w"

record 'w ViewClient =
  vc_members :: "'w state_client conn list"

definition View_New ::
  "choice \<Rightarrow> (string \<Rightarrow> string + 'w state_client) \<Rightarrow> (string, string) fmap \<Rightarrow> (string \<times> string list) + 'w ViewClient" where
  "View_New ch dial statemanagers =
     map_sum (\<lambda>x. x) (\<lambda>ms. \<lparr>vc_members = ms\<rparr>)
       (connect_all ''crdtview'' ''statemanagers configured (IRONWORK_STATEMANAGERS)'' ch dial statemanagers)"

definition View_Close :: "'w ViewClient \<Rightarrow> string list" where
  "View_Close c = close_all (vc_members c)"

record CounterView =
  cv_Total :: "64 word"
  cv_Shards :: GCounter

record RecentView =
  rv_JobID :: string
  rv_Status :: string
  rv_Worker :: string
  rv_TSUnixMS :: int
  rv_Replica :: string

record ReplicaView =
  rp_Name :: string
  rp_Reachable :: bool
  rp_Error :: string
  rp_GossipEnabled :: bool
  rp_ByStatus :: "(string, CounterView) fmap"
  rp_ByWorker :: "(string, CounterView) fmap"
  rp_Recent :: "RecentView list"

record View =
  vw_Converged :: bool
  vw_Replicas :: "ReplicaView list"

definition countersToView :: "choice \<Rightarrow> (string, GCounterState) fmap \<Rightarrow> (string, CounterView) fmap" where
  "countersToView ch src =
     convert_map ch (\<lambda>c. \<lparr>cv_Total = fold (\<lambda>r total. total + shard (gs_shards c) r) (range_keys ch (gs_shards c)) 0,
                         cv_Shards = gs_shards c\<rparr>) src"

text \<open>\<open>sort.Slice\<close> is not stable; entries of equal time stand in any order, as the loop over the map
  left them.\<close>

definition recentToView :: "choice \<Rightarrow> (string, PLWWEntry) fmap \<Rightarrow> RecentView list" where
  "recentToView ch src =
     sort_key (\<lambda>r. - rv_TSUnixMS r)
       (List.map_filter (\<lambda>i. map_option (\<lambda>e. \<lparr>rv_JobID = i, rv_Status = p_Status e, rv_Worker = p_Worker e,
            rv_TSUnixMS = p_TsUnixMs e, rv_Replica = p_Replica e\<rparr>) (fmlookup src i)) (range_keys ch src))"

text \<open>What one goroutine of \<open>Fetch\<close> writes to its slots of \<open>views\<close> and \<open>states\<close>; the getters of an
  absent state give empty maps.\<close>

definition replica_view :: "choice \<Rightarrow> string \<Rightarrow> (CRDTState option \<times> bool) rpc \<Rightarrow> ReplicaView \<times> CRDTState option" where
  "replica_view ch name resp =
     (case resp of
        Inl e \<Rightarrow> (\<lparr>rp_Name = name, rp_Reachable = False, rp_Error = err_msg e, rp_GossipEnabled = False,
                  rp_ByStatus = fmempty, rp_ByWorker = fmempty, rp_Recent = []\<rparr>, None)
      | Inr (st, gossip) \<Rightarrow>
          (\<lparr>rp_Name = name, rp_Reachable = True, rp_Error = [], rp_GossipEnabled = gossip,
            rp_ByStatus = countersToView ch (case st of None \<Rightarrow> fmempty | Some s \<Rightarrow> cs_ByStatus s),
            rp_ByWorker = countersToView ch (case st of None \<Rightarrow> fmempty | Some s \<Rightarrow> cs_ByWorker s),
            rp_Recent = recentToView ch (case st of None \<Rightarrow> fmempty | Some s \<Rightarrow> cs_Recent s)\<rparr>, st))"

text \<open>The loop that computes \<open>converged\<close> and leaves at the first difference.\<close>

fun converged_from :: "nat \<Rightarrow> CRDTState option list \<Rightarrow> CRDTState option list \<Rightarrow> bool" where
  "converged_from i states [] = True"
| "converged_from i states (st # rest) =
     (if st = None \<or> (0 < i \<and> states ! 0 \<noteq> st) then False else converged_from (Suc i) states rest)"

definition Fetch :: "nat list \<Rightarrow> choice \<Rightarrow> 'w ViewClient \<Rightarrow> 'w \<Rightarrow> View \<times> 'w" where
  "Fetch order ch c w =
     (case fan_out order (\<lambda>m w. case st_GetCRDTState (cn_client m) w of (resp, w') \<Rightarrow> (replica_view ch (cn_name m) resp, w'))
             (vc_members c) w of
        (out, w') \<Rightarrow> (\<lparr>vw_Converged = converged_from 0 (map snd out) (map snd out), vw_Replicas = map fst out\<rparr>, w'))"

fun set_gossip_all :: "bool \<Rightarrow> 'w state_client conn list \<Rightarrow> 'w \<Rightarrow> string list \<times> 'w" where
  "set_gossip_all enabled [] w = ([], w)"
| "set_gossip_all enabled (m # ms) w =
     (case st_SetGossip (cn_client m) enabled w of (res, w1) \<Rightarrow>
      (case set_gossip_all enabled ms w1 of (errs, w2) \<Rightarrow>
        ((case res of Inl e \<Rightarrow> (cn_name m @ '': '' @ rpc_error_text e) # errs | Inr _ \<Rightarrow> errs), w2)))"

text \<open>\<open>errors.Join\<close>: nil for no error, otherwise the texts on lines of their own.\<close>

definition View_SetGossip :: "bool \<Rightarrow> 'w ViewClient \<Rightarrow> 'w \<Rightarrow> string option \<times> 'w" where
  "View_SetGossip enabled c w =
     (case set_gossip_all enabled (vc_members c) w of
        (errs, w') \<Rightarrow> (if errs = [] then None else Some (join (CHR 0x0A) errs), w'))"

subsection \<open>The verdict\<close>

lemma converged_from_iff:
  "converged_from i states rest \<longleftrightarrow> (\<forall>j < length rest. rest ! j \<noteq> None \<and> (0 < i + j \<longrightarrow> states ! 0 = rest ! j))"
  by (induction i states rest rule: converged_from.induct) (auto simp: less_Suc_eq_0_disj)

lemma converged_iff: "converged_from 0 sts sts \<longleftrightarrow> (\<exists>st. \<forall>x \<in> set sts. x = Some st)"
proof (cases sts)
  case (Cons x xs)
  show ?thesis
  proof
    assume c: "converged_from 0 sts sts"
    then obtain st where "sts ! 0 = Some st" by (auto simp: converged_from_iff Cons)
    moreover have "sts ! 0 = sts ! j" if "j < length sts" for j
      using c that by (cases j) (auto simp: converged_from_iff)
    ultimately show "\<exists>st. \<forall>x \<in> set sts. x = Some st" by (metis in_set_conv_nth)
  next
    assume "\<exists>st. \<forall>x \<in> set sts. x = Some st"
    then obtain st where st: "sts ! j = Some st" if "j < length sts" for j using nth_mem by blast
    have "sts ! 0 = Some st" by (rule st) (simp add: Cons)
    then show "converged_from 0 sts sts" using st by (simp add: converged_from_iff)
  qed
qed simp

lemma all_equal_Some:
  assumes "\<And>r. r \<in> N \<Longrightarrow> g r \<noteq> None"
  shows "(\<exists>st. \<forall>x \<in> g ` N. x = Some st) \<longleftrightarrow> (\<forall>r \<in> N. \<forall>r' \<in> N. g r = g r')"
proof (cases "N = {}")
  case False
  then obtain r0 st where r0: "r0 \<in> N" "g r0 = Some st" using assms by blast
  show ?thesis
  proof
    assume "\<forall>r \<in> N. \<forall>r' \<in> N. g r = g r'"
    then have "\<forall>r \<in> N. g r = Some st" using r0 by metis
    then show "\<exists>st. \<forall>x \<in> g ` N. x = Some st" by blast
  qed auto
qed simp

lemma fmlookup_countersToView:
  "fmlookup (countersToView ch src) k = map_option (\<lambda>c. \<lparr>cv_Total = GCounter_Value ch (gs_shards c), cv_Shards = gs_shards c\<rparr>) (fmlookup src k)"
  by (simp add: countersToView_def GCounter_Value_def)

lemma recentToView_entries:
  "set (recentToView ch src) = {\<lparr>rv_JobID = i, rv_Status = p_Status e, rv_Worker = p_Worker e,
     rv_TSUnixMS = p_TsUnixMs e, rv_Replica = p_Replica e\<rparr> | i e. fmlookup src i = Some e}"
  by (auto simp: recentToView_def set_map_filter intro: fmdomI)

lemma recentToView_newest_first: "sorted_wrt (\<lambda>a b. rv_TSUnixMS b \<le> rv_TSUnixMS a) (recentToView ch src)"
proof -
  have "sorted (map (\<lambda>r. - rv_TSUnixMS r) (recentToView ch src))" by (simp add: recentToView_def)
  then show ?thesis by (simp add: sorted_map)
qed

text \<open>For any clients: each view shows the answer of its own replica.\<close>

lemma Fetch_views:
  assumes "Fetch order ch c w = (v, w')" "P w"
    and "\<And>m w. m \<in> set (vc_members c) \<Longrightarrow> P w \<Longrightarrow> P (snd (st_GetCRDTState (cn_client m) w))"
  obtains states where "P w'" "length (vw_Replicas v) = length (vc_members c)" "length states = length (vc_members c)"
    "vw_Converged v \<longleftrightarrow> (\<exists>st. \<forall>x \<in> set states. x = Some st)"
    "\<And>i. i < length (vc_members c) \<Longrightarrow>
       \<exists>w1. P w1 \<and> replica_view ch (cn_name (vc_members c ! i)) (fst (st_GetCRDTState (cn_client (vc_members c ! i)) w1)) = (vw_Replicas v ! i, states ! i)"
proof -
  let ?f = "\<lambda>m w. case st_GetCRDTState (cn_client m) w of (resp, w') \<Rightarrow> (replica_view ch (cn_name m) resp, w')"
  obtain out where out: "fan_out order ?f (vc_members c) w = (out, w')"
    and v: "v = \<lparr>vw_Converged = converged_from 0 (map snd out) (map snd out), vw_Replicas = map fst out\<rparr>"
    using assms(1) by (auto simp: Fetch_def split: prod.splits)
  have keep: "\<And>m w. m \<in> set (vc_members c) \<Longrightarrow> P w \<Longrightarrow> P (snd (?f m w))" using assms(3) by (simp add: case_prod_beta)
  note inv = fan_out_invariant [OF out assms(2) keep]
  show ?thesis
  proof (rule that [of "map snd out"])
    show "P w'" using inv(1) .
    fix i assume i: "i < length (vc_members c)"
    then obtain w1 where "P w1" "fst (?f (vc_members c ! i) w1) = out ! i" using inv(3) by blast
    then show "\<exists>w1. P w1 \<and> replica_view ch (cn_name (vc_members c ! i)) (fst (st_GetCRDTState (cn_client (vc_members c ! i)) w1))
        = (vw_Replicas v ! i, map snd out ! i)"
      using i inv(2) v by (intro exI [of _ w1]) (simp split: prod.splits)
  qed (use v inv(2) in \<open>simp_all add: converged_iff\<close>)
qed

subsection \<open>On the cluster of replicas\<close>

text \<open>One call over the network: it arrives or not, and its answer arrives or not.\<close>

datatype delivery = Delivered | Request_lost rpc_error | Answer_lost rpc_error

record replica_net =
  rn_cluster :: cluster
  rn_env :: "nat \<Rightarrow> delivery"
  rn_tick :: nat

definition replica_call :: "string \<Rightarrow> (StateServer \<Rightarrow> 'a rpc \<times> StateServer) \<Rightarrow> replica_net \<Rightarrow> 'a rpc \<times> replica_net" where
  "replica_call r h w =
     (let e = rn_env w (rn_tick w); w1 = w\<lparr>rn_tick := Suc (rn_tick w)\<rparr> in
      case (e, servers (rn_cluster w) r) of
        (Request_lost err, _) \<Rightarrow> (Inl err, w1)
      | (_, None) \<Rightarrow> (Inl (RpcError Unavailable ''no replica''), w1)
      | (_, Some s) \<Rightarrow>
          (case h s of (res, s') \<Rightarrow>
            (case e of Answer_lost err \<Rightarrow> Inl err | _ \<Rightarrow> res,
             w1\<lparr>rn_cluster := (rn_cluster w)\<lparr>servers := (servers (rn_cluster w))(r \<mapsto> s')\<rparr>\<rparr>)))"

text \<open>The client of the address where replica \<open>host addr\<close> listens.\<close>

definition replica_client :: "choice \<Rightarrow> (string \<Rightarrow> string) \<Rightarrow> string \<Rightarrow> replica_net state_client" where
  "replica_client ch host addr =
     \<lparr>st_GetCRDTState = replica_call (host addr)
        (\<lambda>s. (Inr (Some (gc_State (GetCRDTState ch s)), gc_GossipEnabled (GetCRDTState ch s)), s)),
      st_SetGossip = (\<lambda>enabled. replica_call (host addr) (\<lambda>s. SetGossip s enabled))\<rparr>"

lemma replica_call_read:
  assumes "\<And>s. snd (h s) = s"
  shows "rn_cluster (snd (replica_call r h w)) = rn_cluster w" "rn_env (snd (replica_call r h w)) = rn_env w"
proof -
  have "(servers (rn_cluster w))(r \<mapsto> snd (h s)) = servers (rn_cluster w)" if "servers (rn_cluster w) r = Some s" for s
    using assms that by auto
  then show "rn_cluster (snd (replica_call r h w)) = rn_cluster w"
    by (auto simp: replica_call_def Let_def split: delivery.splits option.splits prod.splits)
  show "rn_env (snd (replica_call r h w)) = rn_env w"
    by (simp add: replica_call_def Let_def split: delivery.splits option.splits prod.splits)
qed

lemma countersToProto_inj:
  assumes "countersToProto ch m = countersToProto ch' m'"
  shows "m = m'"
proof (rule fmap_eqI)
  fix k
  have "fmlookup (countersToProto ch m) k = fmlookup (countersToProto ch' m') k" by (simp only: assms)
  then show "fmlookup m k = fmlookup m' k" by (cases "fmlookup m k"; cases "fmlookup m' k") auto
qed

lemma snapshot_tables:
  assumes "snapshotLocked ch s = snapshotLocked ch' t"
  shows "sm_byStatus s = sm_byStatus t \<and> sm_byWorker s = sm_byWorker t"
  using assms countersToProto_inj by (auto simp: snapshotLocked_def)

text \<open>The total that a table of the view shows under a key, none being zero; and a view that shows the totals of a replica.\<close>

definition shown_total :: "(string, CounterView) fmap \<Rightarrow> string \<Rightarrow> 64 word" where
  "shown_total t k = (case fmlookup t k of None \<Rightarrow> 0 | Some cv \<Rightarrow> cv_Total cv)"

definition shows_totals :: "choice \<Rightarrow> ReplicaView \<Rightarrow> StateServer \<Rightarrow> bool" where
  "shows_totals ch v s \<longleftrightarrow>
     (\<forall>k. shown_total (rp_ByStatus v) k = GCounter_Value ch (at_or NewGCounter (sm_byStatus s) k)
        \<and> shown_total (rp_ByWorker v) k = GCounter_Value ch (at_or NewGCounter (sm_byWorker s) k))"

lemma fetch_one:
  assumes "replica_view ch name (fst (st_GetCRDTState (replica_client ch' host addr) w)) = (rv, st)"
  shows "(st = None \<and> \<not> rp_Reachable rv)
    \<or> (\<exists>s. servers (rn_cluster w) (host addr) = Some s \<and> st = Some (snapshotLocked ch' s) \<and> rp_Reachable rv \<and> shows_totals ch rv s)"
    and "rn_env w (rn_tick w) = Delivered \<Longrightarrow> servers (rn_cluster w) (host addr) = Some s \<Longrightarrow> st = Some (snapshotLocked ch' s)"
proof -
  have total: "shown_total (countersToView ch (countersToProto ch' m)) k = GCounter_Value ch (at_or NewGCounter m k)" for m k
    by (auto simp: shown_total_def fmlookup_countersToView at_or_def NewGCounter_def GCounter_Value_def split: option.splits)
  show "(st = None \<and> \<not> rp_Reachable rv)
    \<or> (\<exists>s. servers (rn_cluster w) (host addr) = Some s \<and> st = Some (snapshotLocked ch' s) \<and> rp_Reachable rv \<and> shows_totals ch rv s)"
    using assms by (auto simp: replica_view_def replica_client_def replica_call_def GetCRDTState_def
        snapshotLocked_def shows_totals_def total Let_def split: delivery.splits option.splits)
  show "rn_env w (rn_tick w) = Delivered \<Longrightarrow> servers (rn_cluster w) (host addr) = Some s \<Longrightarrow> st = Some (snapshotLocked ch' s)"
    using assms by (auto simp: replica_view_def replica_client_def replica_call_def GetCRDTState_def Let_def)
qed

lemma View_New_members:
  assumes "View_New ch dial addrs = Inr c"
  shows "length (vc_members c) = fcard (fmdom addrs)" "cn_name ` set (vc_members c) = fset (fmdom addrs)"
    "\<forall>m \<in> set (vc_members c). dial (at_or [] addrs (cn_name m)) = Inr (cn_client m)"
proof -
  from assms have c: "connect_all ''crdtview'' ''statemanagers configured (IRONWORK_STATEMANAGERS)'' ch dial addrs = Inr (vc_members c)"
    by (cases "connect_all ''crdtview'' ''statemanagers configured (IRONWORK_STATEMANAGERS)'' ch dial addrs") (auto simp: View_New_def)
  note ms = connect_all_Inr [OF c]
  show "length (vc_members c) = fcard (fmdom addrs)" using arg_cong [OF ms(2), of length] by simp
  show "cn_name ` set (vc_members c) = fset (fmdom addrs)" using ms(4) by simp
  show "\<forall>m \<in> set (vc_members c). dial (at_or [] addrs (cn_name m)) = Inr (cn_client m)" by (rule ms(5))
qed

lemma member_hosts:
  assumes "View_New ch dial addrs = Inr c"
  shows "(\<lambda>i. host (at_or [] addrs (cn_name (vc_members c ! i)))) ` {..< length (vc_members c)}
    = (\<lambda>n. host (at_or [] addrs n)) ` fset (fmdom addrs)"
proof -
  have "fset (fmdom addrs) = (\<lambda>i. cn_name (vc_members c ! i)) ` {..< length (vc_members c)}"
    using View_New_members(2) [OF assms] by (auto simp: set_conv_nth image_iff)
  then show ?thesis by (simp add: image_image)
qed

lemma agreeing_snapshots_total:
  assumes "gossip_inv N c" "finite N" "servers c r0 = Some s" "shows_totals ch v s"
    and "\<And>r s'. servers c r = Some s' \<Longrightarrow> snapshotLocked ch' s' = snapshotLocked ch' s"
  shows "shown_total (rp_ByStatus v) k = of_nat (length (filter (\<lambda>(_, q). rj_Outcome q = k) (accepted c)))
    \<and> shown_total (rp_ByWorker v) k = of_nat (length (filter (\<lambda>(_, q). rj_Worker q = k) (accepted c)))"
proof -
  have "sm_byStatus s' = sm_byStatus s \<and> sm_byWorker s' = sm_byWorker s" if "servers c r = Some s'" for r s'
    by (rule snapshot_tables [OF assms(5) [OF that]])
  from agreeing_totals [OF assms(1-3) this] assms(4) show ?thesis by (simp add: shows_totals_def)
qed

text \<open>Every replica of the cluster is asked once, and shown as it answered.\<close>

lemma Fetch_replicas:
  assumes new: "View_New ch1 (\<lambda>addr. Inr (replica_client ch2 host addr)) addrs = Inr c"
    and fetch: "Fetch order ch c w = (v, w')"
  defines "h \<equiv> \<lambda>i. host (at_or [] addrs (cn_name (vc_members c ! i)))" and "n \<equiv> length (vc_members c)"
  shows "\<exists>states. rn_cluster w' = rn_cluster w \<and> length (vw_Replicas v) = n \<and> length states = n
    \<and> (vw_Converged v \<longleftrightarrow> (\<exists>st. \<forall>x \<in> set states. x = Some st))
    \<and> (\<forall>i < n. (states ! i = None \<and> \<not> rp_Reachable (vw_Replicas v ! i))
      \<or> (\<exists>s. servers (rn_cluster w) (h i) = Some s \<and> states ! i = Some (snapshotLocked ch2 s) \<and> rp_Reachable (vw_Replicas v ! i)
            \<and> shows_totals ch (vw_Replicas v ! i) s))
    \<and> (\<forall>i < n. \<forall>s. (\<forall>i. rn_env w i = Delivered) \<longrightarrow> servers (rn_cluster w) (h i) = Some s \<longrightarrow> states ! i = Some (snapshotLocked ch2 s))"
proof -
  let ?ms = "vc_members c" and ?P = "\<lambda>w1. rn_cluster w1 = rn_cluster w \<and> rn_env w1 = rn_env w"
  have cl: "cn_client m = replica_client ch2 host (at_or [] addrs (cn_name m))" if "m \<in> set ?ms" for m
    using View_New_members(3) [OF new] that by fastforce
  have "?P (snd (st_GetCRDTState (cn_client m) w1))" if "m \<in> set ?ms" "?P w1" for m w1
    using that(2) by (simp add: cl [OF that(1)] replica_client_def replica_call_read)
  from Fetch_views [OF fetch, of ?P, OF _ this] obtain states where w': "?P w'"
    and len: "length (vw_Replicas v) = n" "length states = n"
    and conv: "vw_Converged v \<longleftrightarrow> (\<exists>st. \<forall>x \<in> set states. x = Some st)"
    and each: "\<And>i. i < n \<Longrightarrow> \<exists>w1. ?P w1 \<and> replica_view ch (cn_name (?ms ! i))
       (fst (st_GetCRDTState (cn_client (?ms ! i)) w1)) = (vw_Replicas v ! i, states ! i)" unfolding n_def by blast
  have "\<exists>w1. ?P w1 \<and> replica_view ch (cn_name (?ms ! i)) (fst (st_GetCRDTState
        (replica_client ch2 host (at_or [] addrs (cn_name (?ms ! i)))) w1)) = (vw_Replicas v ! i, states ! i)" if "i < n" for i
    using each [OF that] cl [of "?ms ! i"] that by (simp add: n_def)
  then obtain u where u: "\<And>i. i < n \<Longrightarrow> ?P (u i)" "\<And>i. i < n \<Longrightarrow> replica_view ch (cn_name (?ms ! i)) (fst (st_GetCRDTState
        (replica_client ch2 host (at_or [] addrs (cn_name (?ms ! i)))) (u i))) = (vw_Replicas v ! i, states ! i)" by metis
  show ?thesis
  proof (intro exI [of _ states] conjI allI impI)
    show "rn_cluster w' = rn_cluster w" using w' by blast
    fix i assume i: "i < n"
    note f = fetch_one [OF u(2) [OF i], unfolded conjunct1 [OF u(1) [OF i]] conjunct2 [OF u(1) [OF i]], folded h_def]
    show "(states ! i = None \<and> \<not> rp_Reachable (vw_Replicas v ! i))
      \<or> (\<exists>s. servers (rn_cluster w) (h i) = Some s \<and> states ! i = Some (snapshotLocked ch2 s) \<and> rp_Reachable (vw_Replicas v ! i)
            \<and> shows_totals ch (vw_Replicas v ! i) s)" using f(1) by (simp add: h_def)
    fix s assume "\<forall>i. rn_env w i = Delivered" "servers (rn_cluster w) (h i) = Some s"
    then show "states ! i = Some (snapshotLocked ch2 s)" using f(2) by (simp add: h_def)
  qed (fact len conv)+
qed

subsection \<open>Properties\<close>

text \<open>
  C32 The dashboard over the replicas of a cluster in any reachable state, whatever requests and
  answers get lost, with no report and no gossip while it is fetched: the fetch changes no replica and shows
  one view per configured replica.  When it says CONVERGED, every replica was reached and each one's total for an
  outcome, and for a worker, is the number of such reports accepted anywhere in the cluster.  When
  no call is lost it says so exactly if all replicas hold the same state.
\<close>

theorem Fetch_converged_total:
  assumes reach: "gossip_reach N (rn_cluster w)" "finite N" "length (accepted (rn_cluster w)) < 2 ^ 64"
    and new: "View_New ch1 (\<lambda>addr. Inr (replica_client ch2 host addr)) addrs = Inr c"
    and hosts: "(\<lambda>n. host (at_or [] addrs n)) ` fset (fmdom addrs) = N"
    and fetch: "Fetch order ch c w = (v, w')"
  shows "rn_cluster w' = rn_cluster w \<and> length (vw_Replicas v) = fcard (fmdom addrs)
    \<and> (vw_Converged v \<longrightarrow> (\<forall>rv \<in> set (vw_Replicas v). rp_Reachable rv
         \<and> (\<forall>k. shown_total (rp_ByStatus rv) k = of_nat (length (filter (\<lambda>(_, q). rj_Outcome q = k) (accepted (rn_cluster w))))
              \<and> shown_total (rp_ByWorker rv) k = of_nat (length (filter (\<lambda>(_, q). rj_Worker q = k) (accepted (rn_cluster w)))))))
    \<and> ((\<forall>i. rn_env w i = Delivered) \<longrightarrow>
         (vw_Converged v \<longleftrightarrow> (\<forall>r \<in> N. \<forall>r' \<in> N. map_option (snapshotLocked ch2) (servers (rn_cluster w) r)
              = map_option (snapshotLocked ch2) (servers (rn_cluster w) r'))))"
proof -
  let ?C = "rn_cluster w" and ?n = "length (vc_members c)" and ?h = "\<lambda>i. host (at_or [] addrs (cn_name (vc_members c ! i)))"
  note inv = gossip_reach_inv [OF reach(1,3)]
  note ms = View_New_members [OF new]
  from Fetch_replicas [OF new fetch]
  obtain states where f: "rn_cluster w' = ?C" "length (vw_Replicas v) = ?n" "length states = ?n"
      "vw_Converged v \<longleftrightarrow> (\<exists>st. \<forall>x \<in> set states. x = Some st)"
    and A: "\<forall>i < ?n. (states ! i = None \<and> \<not> rp_Reachable (vw_Replicas v ! i))
      \<or> (\<exists>s. servers ?C (?h i) = Some s \<and> states ! i = Some (snapshotLocked ch2 s) \<and> rp_Reachable (vw_Replicas v ! i)
            \<and> shows_totals ch (vw_Replicas v ! i) s)"
    and B: "\<forall>i < ?n. \<forall>s. (\<forall>i. rn_env w i = Delivered) \<longrightarrow> servers ?C (?h i) = Some s \<longrightarrow> states ! i = Some (snapshotLocked ch2 s)"
    by (elim exE conjE) (rule that)
  note A = A [rule_format] and B = B [rule_format]
  have N: "?h ` {..< ?n} = N" by (rule trans [OF member_hosts [OF new] hosts])
  have ex: "\<exists>s. servers ?C r = Some s" if "r \<in> N" for r using inv that by (auto simp: gossip_inv_def)
  have total: "rp_Reachable (vw_Replicas v ! i)
      \<and> (\<forall>k. shown_total (rp_ByStatus (vw_Replicas v ! i)) k = of_nat (length (filter (\<lambda>(_, q). rj_Outcome q = k) (accepted ?C)))
           \<and> shown_total (rp_ByWorker (vw_Replicas v ! i)) k = of_nat (length (filter (\<lambda>(_, q). rj_Worker q = k) (accepted ?C))))" if st: "\<forall>x \<in> set states. x = Some st" and i: "i < ?n" for st i
  proof -
    have some: "\<exists>s. servers ?C (?h j) = Some s \<and> st = snapshotLocked ch2 s" if "j < ?n" for j
      using A [OF that] st that f(3) by (metis nth_mem option.distinct(1) option.inject)
    obtain s where s: "servers ?C (?h i) = Some s" "rp_Reachable (vw_Replicas v ! i)"
        "shows_totals ch (vw_Replicas v ! i) s"
      using A [OF i] st i f(3) by (metis nth_mem option.distinct(1))
    have "snapshotLocked ch2 s' = snapshotLocked ch2 s" if s': "servers ?C r = Some s'" for r s'
    proof -
      have "r \<in> N" using inv s' by (auto simp: gossip_inv_def)
      then show ?thesis using some some [OF i] s' s(1) N by fastforce
    qed
    then show ?thesis using agreeing_snapshots_total [OF inv reach(2) s(1) s(3), of ch2] s(2) by blast
  qed
  have "vw_Converged v \<longleftrightarrow> (\<forall>r \<in> N. \<forall>r' \<in> N. map_option (snapshotLocked ch2) (servers ?C r) = map_option (snapshotLocked ch2) (servers ?C r'))"
    if env: "\<forall>i. rn_env w i = Delivered"
  proof -
    have st: "states ! i = map_option (snapshotLocked ch2) (servers ?C (?h i))" if "i < ?n" for i
      using ex [of "?h i"] B [OF that] env N that by fastforce
    have "states = map (\<lambda>i. map_option (snapshotLocked ch2) (servers ?C (?h i))) [0..< ?n]"
      by (rule nth_equalityI) (simp_all add: f(3) st)
    then have set: "set states = (\<lambda>r. map_option (snapshotLocked ch2) (servers ?C r)) ` N"
      unfolding N [symmetric] by (simp add: image_image lessThan_atLeast0)
    show ?thesis unfolding f(4) set by (rule all_equal_Some) (use ex in force)
  qed
  then show ?thesis using f total ms(1) by (auto simp: in_set_conv_nth)
qed

text \<open>Two replicas that have exchanged their states: each of them shows the one report.\<close>

definition ex_replicas :: replica_net where
  "ex_replicas = \<lparr>rn_cluster = ex_pair, rn_env = (\<lambda>_. Delivered), rn_tick = 0\<rparr>"

definition ex_view_client :: "(string \<times> string list) + replica_net ViewClient" where
  "ex_view_client = View_New (\<lambda>_. []) (\<lambda>addr. Inr (replica_client (\<lambda>_. []) (\<lambda>addr. addr) addr))
     (fmupd ''b'' ''sm-2'' (fmupd ''a'' ''sm-1'' fmempty))"

theorem Fetch_converged_total_witness:
  "\<exists>c. ex_view_client = Inr c \<and> (case Fetch [] (\<lambda>_. []) c ex_replicas of (v, w') \<Rightarrow>
     vw_Converged v \<and> length (vw_Replicas v) = 2
     \<and> (\<forall>rv \<in> set (vw_Replicas v). shown_total (rp_ByStatus rv) ''succeeded'' = 1 \<and> shown_total (rp_ByWorker rv) ''worker-1'' = 1))"
proof -
  let ?N = "{''sm-1'', ''sm-2''}"
  have "\<not> isl ex_view_client" by code_simp
  then obtain c where c: "ex_view_client = Inr c" by (metis sum.collapse(2))
  obtain v w' where f: "Fetch [] (\<lambda>_. []) c ex_replicas = (v, w')" by fastforce
  have r: "rn_cluster ex_replicas = ex_pair" "\<forall>i. rn_env ex_replicas i = Delivered" by (simp_all add: ex_replicas_def)
  have len: "length (accepted (rn_cluster ex_replicas)) < 2 ^ 64" by (simp add: r ex_pair_def)
  have one: "length (filter (\<lambda>(_, q). rj_Outcome q = ''succeeded'') (accepted ex_pair)) = 1"
    "length (filter (\<lambda>(_, q). rj_Worker q = ''worker-1'') (accepted ex_pair)) = 1"
    by (simp_all add: ex_pair_def ex_req_def)
  have reach: "gossip_reach ?N (rn_cluster ex_replicas)" using ex_pair_reach r by simp
  have hosts: "(\<lambda>n. at_or [] (fmupd ''b'' ''sm-2'' (fmupd ''a'' ''sm-1'' fmempty)) n) ` fset (fmdom (fmupd ''b'' ''sm-2'' (fmupd ''a'' ''sm-1'' fmempty))) = ?N"
    by (auto simp: at_or_def)
  note spec = Fetch_converged_total [OF reach _ len c [unfolded ex_view_client_def] hosts f]
  have "snapshotLocked (\<lambda>_. []) ex_server = snapshotLocked (\<lambda>_. []) ex_server2" by code_simp
  then have "vw_Converged v" using spec r by (simp add: ex_pair_def)
  moreover have "length (vw_Replicas v) = 2" using spec by (simp add: fcard.rep_eq)
  moreover have "shown_total (rp_ByStatus rv) ''succeeded'' = 1 \<and> shown_total (rp_ByWorker rv) ''worker-1'' = 1"
    if "rv \<in> set (vw_Replicas v)" for rv
  proof -
    have "shown_total (rp_ByStatus rv) k = of_nat (length (filter (\<lambda>(_, q). rj_Outcome q = k) (accepted ex_pair)))
        \<and> shown_total (rp_ByWorker rv) k = of_nat (length (filter (\<lambda>(_, q). rj_Worker q = k) (accepted ex_pair)))" for k
      using spec that \<open>vw_Converged v\<close> by (simp add: r)
    from this [of "''succeeded''"] this [of "''worker-1''"] show ?thesis by (simp add: one)
  qed
  ultimately show ?thesis using c f by auto
qed

end
