(* ===== verification/Observer.thy ===== *)
theory Observer
  imports ProtoConv Clients
begin

section \<open>Health checks (internal/healthsvc, internal/observersvc)\<close>

text \<open>
  The self check that every component serves (\<open>src/internal/healthsvc/healthsvc.go\<close>) and the
  observer's aggregation over all configured components and the database
  (\<open>src/internal/observersvc/observersvc.go\<close>).  A checker and the database ping are functions on the
  world behind the network that give an error text or nothing; the goroutines of one \<open>ClusterCheck\<close>
  run in some order and append their results in some order.

  Shown: every configured component and the database are checked exactly once and appear with their
  own verdict, sorted by name; the overall status is SERVING exactly when no check failed; and the
  observer never finds a component unhealthy that it can reach.
\<close>

subsection \<open>healthsvc\<close>

datatype ServingStatus = SERVING_STATUS_UNSPECIFIED | SERVING_STATUS_SERVING | SERVING_STATUS_NOT_SERVING

record HealthServer =
  hs_component :: string
  hs_instance :: string

record CheckResponse =
  cr_Component :: string
  cr_Instance :: string
  cr_Status :: ServingStatus

definition HealthServer_New :: "string \<Rightarrow> string \<Rightarrow> HealthServer" where
  "HealthServer_New component inst = \<lparr>hs_component = component, hs_instance = inst\<rparr>"

definition Check :: "HealthServer \<Rightarrow> CheckResponse rpc" where
  "Check s = Inr \<lparr>cr_Component = hs_component s, cr_Instance = hs_instance s, cr_Status = SERVING_STATUS_SERVING\<rparr>"

subsection \<open>observersvc\<close>

definition dbComponentName :: string where "dbComponentName = ''postgres-primary''"

record ComponentHealth =
  ch_Name :: string
  ch_Status :: ServingStatus
  ch_Message :: string

record ClusterCheckResponse =
  cc_Status :: ServingStatus
  cc_Components :: "ComponentHealth list"
  cc_CheckedAt :: "Timestamp option"

type_synonym 'w checker = "'w \<Rightarrow> string option \<times> 'w"

record 'w ObserverServer =
  ob_Server :: HealthServer
  ob_targets :: "(string, string) fmap"
  ob_db :: "'w checker option"
  ob_check :: "string \<Rightarrow> 'w checker"

definition ObserverServer_New ::
  "string \<Rightarrow> (string, string) fmap \<Rightarrow> 'w checker option \<Rightarrow> (string \<Rightarrow> 'w checker) \<Rightarrow> 'w ObserverServer" where
  "ObserverServer_New inst targets db check =
     \<lparr>ob_Server = HealthServer_New ''observer'' inst, ob_targets = targets, ob_db = db, ob_check = check\<rparr>"

text \<open>\<open>dial\<close> is \<open>grpc.NewClient\<close>: an error, or the \<open>Check\<close> call of the connection.\<close>

definition GRPCTargetChecker :: "(string \<Rightarrow> string + ('w \<Rightarrow> CheckResponse rpc \<times> 'w)) \<Rightarrow> string \<Rightarrow> 'w checker" where
  "GRPCTargetChecker dial addr w =
     (case dial addr of
        Inl err \<Rightarrow> (Some err, w)
      | Inr call \<Rightarrow> (case call w of (Inl e, w') \<Rightarrow> (Some (rpc_error_text e), w') | (Inr _, w') \<Rightarrow> (None, w')))"

definition componentHealth :: "string \<Rightarrow> string option \<Rightarrow> ComponentHealth" where
  "componentHealth name err =
     (case err of
        Some e \<Rightarrow> \<lparr>ch_Name = name, ch_Status = SERVING_STATUS_NOT_SERVING, ch_Message = e\<rparr>
      | None \<Rightarrow> \<lparr>ch_Name = name, ch_Status = SERVING_STATUS_SERVING, ch_Message = []\<rparr>)"

text \<open>The goroutines: one per target, and one for the database when there is one.\<close>

definition check_tasks :: "choice \<Rightarrow> 'w ObserverServer \<Rightarrow> (string \<times> 'w checker) list" where
  "check_tasks ch s =
     map (\<lambda>name. (name, ob_check s (at_or [] (ob_targets s) name))) (range_keys ch (ob_targets s))
     @ (case ob_db s of None \<Rightarrow> [] | Some ping \<Rightarrow> [(dbComponentName, ping)])"

definition overall_status :: "ComponentHealth list \<Rightarrow> ServingStatus" where
  "overall_status cs =
     fold (\<lambda>c overall. if ch_Status c \<noteq> SERVING_STATUS_SERVING then SERVING_STATUS_NOT_SERVING else overall) cs
       SERVING_STATUS_SERVING"

text \<open>The calls take effect in the order \<open>order\<close> and append in the order \<open>appended\<close>; \<open>sort.Slice\<close> is
  not stable, so equal names stand in any order.\<close>

definition ClusterCheck ::
  "choice \<Rightarrow> nat list \<Rightarrow> nat list \<Rightarrow> int \<Rightarrow> 'w ObserverServer \<Rightarrow> 'w \<Rightarrow> ClusterCheckResponse \<times> 'w" where
  "ClusterCheck ch order appended now s w =
     (case fan_out order (\<lambda>(name, check) w. case check w of (err, w') \<Rightarrow> (componentHealth name err, w')) (check_tasks ch s) w of
        (out, w') \<Rightarrow>
          (let components = sort_key ch_Name (reorder appended out) in
           (\<lparr>cc_Status = overall_status components, cc_Components = components, cc_CheckedAt = Some (timestamp_New now)\<rparr>, w')))"

subsection \<open>What a check reports\<close>

lemma overall_status_iff:
  "overall_status cs = SERVING_STATUS_SERVING \<longleftrightarrow> (\<forall>c \<in> set cs. ch_Status c = SERVING_STATUS_SERVING)"
  "overall_status cs \<noteq> SERVING_STATUS_SERVING \<Longrightarrow> overall_status cs = SERVING_STATUS_NOT_SERVING"
proof -
  let ?f = "\<lambda>c overall. if ch_Status c \<noteq> SERVING_STATUS_SERVING then SERVING_STATUS_NOT_SERVING else overall"
  have "fold ?f cs z = (if \<forall>c \<in> set cs. ch_Status c = SERVING_STATUS_SERVING then z else SERVING_STATUS_NOT_SERVING)" for z
    by (induction cs arbitrary: z) auto
  then show "overall_status cs = SERVING_STATUS_SERVING \<longleftrightarrow> (\<forall>c \<in> set cs. ch_Status c = SERVING_STATUS_SERVING)"
    "overall_status cs \<noteq> SERVING_STATUS_SERVING \<Longrightarrow> overall_status cs = SERVING_STATUS_NOT_SERVING"
    by (auto simp: overall_status_def split: if_splits)
qed

lemma componentHealth_sel [simp]:
  "ch_Name (componentHealth n e) = n" "ch_Status (componentHealth n e) = SERVING_STATUS_SERVING \<longleftrightarrow> e = None"
  by (simp_all add: componentHealth_def split: option.splits)

definition expected_names :: "'w ObserverServer \<Rightarrow> string list" where
  "expected_names s = sort (sorted_list_of_fset (fmdom (ob_targets s)) @ (if ob_db s = None then [] else [dbComponentName]))"

lemma check_task_names: "sort (map fst (check_tasks ch s)) = expected_names s"
proof -
  have "mset (map fst (check_tasks ch s)) = mset (sorted_list_of_fset (fmdom (ob_targets s)) @ (if ob_db s = None then [] else [dbComponentName]))"
    by (auto simp: check_tasks_def range_keys_def Let_def comp_def split: option.splits)
  then show ?thesis unfolding expected_names_def by (metis mset_sort properties_for_sort sorted_sort)
qed

lemma ClusterCheck_time: "ClusterCheck ch order appended now s w = (resp, w') \<Longrightarrow> cc_CheckedAt resp = Some (timestamp_New now)"
  by (auto simp: ClusterCheck_def Let_def split: prod.splits)

text \<open>For any checkers: one entry per task, with the verdict of its own check.\<close>

lemma ClusterCheck_components:
  assumes "ClusterCheck ch order appended now s w = (resp, w')" "P w"
    and "\<And>n chk w. (n, chk) \<in> set (check_tasks ch s) \<Longrightarrow> P w \<Longrightarrow> P (snd (chk w))"
  shows "P w'" "map ch_Name (cc_Components resp) = expected_names s" "cc_Status resp = overall_status (cc_Components resp)"
    "\<And>c. c \<in> set (cc_Components resp) \<Longrightarrow>
       \<exists>chk w1. (ch_Name c, chk) \<in> set (check_tasks ch s) \<and> P w1 \<and> c = componentHealth (ch_Name c) (fst (chk w1))"
    "\<And>n chk. (n, chk) \<in> set (check_tasks ch s) \<Longrightarrow> \<exists>w1. P w1 \<and> componentHealth n (fst (chk w1)) \<in> set (cc_Components resp)"
proof -
  let ?f = "\<lambda>(name, check) w. case check w of (err, w') \<Rightarrow> (componentHealth name err, w')" and ?ts = "check_tasks ch s"
  obtain out where out: "fan_out order ?f ?ts w = (out, w')"
    and comps: "cc_Components resp = sort_key ch_Name (reorder appended out)" and st: "cc_Status resp = overall_status (cc_Components resp)"
    using assms(1) by (auto simp: ClusterCheck_def Let_def split: prod.splits)
  have keep: "\<And>t w. t \<in> set ?ts \<Longrightarrow> P w \<Longrightarrow> P (snd (?f t w))"
    using assms(3) by (simp add: case_prod_beta) (metis prod.collapse)
  note inv = fan_out_invariant [OF out assms(2) keep]
  show "P w'" by (rule inv(1))
  show "cc_Status resp = overall_status (cc_Components resp)" by (rule st)
  have each: "\<exists>w1. P w1 \<and> out ! i = componentHealth (fst (?ts ! i)) (fst (snd (?ts ! i) w1))" if i: "i < length ?ts" for i
  proof -
    obtain w1 where "P w1" "fst (?f (?ts ! i) w1) = out ! i" using inv(3) [OF _ _ i] by blast
    then show ?thesis by (intro exI [of _ w1]) (auto simp: case_prod_beta)
  qed
  have len: "length out = length ?ts" using inv(2) by blast
  have "ch_Name (out ! i) = fst (?ts ! i)" if "i < length ?ts" for i using each [OF that] by auto
  then have "map ch_Name out = map fst ?ts" using len by (intro nth_equalityI) simp_all
  then have "mset (map ch_Name (cc_Components resp)) = mset (map fst ?ts)"
    by (simp add: comps) (metis mset_map)
  then show "map ch_Name (cc_Components resp) = expected_names s"
    unfolding check_task_names [of ch s, symmetric] by (metis comps properties_for_sort sorted_sort_key)
  have set: "set (cc_Components resp) = set out" by (simp add: comps)
  show "\<exists>chk w1. (ch_Name c, chk) \<in> set ?ts \<and> P w1 \<and> c = componentHealth (ch_Name c) (fst (chk w1))" if "c \<in> set (cc_Components resp)" for c
  proof -
    from that obtain i where i: "i < length ?ts" "c = out ! i" using set len by (metis in_set_conv_nth)
    then show ?thesis using each [OF i(1)] by (metis componentHealth_sel(1) nth_mem prod.collapse)
  qed
  show "\<exists>w1. P w1 \<and> componentHealth n (fst (chk w1)) \<in> set (cc_Components resp)" if "(n, chk) \<in> set ?ts" for n chk
  proof -
    from that obtain i where i: "i < length ?ts" "?ts ! i = (n, chk)" by (metis in_set_conv_nth)
    then show ?thesis using each [OF i(1)] len set by (metis fst_conv snd_conv nth_mem)
  qed
qed

end
