(* ===== verification/Gateway.thy ===== *)
theory Gateway
  imports Submission CrdtView Observer Json
begin

section \<open>The REST edge (internal/gatewayhttp)\<close>

text \<open>
  The handlers of the gateway (\<open>src/internal/gatewayhttp/gatewayhttp.go\<close>).  A handler is a function of
  the request and of the world behind its collaborators; its response is the status code, the
  headers it sets and the value it encodes.  The collaborators (\<open>Deps\<close>) are functions on that world.
  What \<open>net/http\<close> and the router library take from the URL (path parameter, query values) are fields
  of the request; the encoding of a response value as JSON text is not modelled.  The request body
  is: it is cut at \<open>maxBodyBytes\<close>, and its first JSON value is decoded as \<open>encoding/json\<close> does.
  \<open>jerr\<close> is the text of a decoding error and \<open>uuid_Parse\<close> the uuid library's verdict.
\<close>

subsection \<open>Requests and responses\<close>

definition maxBodyBytes :: nat where "maxBodyBytes = 1048576"
definition gatewayDefaultLimit :: int where "gatewayDefaultLimit = 50"
definition gatewayMaxLimit :: int where "gatewayMaxLimit = 200"

record jobJSON =
  jj_ID :: string
  jj_Name :: string
  jj_Status :: string
  jj_AssignedWorker :: string
  jj_Attempts :: "32 word"
  jj_Error :: string
  jj_CreatedAt :: int
  jj_UpdatedAt :: int
  jj_StartedAt :: "int option"
  jj_FinishedAt :: "int option"
  jj_Payload :: string

record nodeWorkers =
  nw_Name :: string
  nw_Reachable :: bool
  nw_Error :: string
  nw_Workers :: "WorkerView list"

record componentHealthJSON =
  hj_Name :: string
  hj_Status :: string
  hj_Message :: string

record healthResponse =
  hr_Status :: string
  hr_CheckedAt :: int
  hr_Components :: "componentHealthJSON list"
  hr_Error :: string

datatype body =
    ErrorBody string
  | JobBody jobJSON
  | JobsBody "jobJSON list"
  | RaftBody string "NodeStatus list"
  | WorkersBody "nodeWorkers list"
  | OutboxBody GetOutboxStatsResponse
  | CRDTBody View
  | GossipBody bool
  | HealthBody healthResponse
  | TextBody string
  | DashboardBody

record response =
  rs_Code :: nat
  rs_Location :: "string option"
  rs_ContentType :: string
  rs_Body :: body

record http_request =
  rq_Body :: string
  rq_Id :: string
  rq_Status :: string
  rq_Limit :: string

record 'w Deps =
  d_ClusterCheck :: "'w \<Rightarrow> ClusterCheckResponse rpc \<times> 'w"
  d_SubmitJob :: "SubmitJobRequest \<Rightarrow> 'w \<Rightarrow> PJob rpc \<times> 'w"
  d_GetJob :: "string \<Rightarrow> 'w \<Rightarrow> PJob rpc \<times> 'w"
  d_ListJobs :: "ListJobsRequest \<Rightarrow> 'w \<Rightarrow> PJob list rpc \<times> 'w"
  d_GetOutboxStats :: "'w \<Rightarrow> GetOutboxStatsResponse rpc \<times> 'w"
  d_RaftStatus :: "'w \<Rightarrow> NodeStatus list \<times> 'w"
  d_Fetch :: "'w \<Rightarrow> View \<times> 'w"
  d_SetGossip :: "bool \<Rightarrow> 'w \<Rightarrow> string option \<times> 'w"

definition writeJSON :: "nat \<Rightarrow> body \<Rightarrow> response" where
  "writeJSON code b = \<lparr>rs_Code = code, rs_Location = None, rs_ContentType = ''application/json'', rs_Body = b\<rparr>"

definition writeError :: "nat \<Rightarrow> string \<Rightarrow> response" where
  "writeError code msg = writeJSON code (ErrorBody msg)"

text \<open>\<open>json.Valid\<close> decides whether the stored payload is passed on.\<close>

definition renderJob :: "choice \<Rightarrow> PJob \<Rightarrow> jobJSON" where
  "renderJob ch j =
     \<lparr>jj_ID = pj_Id j, jj_Name = pj_Name j, jj_Status = StatusFromProto ch (pj_Status j),
      jj_AssignedWorker = pj_AssignedWorkerId j, jj_Attempts = pj_Attempts j, jj_Error = pj_Error j,
      jj_CreatedAt = AsTime (pj_CreatedAt j), jj_UpdatedAt = AsTime (pj_UpdatedAt j),
      jj_StartedAt = map_option (\<lambda>t. AsTime (Some t)) (pj_StartedAt j),
      jj_FinishedAt = map_option (\<lambda>t. AsTime (Some t)) (pj_FinishedAt j),
      jj_Payload = (if json_text (pj_Payload j) \<noteq> None then pj_Payload j else [])\<rparr>"

definition validStatuses :: "(string, bool) fmap" where
  "validStatuses = fmap_of_list [(StatusPending, True), (StatusScheduled, True), (StatusRunning, True),
     (StatusSucceeded, True), (StatusFailed, True)]"

definition writeRPCError :: "rpc_error \<Rightarrow> response" where
  "writeRPCError err =
     (case err_code err of
        InvalidArgument \<Rightarrow> writeError 400 (err_msg err)
      | NotFound \<Rightarrow> writeError 404 (err_msg err)
      | _ \<Rightarrow> writeError 502 (''scheduler unavailable: '' @ err_msg err))"

subsection \<open>The job handlers\<close>

record create_body =
  cb_Name :: string
  cb_Payload :: string

definition create_field :: "string \<Rightarrow> string \<Rightarrow> json \<Rightarrow> create_body \<Rightarrow> create_body option" where
  "create_field k raw v b =
     (if k = ''NAME'' then map_option (\<lambda>s. b\<lparr>cb_Name := s\<rparr>) (decode_string v (cb_Name b))
      else if k = ''PAYLOAD'' then Some (b\<lparr>cb_Payload := raw\<rparr>)
      else Some b)"

text \<open>
  The decoder reads through \<open>http.MaxBytesReader\<close>.  An object or array is complete at its closing
  bracket; the end of any other value shows only at the next byte or the end of the body, so one that
  fills the limit of a longer body is an error.
\<close>

definition decode_create :: "string \<Rightarrow> create_body option" where
  "decode_create raw =
     (case json_first (take maxBodyBytes raw) of
        None \<Rightarrow> None
      | Some (v, rest) \<Rightarrow>
          if (case v of JObj _ \<Rightarrow> False | JArr _ \<Rightarrow> False | _ \<Rightarrow> True) \<and> rest = [] \<and> length raw > maxBodyBytes then None
          else decode_struct create_field v \<lparr>cb_Name = [], cb_Payload = []\<rparr>)"

definition handleCreateJob :: "choice \<Rightarrow> (string \<Rightarrow> string) \<Rightarrow> 'w Deps \<Rightarrow> http_request \<Rightarrow> 'w \<Rightarrow> response \<times> 'w" where
  "handleCreateJob ch jerr d req w =
     (case decode_create (rq_Body req) of
        None \<Rightarrow> (writeError 400 (''invalid JSON body: '' @ jerr (rq_Body req)), w)
      | Some b \<Rightarrow>
          (case d_SubmitJob d \<lparr>sr_Name = cb_Name b, sr_Payload = cb_Payload b\<rparr> w of
             (Inl err, w') \<Rightarrow> (writeRPCError err, w')
           | (Inr job, w') \<Rightarrow> ((writeJSON 201 (JobBody (renderJob ch job)))\<lparr>rs_Location := Some (''/jobs/'' @ pj_Id job)\<rparr>, w')))"

definition handleGetJob :: "choice \<Rightarrow> (string \<Rightarrow> bool) \<Rightarrow> 'w Deps \<Rightarrow> http_request \<Rightarrow> 'w \<Rightarrow> response \<times> 'w" where
  "handleGetJob ch uuid_Parse d req w =
     (if \<not> uuid_Parse (rq_Id req) then (writeError 400 ''id must be a UUID'', w)
      else (case d_GetJob d (rq_Id req) w of
              (Inl err, w') \<Rightarrow> (writeRPCError err, w')
            | (Inr job, w') \<Rightarrow> (writeJSON 200 (JobBody (renderJob ch job)), w')))"

text \<open>The limit of a listing; \<open>strconv.Atoi\<close> is \<open>ParseInt\<close> on 64 bits.\<close>

definition list_limit :: "string \<Rightarrow> int option" where
  "list_limit raw =
     map_option (\<lambda>limit. if limit < 1 \<or> limit > gatewayMaxLimit then gatewayDefaultLimit else limit)
       (if raw \<noteq> [] then ParseInt raw else Some gatewayDefaultLimit)"

definition handleListJobs :: "choice \<Rightarrow> 'w Deps \<Rightarrow> http_request \<Rightarrow> 'w \<Rightarrow> response \<times> 'w" where
  "handleListJobs ch d req w =
     (if rq_Status req \<noteq> [] \<and> \<not> at_or False validStatuses (rq_Status req) then (writeError 400 ''unknown status filter'', w)
      else (case list_limit (rq_Limit req) of
              None \<Rightarrow> (writeError 400 ''limit must be an integer'', w)
            | Some limit \<Rightarrow>
                (case d_ListJobs d \<lparr>lr_StatusFilter = StatusToProto (rq_Status req), lr_PageSize = word_of_int limit\<rparr> w of
                   (Inl err, w') \<Rightarrow> (writeRPCError err, w')
                 | (Inr js, w') \<Rightarrow> (writeJSON 200 (JobsBody (map (renderJob ch) js)), w'))))"

subsection \<open>The cluster handlers\<close>

definition count_votes :: "NodeStatus list \<Rightarrow> (string, nat) fmap" where
  "count_votes nodes =
     fold (\<lambda>n votes. if ns_Reachable n \<and> ns_LeaderID n \<noteq> [] then fmupd (ns_LeaderID n) (at_or 0 votes (ns_LeaderID n) + 1) votes else votes)
       nodes fmempty"

definition elect :: "choice \<Rightarrow> NodeStatus list \<Rightarrow> string" where
  "elect ch nodes =
     (let votes = count_votes nodes in
      fold (\<lambda>i leader. if at_or 0 votes i > length nodes div 2 then i else leader) (range_keys ch votes) [])"

definition handleRaft :: "choice \<Rightarrow> 'w Deps \<Rightarrow> 'w \<Rightarrow> response \<times> 'w" where
  "handleRaft ch d w = (case d_RaftStatus d w of (nodes, w') \<Rightarrow> (writeJSON 200 (RaftBody (elect ch nodes) nodes), w'))"

definition handleWorkers :: "'w Deps \<Rightarrow> 'w \<Rightarrow> response \<times> 'w" where
  "handleWorkers d w =
     (case d_RaftStatus d w of
        (nodes, w') \<Rightarrow>
          (writeJSON 200 (WorkersBody (map (\<lambda>n. \<lparr>nw_Name = ns_Name n, nw_Reachable = ns_Reachable n, nw_Error = ns_Error n,
             nw_Workers = ns_Workers n\<rparr>) nodes)), w'))"

definition handleOutbox :: "'w Deps \<Rightarrow> 'w \<Rightarrow> response \<times> 'w" where
  "handleOutbox d w =
     (case d_GetOutboxStats d w of
        (Inl err, w') \<Rightarrow> (writeRPCError err, w')
      | (Inr resp, w') \<Rightarrow> (writeJSON 200 (OutboxBody resp), w'))"

definition handleCRDTState :: "'w Deps \<Rightarrow> 'w \<Rightarrow> response \<times> 'w" where
  "handleCRDTState d w = (case d_Fetch d w of (v, w') \<Rightarrow> (writeJSON 200 (CRDTBody v), w'))"

definition handleSetGossip :: "bool \<Rightarrow> 'w Deps \<Rightarrow> 'w \<Rightarrow> response \<times> 'w" where
  "handleSetGossip enabled d w =
     (case d_SetGossip d enabled w of
        (Some err, w') \<Rightarrow> (writeError 502 err, w')
      | (None, w') \<Rightarrow> (writeJSON 200 (GossipBody enabled), w'))"

fun statusString :: "ServingStatus \<Rightarrow> string" where
  "statusString SERVING_STATUS_SERVING = ''SERVING''"
| "statusString SERVING_STATUS_NOT_SERVING = ''NOT_SERVING''"
| "statusString SERVING_STATUS_UNSPECIFIED = ''UNKNOWN''"

definition health_entry :: "ComponentHealth \<Rightarrow> componentHealthJSON" where
  "health_entry c = \<lparr>hj_Name = ch_Name c, hj_Status = statusString (ch_Status c), hj_Message = ch_Message c\<rparr>"

definition handleHealth :: "int \<Rightarrow> 'w Deps \<Rightarrow> 'w \<Rightarrow> response \<times> 'w" where
  "handleHealth now d w =
     (case d_ClusterCheck d w of
        (Inl err, w') \<Rightarrow>
          (writeJSON 502 (HealthBody \<lparr>hr_Status = ''UNREACHABLE'', hr_CheckedAt = now, hr_Components = [], hr_Error = rpc_error_text err\<rparr>), w')
      | (Inr resp, w') \<Rightarrow>
          (writeJSON (if cc_Status resp \<noteq> SERVING_STATUS_SERVING then 503 else 200)
             (HealthBody \<lparr>hr_Status = statusString (cc_Status resp), hr_CheckedAt = AsTime (cc_CheckedAt resp),
               hr_Components = map health_entry (cc_Components resp),
               hr_Error = []\<rparr>), w'))"

text \<open>The routes that \<open>NewRouter\<close> registers: method, pattern, handler.\<close>

datatype endpoint =
    Healthz | Health | Raft | Workers | Dashboard | CRDT_state | CRDT_partition | CRDT_heal | Outbox
  | Jobs_create | Jobs_list | Jobs_get

definition NewRouter :: "(string \<times> string \<times> endpoint) list" where
  "NewRouter =
     [(''GET'', ''/healthz'', Healthz), (''GET'', ''/health'', Health), (''GET'', ''/raft'', Raft),
      (''GET'', ''/workers'', Workers), (''GET'', ''/crdt'', Dashboard), (''GET'', ''/crdt/state'', CRDT_state),
      (''POST'', ''/crdt/partition'', CRDT_partition), (''POST'', ''/crdt/heal'', CRDT_heal),
      (''GET'', ''/outbox'', Outbox), (''POST'', ''/jobs/'', Jobs_create), (''GET'', ''/jobs/'', Jobs_list),
      (''GET'', ''/jobs/{id}'', Jobs_get)]"

fun serve_endpoint :: "endpoint \<Rightarrow> choice \<Rightarrow> (string \<Rightarrow> string) \<Rightarrow> (string \<Rightarrow> bool) \<Rightarrow> int \<Rightarrow> 'w Deps \<Rightarrow> http_request \<Rightarrow> 'w \<Rightarrow> response \<times> 'w" where
  "serve_endpoint Healthz ch jerr u now d req w = (\<lparr>rs_Code = 200, rs_Location = None, rs_ContentType = [], rs_Body = TextBody (''ok'' @ [CHR 0x0A])\<rparr>, w)"
| "serve_endpoint Health ch jerr u now d req w = handleHealth now d w"
| "serve_endpoint Raft ch jerr u now d req w = handleRaft ch d w"
| "serve_endpoint Workers ch jerr u now d req w = handleWorkers d w"
| "serve_endpoint Dashboard ch jerr u now d req w = (\<lparr>rs_Code = 200, rs_Location = None, rs_ContentType = ''text/html; charset=utf-8'', rs_Body = DashboardBody\<rparr>, w)"
| "serve_endpoint CRDT_state ch jerr u now d req w = handleCRDTState d w"
| "serve_endpoint CRDT_partition ch jerr u now d req w = handleSetGossip False d w"
| "serve_endpoint CRDT_heal ch jerr u now d req w = handleSetGossip True d w"
| "serve_endpoint Outbox ch jerr u now d req w = handleOutbox d w"
| "serve_endpoint Jobs_create ch jerr u now d req w = handleCreateJob ch jerr d req w"
| "serve_endpoint Jobs_list ch jerr u now d req w = handleListJobs ch d req w"
| "serve_endpoint Jobs_get ch jerr u now d req w = handleGetJob ch u d req w"

subsection \<open>The leader on display\<close>

definition supporters :: "NodeStatus list \<Rightarrow> string \<Rightarrow> nat" where
  "supporters nodes i = length (filter (\<lambda>n. ns_Reachable n \<and> ns_LeaderID n = i) nodes)"

lemma count_votes: "i \<noteq> [] \<Longrightarrow> at_or 0 (count_votes nodes) i = supporters nodes i"
  and count_votes_dom: "i |\<in>| fmdom (count_votes nodes) \<longleftrightarrow> i \<noteq> [] \<and> 0 < supporters nodes i"
proof -
  let ?f = "\<lambda>n votes. if ns_Reachable n \<and> ns_LeaderID n \<noteq> [] then fmupd (ns_LeaderID n) (at_or 0 votes (ns_LeaderID n) + 1) votes else votes"
  have "at_or 0 (fold ?f nodes m) i = at_or 0 m i + supporters nodes i" if "i \<noteq> []" for m
    using that by (induction nodes arbitrary: m) (auto simp: supporters_def)
  then show "i \<noteq> [] \<Longrightarrow> at_or 0 (count_votes nodes) i = supporters nodes i" by (simp add: count_votes_def)
  have "i |\<in>| fmdom (fold ?f nodes m) \<longleftrightarrow> i |\<in>| fmdom m \<or> i \<noteq> [] \<and> 0 < supporters nodes i" for m
    by (induction nodes arbitrary: m) (auto simp: supporters_def)
  from this [of fmempty] show "i |\<in>| fmdom (count_votes nodes) \<longleftrightarrow> i \<noteq> [] \<and> 0 < supporters nodes i" by (simp add: count_votes_def)
qed

lemma supporters_disjoint: "i \<noteq> j \<Longrightarrow> supporters nodes i + supporters nodes j \<le> length nodes"
  by (induction nodes) (auto simp: supporters_def)

text \<open>At most one id has more than half of the nodes, so the loop finds it in every order.\<close>

lemma fold_pick:
  fixes z :: 'a and P :: "'a \<Rightarrow> bool"
  defines "x \<equiv> \<lambda>ks. fold (\<lambda>i l. if P i then i else l) ks z"
  shows "if \<exists>i \<in> set ks. P i then x ks \<in> set ks \<and> P (x ks) else x ks = z"
  unfolding x_def by (induction ks rule: rev_induct) auto

lemma elect_majority:
  assumes "l \<noteq> []"
  shows "elect ch nodes = l \<longleftrightarrow> length nodes < 2 * supporters nodes l"
proof -
  let ?P = "\<lambda>i. at_or 0 (count_votes nodes) i > length nodes div 2" and ?ks = "range_keys ch (count_votes nodes)"
  have P: "?P i \<longleftrightarrow> length nodes < 2 * supporters nodes i" if "i \<in> set ?ks" for i
    using that by (auto simp: count_votes count_votes_dom)
  have one: "i = l" if "i \<in> set ?ks" "?P i" "length nodes < 2 * supporters nodes l" for i
    using that P supporters_disjoint [of i l nodes] by force
  have el: "elect ch nodes = fold (\<lambda>i l. if ?P i then i else l) ?ks []" by (simp add: elect_def Let_def)
  have pick: "if \<exists>i \<in> set ?ks. ?P i then elect ch nodes \<in> set ?ks \<and> ?P (elect ch nodes) else elect ch nodes = []"
    unfolding el by (rule fold_pick)
  show ?thesis
  proof
    assume e: "elect ch nodes = l"
    then have "\<exists>i \<in> set ?ks. ?P i" using pick assms by metis
    then have "l \<in> set ?ks \<and> ?P l" using pick e by simp
    then show "length nodes < 2 * supporters nodes l" using P by blast
  next
    assume m: "length nodes < 2 * supporters nodes l"
    then have "l \<in> set ?ks" using assms by (simp add: count_votes_dom)
    then have "\<exists>i \<in> set ?ks. ?P i" using P m by blast
    then show "elect ch nodes = l" using pick one m by metis
  qed
qed

lemma RaftStatus_names:
  assumes "Router_RaftStatus order r w = (nodes, w')"
  shows "map ns_Name nodes = map cn_name (rt_members r)"
proof -
  let ?f = "\<lambda>m w. case sc_states (cn_client m) w of (resp, w') \<Rightarrow> (node_status (cn_name m) resp, w')"
  have name: "ns_Name (fst (?f m w)) = cn_name m" for m w
    by (simp add: node_status_def Let_def split: sum.splits prod.splits)
  note f = fan_out_invariant [OF assms [unfolded Router_RaftStatus_def], of "\<lambda>_. True", OF TrueI TrueI]
  show ?thesis
  proof (rule nth_equalityI)
    show "length (map ns_Name nodes) = length (map cn_name (rt_members r))" using f(2) by simp
    fix i assume "i < length (map ns_Name nodes)"
    then have i: "i < length (rt_members r)" "i < length nodes" using f(2) by simp_all
    from f(3) [OF i(1)] obtain w1 where "fst (?f (rt_members r ! i) w1) = nodes ! i" by blast
    then show "map ns_Name nodes ! i = map cn_name (rt_members r) ! i" using name i by (metis nth_map)
  qed
qed

subsection \<open>Properties\<close>

text \<open>
  C33 \<open>GET /raft\<close>: it lists one entry per configured scheduler, and names as leader exactly the id
  that more than half of all configured schedulers (the unreachable ones counted) report; with no such
  id it is empty.  It does not depend on the order in which the votes are visited.
\<close>

theorem raft_majority_leader:
  assumes "Router_RaftStatus order r w = (nodes, w')"
  shows "\<exists>leader. handleRaft ch (d\<lparr>d_RaftStatus := Router_RaftStatus order r\<rparr>) w = (writeJSON 200 (RaftBody leader nodes), w')
    \<and> map ns_Name nodes = map cn_name (rt_members r)
    \<and> (\<forall>l. l \<noteq> [] \<longrightarrow> (leader = l \<longleftrightarrow> length (rt_members r) < 2 * supporters nodes l))"
proof (intro exI [of _ "elect ch nodes"] conjI allI impI)
  show "handleRaft ch (d\<lparr>d_RaftStatus := Router_RaftStatus order r\<rparr>) w = (writeJSON 200 (RaftBody (elect ch nodes) nodes), w')"
    using assms by (simp add: handleRaft_def)
  show names: "map ns_Name nodes = map cn_name (rt_members r)" by (rule RaftStatus_names [OF assms])
  have "length (rt_members r) = length nodes" using arg_cong [OF names, of length] by simp
  then show "(elect ch nodes = l) = (length (rt_members r) < 2 * supporters nodes l)" if "l \<noteq> []" for l
    by (simp add: elect_majority [OF that])
qed

definition ex_node :: "string \<Rightarrow> ClusterState option rpc \<Rightarrow> unit scheduler_client conn" where
  "ex_node name resp = \<lparr>cn_name = name,
     cn_client = \<lparr>sc_jobs = \<lparr>jc_SubmitJob = (\<lambda>_ w. (Inl (RpcError Unavailable []), w)), jc_GetJob = (\<lambda>_ w. (Inl (RpcError Unavailable []), w)),
        jc_ListJobs = (\<lambda>_ w. (Inl (RpcError Unavailable []), w)), jc_GetOutboxStats = (\<lambda>w. (Inl (RpcError Unavailable []), w))\<rparr>,
        sc_states = (\<lambda>w. (resp, w))\<rparr>, cn_close = None\<rparr>"

definition ex_follows :: "string \<Rightarrow> ClusterState option rpc" where
  "ex_follows l = Inr (Some \<lparr>cs_ReportingNode = [], cs_AsOf = None, cs_Raft = Some (zero_raft\<lparr>rs_LeaderId := l\<rparr>), cs_Workers = []\<rparr>)"

definition ex_trio :: "unit Router" where
  "ex_trio = \<lparr>rt_members = [ex_node ''s1'' (ex_follows ''s1''), ex_node ''s2'' (Inl (RpcError Unavailable ''down'')),
     ex_node ''s3'' (ex_follows ''s1'')], rt_leader = 0\<rparr>"

text \<open>Collaborators that are all unreachable.\<close>

definition no_deps :: "'w Deps" where
  "no_deps = \<lparr>d_ClusterCheck = (\<lambda>w. (Inl (RpcError Unavailable []), w)), d_SubmitJob = (\<lambda>_ w. (Inl (RpcError Unavailable []), w)),
     d_GetJob = (\<lambda>_ w. (Inl (RpcError Unavailable []), w)), d_ListJobs = (\<lambda>_ w. (Inl (RpcError Unavailable []), w)),
     d_GetOutboxStats = (\<lambda>w. (Inl (RpcError Unavailable []), w)), d_RaftStatus = (\<lambda>w. ([], w)),
     d_Fetch = (\<lambda>w. (\<lparr>vw_Converged = True, vw_Replicas = []\<rparr>, w)), d_SetGossip = (\<lambda>_ w. (Some [], w))\<rparr>"

theorem raft_majority_leader_witness:
  "\<exists>nodes. handleRaft (\<lambda>_. []) (no_deps\<lparr>d_RaftStatus := Router_RaftStatus [] ex_trio\<rparr>) () = (writeJSON 200 (RaftBody ''s1'' nodes), ())
     \<and> map ns_Name nodes = [''s1'', ''s2'', ''s3'']"
proof -
  obtain nodes where n: "Router_RaftStatus [] ex_trio () = (nodes, ())"
    by (cases "Router_RaftStatus [] ex_trio ()") auto
  have names: "map ns_Name (fst (Router_RaftStatus [] ex_trio ())) = [''s1'', ''s2'', ''s3'']" by code_simp
  have "supporters (fst (Router_RaftStatus [] ex_trio ())) ''s1'' = 2" by code_simp
  then have s: "supporters nodes ''s1'' = 2" using n by simp
  have len: "length (rt_members ex_trio) = 3" by (simp add: ex_trio_def)
  from raft_majority_leader [OF n, of "\<lambda>_. []" no_deps] obtain leader where
    l: "handleRaft (\<lambda>_. []) (no_deps\<lparr>d_RaftStatus := Router_RaftStatus [] ex_trio\<rparr>) () = (writeJSON 200 (RaftBody leader nodes), ())"
    and m: "\<forall>l. l \<noteq> [] \<longrightarrow> (leader = l \<longleftrightarrow> length (rt_members ex_trio) < 2 * supporters nodes l)" by blast
  have "leader = ''s1''" using m s len by simp
  then show ?thesis using l names n by auto
qed

subsection \<open>Health, end to end\<close>

text \<open>
  The components behind the observer while one check runs: which addresses do not answer and with
  what error, who serves the others, and whether the database answers its ping.
\<close>

record health_net =
  hn_down :: "string \<Rightarrow> rpc_error option"
  hn_server :: "string \<Rightarrow> HealthServer"
  hn_db :: "string option"

definition health_dial :: "string \<Rightarrow> string + (health_net \<Rightarrow> CheckResponse rpc \<times> health_net)" where
  "health_dial addr = Inr (\<lambda>w. (case hn_down w addr of Some e \<Rightarrow> Inl e | None \<Rightarrow> Check (hn_server w addr), w))"

text \<open>\<open>observersvc.New(cfg.Instance, cfg.Targets, pool, observersvc.GRPCTargetChecker(clientTLS), log)\<close>.\<close>

definition observer :: "string \<Rightarrow> (string, string) fmap \<Rightarrow> health_net ObserverServer" where
  "observer inst targets = ObserverServer_New inst targets (Some (\<lambda>w. (hn_db w, w))) (GRPCTargetChecker health_dial)"

definition observer_call :: "rpc_error option \<Rightarrow> (health_net \<Rightarrow> ClusterCheckResponse \<times> health_net) \<Rightarrow> health_net \<Rightarrow> ClusterCheckResponse rpc \<times> health_net" where
  "observer_call down check w = (case down of Some e \<Rightarrow> (Inl e, w) | None \<Rightarrow> (case check w of (resp, w') \<Rightarrow> (Inr resp, w')))"

text \<open>What the answer for a name has to be: the error that its check met.\<close>

definition health_errors :: "(string, string) fmap \<Rightarrow> health_net \<Rightarrow> string \<Rightarrow> string option set" where
  "health_errors targets w name =
     (if name |\<in>| fmdom targets then {map_option rpc_error_text (hn_down w (at_or [] targets name))} else {})
     \<union> (if name = dbComponentName then {hn_db w} else {})"

lemma check_tasks_errors:
  assumes "(n, chk) \<in> set (check_tasks ch (observer inst targets))"
  shows "snd (chk w) = w" "fst (chk w) \<in> health_errors targets w n"
  using assms by (auto simp: check_tasks_def observer_def ObserverServer_New_def GRPCTargetChecker_def health_dial_def
      Check_def health_errors_def split: option.splits)

lemma check_tasks_complete:
  assumes "e \<in> health_errors targets w n"
  shows "\<exists>chk. (n, chk) \<in> set (check_tasks ch (observer inst targets)) \<and> fst (chk w) = e"
  using assms
  by (auto simp: check_tasks_def observer_def ObserverServer_New_def GRPCTargetChecker_def health_dial_def
      Check_def health_errors_def image_iff split: option.splits if_splits)

definition health_deps :: "rpc_error option \<Rightarrow> (health_net \<Rightarrow> ClusterCheckResponse \<times> health_net) \<Rightarrow> health_net Deps" where
  "health_deps down check = no_deps\<lparr>d_ClusterCheck := observer_call down check\<rparr>"

lemma health_entry_componentHealth:
  "hj_Name (health_entry c) = ch_Name c"
  "case err of None \<Rightarrow> hj_Status (health_entry (componentHealth n err)) = ''SERVING'' \<and> hj_Message (health_entry (componentHealth n err)) = []
     | Some e \<Rightarrow> hj_Status (health_entry (componentHealth n err)) = ''NOT_SERVING'' \<and> hj_Message (health_entry (componentHealth n err)) = e"
  by (simp_all add: health_entry_def componentHealth_def split: option.splits)

lemma observer_ClusterCheck:
  assumes "ClusterCheck ch order appended t (observer inst targets) w = (resp, w')"
  shows "w' = w" "map ch_Name (cc_Components resp) = sort (sorted_list_of_fset (fmdom targets) @ [dbComponentName])"
    "\<forall>c \<in> set (cc_Components resp). \<exists>err \<in> health_errors targets w (ch_Name c). c = componentHealth (ch_Name c) err"
    "cc_Status resp = (if \<forall>n. health_errors targets w n \<subseteq> {None} then SERVING_STATUS_SERVING else SERVING_STATUS_NOT_SERVING)"
proof -
  let ?s = "observer inst targets"
  note cc = ClusterCheck_components [OF assms, of "\<lambda>x. x = w"]
  have keep: "\<And>n chk x. (n, chk) \<in> set (check_tasks ch ?s) \<Longrightarrow> x = w \<Longrightarrow> snd (chk x) = w"
    using check_tasks_errors(1) by blast
  show "w' = w" using cc(1) keep by blast
  have "expected_names ?s = sort (sorted_list_of_fset (fmdom targets) @ [dbComponentName])"
    by (simp add: expected_names_def observer_def ObserverServer_New_def)
  then show "map ch_Name (cc_Components resp) = sort (sorted_list_of_fset (fmdom targets) @ [dbComponentName])"
    using cc(2) keep by metis
  have "\<exists>chk. (ch_Name c, chk) \<in> set (check_tasks ch ?s) \<and> c = componentHealth (ch_Name c) (fst (chk w))"
    if "c \<in> set (cc_Components resp)" for c using cc(4) keep that by blast
  then show each: "\<forall>c \<in> set (cc_Components resp). \<exists>err \<in> health_errors targets w (ch_Name c). c = componentHealth (ch_Name c) err"
    using check_tasks_errors(2) by (metis (no_types, lifting))
  have complete: "componentHealth n err \<in> set (cc_Components resp)" if e: "err \<in> health_errors targets w n" for n err
  proof -
    obtain chk where chk: "(n, chk) \<in> set (check_tasks ch ?s)" "fst (chk w) = err" using check_tasks_complete [OF e] by blast
    have "\<exists>w1. w1 = w \<and> componentHealth n (fst (chk w1)) \<in> set (cc_Components resp)" by (rule cc(5)) (use keep chk(1) in blast)+
    then show ?thesis using chk(2) by simp
  qed
  have st: "cc_Status resp = overall_status (cc_Components resp)" using cc(3) keep by blast
  have "cc_Status resp = SERVING_STATUS_SERVING \<longleftrightarrow> (\<forall>n. health_errors targets w n \<subseteq> {None})"
  proof -
    have "cc_Status resp = SERVING_STATUS_SERVING \<longleftrightarrow> (\<forall>c \<in> set (cc_Components resp). ch_Status c = SERVING_STATUS_SERVING)"
      using st overall_status_iff(1) by metis
    also have "\<dots> \<longleftrightarrow> (\<forall>n. health_errors targets w n \<subseteq> {None})"
    proof (intro iffI allI ballI subsetI)
      fix n err assume "\<forall>c \<in> set (cc_Components resp). ch_Status c = SERVING_STATUS_SERVING" "err \<in> health_errors targets w n"
      then have "ch_Status (componentHealth n err) = SERVING_STATUS_SERVING" using complete by blast
      then show "err \<in> {None}" by simp
    next
      fix c assume none: "\<forall>n. health_errors targets w n \<subseteq> {None}" and c: "c \<in> set (cc_Components resp)"
      from each c obtain err where err: "err \<in> health_errors targets w (ch_Name c)" "c = componentHealth (ch_Name c) err" by blast
      then have "err = None" using none by blast
      then show "ch_Status c = SERVING_STATUS_SERVING" using err(2) componentHealth_sel(2) by metis
    qed
    finally show ?thesis .
  qed
  then show "cc_Status resp = (if \<forall>n. health_errors targets w n \<subseteq> {None} then SERVING_STATUS_SERVING else SERVING_STATUS_NOT_SERVING)"
    using st overall_status_iff(2) by metis
qed

text \<open>
  C34 \<open>GET /health\<close> from the gateway through the observer to every component: 502 exactly when the
  observer does not answer; otherwise 200 and SERVING exactly when every configured component and the
  database answered their check, and 503 and NOT_SERVING if one did not.  The listing has one entry
  per configured component and one for the database, sorted by name; an entry says SERVING exactly
  when a check of that name passed, and otherwise carries the error of the failed check.
\<close>

theorem health_end_to_end:
  fixes ch order appended t inst targets
  defines "d \<equiv> \<lambda>down. health_deps down (ClusterCheck ch order appended t (observer inst targets))"
  shows "handleHealth now (d (Some e)) w
      = (writeJSON 502 (HealthBody \<lparr>hr_Status = ''UNREACHABLE'', hr_CheckedAt = now, hr_Components = [], hr_Error = rpc_error_text e\<rparr>), w)
    \<and> (\<exists>comps. handleHealth now (d None) w
        = (if (\<forall>n. health_errors targets w n \<subseteq> {None})
           then (writeJSON 200 (HealthBody \<lparr>hr_Status = ''SERVING'', hr_CheckedAt = t, hr_Components = comps, hr_Error = []\<rparr>), w)
           else (writeJSON 503 (HealthBody \<lparr>hr_Status = ''NOT_SERVING'', hr_CheckedAt = t, hr_Components = comps, hr_Error = []\<rparr>), w))
      \<and> map hj_Name comps = sort (sorted_list_of_fset (fmdom targets) @ [dbComponentName])
      \<and> (\<forall>c \<in> set comps. \<exists>err \<in> health_errors targets w (hj_Name c).
           case err of None \<Rightarrow> hj_Status c = ''SERVING'' \<and> hj_Message c = []
                     | Some e \<Rightarrow> hj_Status c = ''NOT_SERVING'' \<and> hj_Message c = e))"
proof (intro conjI)
  show "handleHealth now (d (Some e)) w
      = (writeJSON 502 (HealthBody \<lparr>hr_Status = ''UNREACHABLE'', hr_CheckedAt = now, hr_Components = [], hr_Error = rpc_error_text e\<rparr>), w)"
    by (simp add: handleHealth_def d_def health_deps_def observer_call_def)
  obtain resp w' where r: "ClusterCheck ch order appended t (observer inst targets) w = (resp, w')" by fastforce
  note cc = observer_ClusterCheck [OF r]
  let ?comps = "map health_entry (cc_Components resp)" and ?all = "\<forall>n. health_errors targets w n \<subseteq> {None}"
  have "handleHealth now (d None) w
        = (if ?all then (writeJSON 200 (HealthBody \<lparr>hr_Status = ''SERVING'', hr_CheckedAt = t, hr_Components = ?comps, hr_Error = []\<rparr>), w)
           else (writeJSON 503 (HealthBody \<lparr>hr_Status = ''NOT_SERVING'', hr_CheckedAt = t, hr_Components = ?comps, hr_Error = []\<rparr>), w))"
    using r cc(1,4) ClusterCheck_time [OF r] by (simp add: handleHealth_def d_def health_deps_def observer_call_def)
  moreover have "map hj_Name ?comps = sort (sorted_list_of_fset (fmdom targets) @ [dbComponentName])"
    using cc(2) by (simp add: comp_def health_entry_componentHealth(1))
  moreover have "\<forall>c \<in> set ?comps. \<exists>err \<in> health_errors targets w (hj_Name c).
           case err of None \<Rightarrow> hj_Status c = ''SERVING'' \<and> hj_Message c = []
                     | Some e \<Rightarrow> hj_Status c = ''NOT_SERVING'' \<and> hj_Message c = e"
  proof
    fix c assume "c \<in> set ?comps"
    then obtain x where x: "x \<in> set (cc_Components resp)" "c = health_entry x" by auto
    from cc(3) x(1) obtain err where err: "err \<in> health_errors targets w (ch_Name x)" "x = componentHealth (ch_Name x) err" by blast
    then show "\<exists>err \<in> health_errors targets w (hj_Name c).
           case err of None \<Rightarrow> hj_Status c = ''SERVING'' \<and> hj_Message c = []
                     | Some e \<Rightarrow> hj_Status c = ''NOT_SERVING'' \<and> hj_Message c = e"
      using health_entry_componentHealth(2) [where n = "ch_Name x" and err = err] x(2) health_entry_componentHealth(1) by metis
  qed
  ultimately show "\<exists>comps. handleHealth now (d None) w
        = (if ?all then (writeJSON 200 (HealthBody \<lparr>hr_Status = ''SERVING'', hr_CheckedAt = t, hr_Components = comps, hr_Error = []\<rparr>), w)
           else (writeJSON 503 (HealthBody \<lparr>hr_Status = ''NOT_SERVING'', hr_CheckedAt = t, hr_Components = comps, hr_Error = []\<rparr>), w))
      \<and> map hj_Name comps = sort (sorted_list_of_fset (fmdom targets) @ [dbComponentName])
      \<and> (\<forall>c \<in> set comps. \<exists>err \<in> health_errors targets w (hj_Name c).
           case err of None \<Rightarrow> hj_Status c = ''SERVING'' \<and> hj_Message c = []
                     | Some e \<Rightarrow> hj_Status c = ''NOT_SERVING'' \<and> hj_Message c = e)"
    by (rule_tac exI [of _ ?comps]) (intro conjI)
qed

definition ex_health_net :: health_net where
  "ex_health_net = \<lparr>hn_down = (\<lambda>a. if a = ''b'' then Some (RpcError Unavailable ''refused'') else None),
     hn_server = (\<lambda>_. HealthServer_New ''worker'' ''w''), hn_db = None\<rparr>"

theorem health_end_to_end_witness:
  "\<exists>comps. handleHealth 0 (health_deps None (ClusterCheck (\<lambda>_. []) [] [] 7 (observer ''o'' (fmap_of_list [(''w1'', ''a''), (''w2'', ''b'')])))) ex_health_net
      = (writeJSON 503 (HealthBody \<lparr>hr_Status = ''NOT_SERVING'', hr_CheckedAt = 7, hr_Components = comps, hr_Error = []\<rparr>), ex_health_net)
     \<and> map hj_Name comps = [''postgres-primary'', ''w1'', ''w2'']"
proof -
  let ?t = "fmap_of_list [(''w1'', ''a''), (''w2'', ''b'')]"
  have "Some (rpc_error_text (RpcError Unavailable ''refused'')) \<in> health_errors ?t ex_health_net ''w2''"
    by (simp add: health_errors_def ex_health_net_def at_or_def fmlookup_of_list)
  then have no: "\<not> (\<forall>n. health_errors ?t ex_health_net n \<subseteq> {None})" by blast
  have names: "sort (sorted_list_of_fset (fmdom ?t) @ [dbComponentName]) = [''postgres-primary'', ''w1'', ''w2'']" by code_simp
  note h = health_end_to_end [where now = 0 and ch = "\<lambda>_. []" and order = Nil and appended = Nil and t = 7
        and inst = "''o''" and targets = ?t and w = ex_health_net, THEN conjunct2, unfolded if_not_P [OF no] names]
  from h obtain comps where c: "handleHealth 0 (health_deps None (ClusterCheck (\<lambda>_. []) [] [] 7 (observer ''o'' ?t))) ex_health_net
      = (writeJSON 503 (HealthBody \<lparr>hr_Status = ''NOT_SERVING'', hr_CheckedAt = 7, hr_Components = comps, hr_Error = []\<rparr>), ex_health_net)"
    "map hj_Name comps = [''postgres-primary'', ''w1'', ''w2'']" by (elim exE conjE) (rule that)
  from c show ?thesis by (intro exI [of _ comps] conjI)
qed

end
