(* ===== verification/JobApi.thy ===== *)
theory JobApi
  imports Gateway
begin

section \<open>Jobs through the REST edge\<close>

text \<open>
  The gateway's job handlers on the router of the schedulers (\<open>src/cmd/gateway/main.go\<close>: \<open>Jobs: router\<close>).
  The world is the router with its cached leader and the cluster of \<open>Submission\<close>, so one request runs
  from the HTTP body through decoding, routing with retries and the scheduler's handler to the rows of
  the store and back.

  Shown: which body a client has to send (\<open>decode_create_object\<close>), and that a job posted through an
  election is answered with 201 and is what a \<open>GET\<close> on its location returns (\<open>post_then_get\<close>).
\<close>

subsection \<open>The router as job client\<close>

text \<open>
  A router with no member would return no answer and no error; \<open>New\<close> rules that out
  (\<open>route_answers\<close>), and the model shows it as an error without text.
\<close>

definition on_router ::
  "(sched_cluster Router \<Rightarrow> sched_cluster \<Rightarrow> ('a, sched_cluster) routed) \<Rightarrow> sched_cluster Router \<times> sched_cluster \<Rightarrow> 'a rpc \<times> (sched_cluster Router \<times> sched_cluster)" where
  "on_router f w =
     (case f (fst w) (snd w) of
        (Inr x, r', c') \<Rightarrow> (Inr x, (r', c'))
      | (Inl (Some e), r', c') \<Rightarrow> (Inl e, (r', c'))
      | (Inl None, r', c') \<Rightarrow> (Inl (RpcError Internal []), (r', c')))"

definition router_deps :: "(sched_cluster \<Rightarrow> bool) \<Rightarrow> nat list \<Rightarrow> (sched_cluster Router \<times> sched_cluster) Deps \<Rightarrow> (sched_cluster Router \<times> sched_cluster) Deps" where
  "router_deps expired order d = d\<lparr>
     d_SubmitJob := (\<lambda>req. on_router (\<lambda>r. Router_SubmitJob expired r req)),
     d_GetJob := (\<lambda>i. on_router (\<lambda>r. Router_GetJob expired r i)),
     d_ListJobs := (\<lambda>req. on_router (\<lambda>r. Router_ListJobs expired r req)),
     d_GetOutboxStats := on_router (Router_GetOutboxStats expired),
     d_RaftStatus := (\<lambda>(r, c). case Router_RaftStatus order r c of (ns, c') \<Rightarrow> (ns, (r, c')))\<rparr>"

lemma route_answers: "wf_router r \<Longrightarrow> fst (route fn expired r w) \<noteq> Inl None"
proof
  assume wf: "wf_router r" and none: "fst (route fn expired r w) = Inl None"
  obtain r' w' where rt: "route fn expired r w = (Inl None, r', w')" using none by (cases "route fn expired r w") auto
  have "0 < retryRounds" by (simp add: retryRounds_def)
  from route_rounds_walk [OF wf refl this, of expired fn w None] obtain k tr w1 where k: "1 \<le> k"
    and t: "walk fn (rt_members r) (schedule (length (rt_members r)) (nat (rt_leader r)) k) w = (tr, w1)"
    and v: "route_rounds fn expired r (rt_leader r) retryRounds None w = (verdict tr, cached tr r, w1)" by blast
  have "schedule (length (rt_members r)) (nat (rt_leader r)) k \<noteq> []"
    using k wf by (auto simp: schedule_def one_round_def wf_router_def)
  then have "tr \<noteq> []" by (rule walk_nonempty [OF t])
  then show False using v rt by (auto simp: verdict_def route_def split: sum.splits)
qed

text \<open>When the scheduler that the router remembers answers, it is the only one asked.\<close>

lemma route_first:
  assumes "wf_router r" "fn (sc_jobs (cn_client (rt_members r ! nat (rt_leader r)))) w = (Inr x, w')"
  shows "route fn expired r w = (Inr x, r, w')"
proof -
  have l: "0 \<le> rt_leader r" "rt_leader r < int (length (rt_members r))" "0 < length (rt_members r)"
    using assms(1) by (simp_all add: wf_router_def)
  then have up: "[0..<length (rt_members r)] = 0 # [1..<length (rt_members r)]" by (simp add: upt_conv_Cons)
  have "rt_leader r smod int (length (rt_members r)) = rt_leader r" using l by (simp add: smod_nonneg)
  then have "ask_round fn r (rt_leader r) [0..<length (rt_members r)] e w = Inr (Inr x, r, w')" for e
    using assms(2) by (simp add: up Let_def)
  then show ?thesis by (simp add: route_def retryRounds_def numeral_3_eq_3)
qed

subsection \<open>What a client sends\<close>

lemma create_names: "valid_utf8 ''name''" "valid_utf8 ''payload''"
  by (simp_all add: valid_utf8_ascii nat_of_byte_def)

lemma folded_create_names: "foldName ''name'' = ''NAME''" "foldName ''payload'' = ''PAYLOAD''"
  by code_simp+

lemma decode_create_object:
  assumes "valid_utf8 name" "reads_as n (maxNestingDepth - 1) raw v"
    and "length (write_object [(''name'', quote name), (''payload'', raw)]) \<le> maxBodyBytes"
  shows "decode_create (write_object [(''name'', quote name), (''payload'', raw)]) = Some \<lparr>cb_Name = name, cb_Payload = raw\<rparr>"
proof -
  let ?kts = "[(''name'', quote name), (''payload'', raw)]"
  let ?ms = "[(''name'', quote name, JStr name), (''payload'', raw, v)]"
  have q: "reads_as (Suc n) (maxNestingDepth - 1) (quote name) (JStr name)"
    using reads_as_quote [OF assms(1), of "maxNestingDepth - 1"] by (rule reads_as_more) simp
  have p: "reads_as (Suc n) (maxNestingDepth - 1) raw v" using assms(2) by (rule reads_as_more) simp
  have "reads_as (Suc (Suc n + length ?kts)) (Suc (maxNestingDepth - 1)) (write_object ?kts) (JObj ?ms)"
    by (rule reads_as_object) (use p q create_names in simp)
  then have "reads_as (Suc (Suc n + length ?kts)) maxNestingDepth (write_object ?kts) (JObj ?ms)" by (simp add: maxNestingDepth_def)
  from reads_as_json_first [OF this, of Nil] show ?thesis
    using assms(3) by (simp add: decode_create_def decode_struct_def create_field_def decode_string_def folded_create_names)
qed

subsection \<open>Posting and reading back\<close>

lemma GetJob_at:
  assumes "u (r_id row)" "ce_call (call_env_of c) = Answered" "pg_trip (ce_pg (call_env_of c)) 0 = Done" "ready c" "row \<in> set (jobs (cl_db c))"
  shows "jc_GetJob (sc_jobs (scheduler_client_at u st addr)) (r_id row) c = (Inr (JobToProto (job_of_row row)), next_call c)"
proof -
  let ?p = "ce_pg (call_env_of c)"
  have d: "distinct (map r_id (jobs (cl_db c)))" and i: "pg_uuid_in ?p (r_id row) = Some (r_id row)"
    using assms(4,5) by (auto simp: fresh_from_def wf_db_def pg_ok_def call_env_of_def ids_def)
  have "filter (\<lambda>x. r_id x = r_id row) (jobs (cl_db c)) = [row]"
    by (rule filter_unique [OF d assms(5)])
  from GetJob_done [OF assms(3) i this] show ?thesis
    using assms(1,2) by (simp add: scheduler_client_at_def rpc_call_def JobServer_GetJob_def scheduler_jobs_def)
qed

text \<open>
  C35 A job posted to the gateway and read back, through a freshly built router.  The body decodes and has
  a legal name; during the submission the store works and every call is answered, or is not delivered with
  an error that is retried (an election may be under way); some configured scheduler leads and answers throughout the
  third round over the members; the context of the call does not end; and the read is answered by the
  scheduler and its store.  Then \<open>POST /jobs\<close>
  answers 201 with the location of exactly one new job, whose rendering has the name of the body, the
  status pending and the payload of the body byte for byte where it is JSON, and a \<open>GET\<close> of that id
  answers 200 with the same rendering, from the scheduler that served the post, and changes nothing.
  Assumed of the uuid library: it accepts the canonical text of the database's ids.
\<close>

theorem post_then_get:
  assumes r: "gateway_router ch u st schedulers = Inr r" and c: "ready c"
    and body: "decode_create (rq_Body req) = Some b" "cb_Name b \<noteq> []" "length (cb_Name b) \<le> maxNameLength"
    and benign: "\<forall>k < 3 * length (rt_members r). benign (cl_env c (cl_tick c + k))"
    and leader: "L |\<in>| fmdom schedulers"
      "\<forall>k. 2 * length (rt_members r) \<le> k \<longrightarrow> k < 3 * length (rt_members r) \<longrightarrow>
           serves (cl_env c (cl_tick c + k)) (at_or [] schedulers L)"
    and expired: "\<forall>c. \<not> expired c"
    and uuid: "\<forall>n i. pg_uuid_in (ce_pg (cl_env c n)) i = Some i \<longrightarrow> u i"
    and post: "handleCreateJob ch1 jerr (router_deps expired order d) req (r, c) = (resp, r', c')"
    and read: "ce_call (cl_env c (cl_tick c')) = Answered" "pg_trip (ce_pg (cl_env c (cl_tick c'))) 0 = Done"
  shows "\<exists>job. resp = (writeJSON 201 (JobBody job))\<lparr>rs_Location := Some (''/jobs/'' @ jj_ID job)\<rparr>
    \<and> jj_Name job = cb_Name b \<and> jj_Status job = StatusPending
    \<and> jj_Payload job = (if json_text (cb_Payload b) \<noteq> None then cb_Payload b else [])
    \<and> (\<exists>row. jobs (cl_db c') = jobs (cl_db c) @ [row] \<and> r_id row = jj_ID job)
    \<and> handleGetJob ch2 u (router_deps expired order d) (req'\<lparr>rq_Id := jj_ID job\<rparr>) (r', c')
        = (writeJSON 200 (JobBody job), r', next_call c')"
proof -
  let ?req = "\<lparr>sr_Name = cb_Name b, sr_Payload = cb_Payload b\<rparr>"
  obtain res r1 c1 where s: "Router_SubmitJob expired r ?req c = (res, r1, c1)" by (cases "Router_SubmitJob expired r ?req c") auto
  have "good_name ?req" using body by (simp add: good_name_def)
  from routed_submit_done [OF r c this benign leader expired s] obtain row x m where
    row: "job_created (cb_Name b) (cb_Payload b) row x (cl_db c) (cl_db c1)" "res = Inr (JobToProto (job_of_row row))"
    and m: "m < length (rt_members r)" "rt_leader r1 = int m" "rt_members r1 = rt_members r"
    and c1: "cl_env c1 = cl_env c" "ready c1" by auto
  let ?job = "renderJob ch1 (JobToProto (job_of_row row))"
  have fin: "resp = (writeJSON 201 (JobBody ?job))\<lparr>rs_Location := Some (''/jobs/'' @ jj_ID ?job)\<rparr>" "r' = r1" "c' = c1"
    using post body(1) s row(2) by (simp_all add: handleCreateJob_def router_deps_def on_router_def renderJob_def)
  have mem: "row \<in> set (jobs (cl_db c1))" using row(1) by (simp add: job_created_def)
  have "pg_uuid_in (ce_pg (call_env_of c1)) (r_id row) = Some (r_id row)"
    using c1(2) mem by (auto simp: fresh_from_def pg_ok_def call_env_of_def ids_def)
  then have u: "u (r_id row)" using uuid c1(1) by (simp add: call_env_of_def)
  have rd: "ce_call (call_env_of c1) = Answered" "pg_trip (ce_pg (call_env_of c1)) 0 = Done"
    using read c1(1) by (simp_all add: call_env_of_def fin(3))
  have wf: "wf_router r1" using m gateway_router_routes [OF r] by (simp add: routes_to_schedulers_def wf_router_def)
  obtain addr where "cn_client (rt_members r ! m) = scheduler_client_at u st addr"
    using m gateway_router_routes [OF r] by (meson nth_mem routes_to_schedulers_def)
  then have "Router_GetJob expired r1 (r_id row) c1 = (Inr (JobToProto (job_of_row row)), r1, next_call c1)"
    unfolding Router_GetJob_def using m GetJob_at [where u = u, OF u rd c1(2) mem] by (intro route_first [OF wf]) simp
  moreover have f: "jj_ID ?job = r_id row" "jj_Name ?job = cb_Name b" "jj_Status ?job = StatusPending"
    "jj_Payload ?job = (if json_text (cb_Payload b) \<noteq> None then cb_Payload b else [])" "renderJob ch2 = renderJob ch1"
    using row(1) StatusFromProto_choice [of ch2 ch1] by (simp_all add: renderJob_def [abs_def] JobToProto_def job_of_row_def job_created_def)
  ultimately have "handleGetJob ch2 u (router_deps expired order d) (req'\<lparr>rq_Id := jj_ID ?job\<rparr>) (r', c')
        = (writeJSON 200 (JobBody ?job), r', next_call c')"
    using u by (simp add: handleGetJob_def router_deps_def on_router_def fin)
  with fin f row(1) show ?thesis by (intro exI [of _ ?job]) (simp add: job_created_def)
qed

definition ex_post :: http_request where
  "ex_post = \<lparr>rq_Body = write_object [(''name'', quote ''demo''), (''payload'', show_nat 7)], rq_Id = [], rq_Status = [], rq_Limit = []\<rparr>"

lemma decode_ex_post: "decode_create (rq_Body ex_post) = Some \<lparr>cb_Name = ''demo'', cb_Payload = show_nat 7\<rparr>"
proof -
  have "valid_utf8 ''demo''" by (simp add: valid_utf8_ascii nat_of_byte_def)
  moreover have "length (write_object [(''name'', quote ''demo''), (''payload'', show_nat 7)]) \<le> maxBodyBytes"
  proof -
    have "length (write_object [(''name'', quote ''demo''), (''payload'', show_nat 7)]) = 27" by code_simp
    then show ?thesis by (simp add: maxBodyBytes_def)
  qed
  ultimately show ?thesis unfolding ex_post_def using decode_create_object [OF _ reads_as_show_nat] by simp
qed

theorem post_then_get_witness:
  "\<exists>r resp r' c' job. gateway_router (\<lambda>_. []) (\<lambda>_. True) ex_states ex_schedulers = Inr r
     \<and> handleCreateJob (\<lambda>_. []) (\<lambda>_. []) (router_deps (\<lambda>_. False) [] no_deps) ex_post (r, ex_sched_cluster ex_call_env) = (resp, r', c')
     \<and> rs_Code resp = 201 \<and> jj_Name job = ''demo''
     \<and> handleGetJob (\<lambda>_. []) (\<lambda>_. True) (router_deps (\<lambda>_. False) [] no_deps) (ex_post\<lparr>rq_Id := jj_ID job\<rparr>) (r', c')
         = (writeJSON 200 (JobBody job), r', next_call c')"
proof -
  let ?c = "ex_sched_cluster ex_call_env" and ?d = "router_deps (\<lambda>_. False) [] no_deps"
  obtain r where r: "gateway_router (\<lambda>_. []) (\<lambda>_. True) ex_states ex_schedulers = Inr r" using ex_gateway by blast
  obtain resp r' c' where p: "handleCreateJob (\<lambda>_. []) (\<lambda>_. []) ?d ex_post (r, ?c) = (resp, r', c')"
    by (cases "handleCreateJob (\<lambda>_. []) (\<lambda>_. []) ?d ex_post (r, ?c)") auto
  have n: "cb_Name \<lparr>cb_Name = ''demo'', cb_Payload = show_nat 7\<rparr> \<noteq> []"
    "length (cb_Name \<lparr>cb_Name = ''demo'', cb_Payload = show_nat 7\<rparr>) \<le> maxNameLength" by (simp_all add: maxNameLength_def)
  have b: "\<forall>k < 3 * length (rt_members r). benign (cl_env ?c (cl_tick ?c + k))"
    by (simp add: benign_def ex_sched_cluster_def ex_call_env_def ex_pg_def)
  have L: "''s2'' |\<in>| fmdom ex_schedulers" and
    sv: "\<forall>k. 2 * length (rt_members r) \<le> k \<longrightarrow> k < 3 * length (rt_members r) \<longrightarrow>
           serves (cl_env ?c (cl_tick ?c + k)) (at_or [] ex_schedulers ''s2'')"
    by (simp_all add: ex_schedulers_def serves_def ex_sched_cluster_def ex_call_env_def at_or_def fmlookup_of_list)
  have rd: "ce_call (cl_env ?c (cl_tick c')) = Answered" "pg_trip (ce_pg (cl_env ?c (cl_tick c'))) 0 = Done"
    by (simp_all add: ex_sched_cluster_def ex_call_env_def ex_pg_def)
  from post_then_get [OF r ready_ex_sched_cluster decode_ex_post n b L sv _ _ p rd, of "\<lambda>_. []" ex_post] obtain job where
    "resp = (writeJSON 201 (JobBody job))\<lparr>rs_Location := Some (''/jobs/'' @ jj_ID job)\<rparr>" "jj_Name job = ''demo''"
    "handleGetJob (\<lambda>_. []) (\<lambda>_. True) ?d (ex_post\<lparr>rq_Id := jj_ID job\<rparr>) (r', c') = (writeJSON 200 (JobBody job), r', next_call c')"
    by auto
  then show ?thesis using r p
    by (intro exI [of _ r] exI [of _ resp] exI [of _ r'] exI [of _ c'] exI [of _ job]) (simp add: writeJSON_def)
qed

end
