(* ===== verification/Transport.thy ===== *)
theory Transport
  imports Config
begin

section \<open>Mutual TLS (internal/tlsutil, internal/raftnode/streamlayer.go)\<close>

text \<open>
  How the TLS configurations of a component are built from its files, and how the raft transport
  dials with them.  Certificates and pools are abstract types; reading the key pair and the CA file and
  parsing it are the library \<open>tls_lib\<close>.  \<open>net.SplitHostPort\<close> is modelled as in the Go library.  The
  handshake itself is a parameter: which version two configurations agree on, if any; what its
  documentation promises is \<open>tls_documented\<close>.

  Shown: whoever completes a handshake with a component has a certificate of the cluster's CA and
  speaks TLS 1.3 (\<open>server_handshake\<close>), and the raft transport talks only to servers whose certificate
  covers the host that it dialled (\<open>raft_dial\<close>).
\<close>

datatype ClientAuthType = NoClientCert | RequireAndVerifyClientCert

definition VersionTLS13 :: nat where "VersionTLS13 = 772"

record ('c, 'p) tls_config =
  tc_MinVersion :: nat
  tc_Certificates :: "'c list"
  tc_ClientAuth :: ClientAuthType
  tc_ClientCAs :: "'p option"
  tc_RootCAs :: "'p option"
  tc_ServerName :: string

record ('c, 'p) tls_lib =
  tl_LoadX509KeyPair :: "string \<Rightarrow> string \<Rightarrow> string + 'c"
  tl_ReadFile :: "string \<Rightarrow> string + string"
  tl_CertPool :: "string \<Rightarrow> 'p option"

definition tls_load :: "('c, 'p) tls_lib \<Rightarrow> TLSPaths \<Rightarrow> string + ('c \<times> 'p)" where
  "tls_load lib p =
     (case tl_LoadX509KeyPair lib (CertFile p) (KeyFile p) of
        Inl e \<Rightarrow> Inl (''tlsutil: load key pair (did you run `make certs`?): '' @ e)
      | Inr cert \<Rightarrow>
          (case tl_ReadFile lib (CAFile p) of
             Inl e \<Rightarrow> Inl (''tlsutil: read CA (did you run `make certs`?): '' @ e)
           | Inr caPEM \<Rightarrow>
               (case tl_CertPool lib caPEM of
                  None \<Rightarrow> Inl (''tlsutil: no certificates parsed from '' @ CAFile p)
                | Some pool \<Rightarrow> Inr (cert, pool))))"

definition tls_Server :: "('c, 'p) tls_lib \<Rightarrow> TLSPaths \<Rightarrow> string + ('c, 'p) tls_config" where
  "tls_Server lib p =
     (case tls_load lib p of
        Inl e \<Rightarrow> Inl e
      | Inr (cert, pool) \<Rightarrow>
          Inr \<lparr>tc_MinVersion = VersionTLS13, tc_Certificates = [cert], tc_ClientAuth = RequireAndVerifyClientCert,
               tc_ClientCAs = Some pool, tc_RootCAs = None, tc_ServerName = []\<rparr>)"

definition tls_Client :: "('c, 'p) tls_lib \<Rightarrow> TLSPaths \<Rightarrow> string + ('c, 'p) tls_config" where
  "tls_Client lib p =
     (case tls_load lib p of
        Inl e \<Rightarrow> Inl e
      | Inr (cert, pool) \<Rightarrow>
          Inr \<lparr>tc_MinVersion = VersionTLS13, tc_Certificates = [cert], tc_ClientAuth = NoClientCert,
               tc_ClientCAs = None, tc_RootCAs = Some pool, tc_ServerName = []\<rparr>)"

subsection \<open>Splitting an address\<close>

definition IndexByte :: "char \<Rightarrow> string \<Rightarrow> nat option" where
  "IndexByte c s = (let n = length (takeWhile (\<lambda>x. x \<noteq> c) s) in if n < length s then Some n else None)"

definition LastIndexByte :: "char \<Rightarrow> string \<Rightarrow> nat option" where
  "LastIndexByte c s = map_option (\<lambda>k. length s - 1 - k) (IndexByte c (rev s))"

definition AddrError :: "string \<Rightarrow> string \<Rightarrow> string" where
  "AddrError addr why = (if addr \<noteq> [] then ''address '' @ addr @ '': '' @ why else why)"

definition SplitHostPort :: "string \<Rightarrow> string + (string \<times> string)" where
  "SplitHostPort hostport =
     (let err = \<lambda>why. Inl (AddrError hostport why);
          rest = \<lambda>host j k i.
            if CHR ''['' \<in> set (drop j hostport) then err (''unexpected '' @ [CHR 0x27] @ ''['' @ [CHR 0x27] @ '' in address'')
            else if CHR '']'' \<in> set (drop k hostport) then err (''unexpected '' @ [CHR 0x27] @ '']'' @ [CHR 0x27] @ '' in address'')
            else Inr (host, drop (i + 1) hostport)
      in case LastIndexByte (CHR '':'') hostport of
           None \<Rightarrow> err ''missing port in address''
         | Some i \<Rightarrow>
             if take 1 hostport = ''['' then
               (case IndexByte (CHR '']'') hostport of
                  None \<Rightarrow> err (''missing '' @ [CHR 0x27] @ '']'' @ [CHR 0x27] @ '' in address'')
                | Some e \<Rightarrow>
                    if e + 1 = length hostport then err ''missing port in address''
                    else if e + 1 = i then rest (take (e - 1) (drop 1 hostport)) 1 (e + 1) i
                    else if hostport ! (e + 1) = CHR '':'' then err ''too many colons in address''
                    else err ''missing port in address'')
             else if CHR '':'' \<in> set (take i hostport) then err ''too many colons in address''
             else rest (take i hostport) 0 0 i)"

subsection \<open>The raft transport\<close>

record ('l, 'c, 'p) tlsStreamLayer =
  sl_Listener :: 'l
  sl_advertise :: string
  sl_clientTLS :: "('c, 'p) tls_config"

definition newTLSStreamLayer ::
  "(string \<Rightarrow> ('c, 'p) tls_config \<Rightarrow> string + 'l) \<Rightarrow> string \<Rightarrow> string \<Rightarrow> ('c, 'p) tls_config \<Rightarrow> ('c, 'p) tls_config
     \<Rightarrow> string + ('l, 'c, 'p) tlsStreamLayer" where
  "newTLSStreamLayer tls_Listen bindAddr advertiseAddr serverTLS clientTLS =
     (case tls_Listen bindAddr serverTLS of
        Inl e \<Rightarrow> Inl (''raftnode: listen '' @ bindAddr @ '': '' @ e)
      | Inr ln \<Rightarrow> Inr \<lparr>sl_Listener = ln, sl_advertise = advertiseAddr, sl_clientTLS = clientTLS\<rparr>)"

text \<open>The network and the text of the advertised address.\<close>

definition stream_Addr :: "('l, 'c, 'p) tlsStreamLayer \<Rightarrow> string \<times> string" where
  "stream_Addr l = (''tcp'', sl_advertise l)"

definition stream_Dial ::
  "(string \<Rightarrow> string) \<Rightarrow> (string \<Rightarrow> ('c, 'p) tls_config \<Rightarrow> string + 'k) \<Rightarrow> ('l, 'c, 'p) tlsStreamLayer \<Rightarrow> string \<Rightarrow> string + 'k" where
  "stream_Dial q tls_Dial l address =
     (case SplitHostPort address of
        Inl e \<Rightarrow> Inl (''raftnode: bad peer address '' @ q address @ '': '' @ e)
      | Inr (host, _) \<Rightarrow> tls_Dial address ((sl_clientTLS l)\<lparr>tc_ServerName := host\<rparr>))"

subsection \<open>Host and port\<close>

lemma IndexByte_Some: "IndexByte c s = Some n \<longleftrightarrow> (\<exists>a b. s = a @ c # b \<and> c \<notin> set a \<and> n = length a)"
proof
  let ?a = "takeWhile (\<lambda>x. x \<noteq> c) s"
  assume "IndexByte c s = Some n"
  then have n: "n = length ?a" "length ?a < length s" by (auto simp: IndexByte_def Let_def split: if_splits)
  have "dropWhile (\<lambda>x. x \<noteq> c) s \<noteq> []" using n(2) by (metis append_Nil2 less_irrefl takeWhile_dropWhile_id)
  then have "dropWhile (\<lambda>x. x \<noteq> c) s = c # tl (dropWhile (\<lambda>x. x \<noteq> c) s)" by (metis (mono_tags) hd_dropWhile list.collapse)
  then have "s = ?a @ c # tl (dropWhile (\<lambda>x. x \<noteq> c) s)" by (metis takeWhile_dropWhile_id)
  moreover have "c \<notin> set ?a" by (auto dest: set_takeWhileD)
  ultimately show "\<exists>a b. s = a @ c # b \<and> c \<notin> set a \<and> n = length a" using n(1) by blast
next
  assume "\<exists>a b. s = a @ c # b \<and> c \<notin> set a \<and> n = length a"
  then obtain a b where s: "s = a @ c # b" "c \<notin> set a" "n = length a" by blast
  have "takeWhile (\<lambda>x. x \<noteq> c) (a @ c # b) = a" using s(2) by (induction a) auto
  then show "IndexByte c s = Some n" by (simp add: IndexByte_def s)
qed

lemma LastIndexByte_Some: "LastIndexByte c s = Some n \<longleftrightarrow> (\<exists>a b. s = a @ c # b \<and> c \<notin> set b \<and> n = length a)"
proof
  assume "LastIndexByte c s = Some n"
  then obtain a b where r: "rev s = a @ c # b" "c \<notin> set a" "n = length s - 1 - length a"
    by (auto simp: LastIndexByte_def IndexByte_Some)
  from arg_cong [OF r(1), of rev] have "s = rev b @ c # rev a" by simp
  with r(2,3) show "\<exists>a b. s = a @ c # b \<and> c \<notin> set b \<and> n = length a"
    by (intro exI [of _ "rev b"] exI [of _ "rev a"]) simp
next
  assume "\<exists>a b. s = a @ c # b \<and> c \<notin> set b \<and> n = length a"
  then obtain a b where s: "s = a @ c # b" "c \<notin> set b" "n = length a" by blast
  then have "IndexByte c (rev s) = Some (length b)" unfolding IndexByte_Some by (intro exI [of _ "rev b"] exI [of _ "rev a"]) simp
  then show "LastIndexByte c s = Some n" by (simp add: LastIndexByte_def s)
qed

text \<open>The two forms of an address.\<close>

definition plain_part :: "string \<Rightarrow> bool" where
  "plain_part s \<longleftrightarrow> CHR '':'' \<notin> set s \<and> CHR ''['' \<notin> set s \<and> CHR '']'' \<notin> set s"

lemma SplitHostPort_plain:
  assumes "plain_part host" "plain_part port"
  shows "SplitHostPort (host @ '':'' @ port) = Inr (host, port)"
proof -
  have "LastIndexByte (CHR '':'') (host @ '':'' @ port) = Some (length host)"
    using assms by (auto simp: LastIndexByte_Some plain_part_def)
  moreover have "take 1 (host @ '':'' @ port) \<noteq> ''[''" using assms by (cases host) (auto simp: plain_part_def)
  ultimately show ?thesis using assms by (simp add: SplitHostPort_def Let_def plain_part_def)
qed

lemma SplitHostPort_bracket:
  assumes "CHR ''['' \<notin> set host" "CHR '']'' \<notin> set host" "plain_part port"
  shows "SplitHostPort (''['' @ host @ '']:'' @ port) = Inr (host, port)"
proof -
  let ?s = "''['' @ host @ '']:'' @ port"
  have "LastIndexByte (CHR '':'') ?s = Some (length host + 2)"
    unfolding LastIndexByte_Some using assms(3)
    by (intro exI [of _ "''['' @ host @ '']''"] exI [of _ port]) (simp add: plain_part_def)
  moreover have "IndexByte (CHR '']'') ?s = Some (length host + 1)"
    unfolding IndexByte_Some using assms(2) by (intro exI [of _ "''['' @ host"] exI [of _ "'':'' @ port"]) simp
  ultimately show ?thesis using assms by (simp add: SplitHostPort_def Let_def plain_part_def)
qed

text \<open>Nothing else is split: the host and port are what was written, in one of the two forms.\<close>

lemma SplitHostPort_Inr:
  assumes "SplitHostPort s = Inr (host, port)"
  shows "s = host @ '':'' @ port \<and> CHR '':'' \<notin> set host \<or> s = ''['' @ host @ '']:'' @ port"
proof -
  from assms obtain i where i: "LastIndexByte (CHR '':'') s = Some i"
    by (auto simp: SplitHostPort_def Let_def split: option.splits)
  then obtain a b where s: "s = a @ CHR '':'' # b" "CHR '':'' \<notin> set b" "i = length a" by (auto simp: LastIndexByte_Some)
  show ?thesis
  proof (cases "take 1 s = ''[''")
    case True
    with assms i obtain e where e: "IndexByte (CHR '']'') s = Some e" "e + 1 = i" "host = take (e - 1) (drop 1 s)" "port = drop (i + 1) s"
      by (auto simp: SplitHostPort_def Let_def split: option.splits if_splits)
    from e(1) obtain x y where x: "s = x @ CHR '']'' # y" "CHR '']'' \<notin> set x" "e = length x" by (auto simp: IndexByte_Some)
    from True x obtain x' where x': "x = CHR ''['' # x'" by (cases x) auto
    have "y = CHR '':'' # b" "a = x @ '']''"
      using x(1,3) s e(2) by (metis (no_types, lifting) append.assoc append_Cons append_Nil append_eq_append_conv length_append_singleton Suc_eq_plus1)+
    then show ?thesis using e(3,4) s x x' by simp
  next
    case False
    with assms i s show ?thesis by (auto simp: SplitHostPort_def Let_def split: if_splits)
  qed
qed

subsection \<open>What a handshake guarantees\<close>

text \<open>
  The documented behaviour of \<open>crypto/tls\<close> that the configurations rely on: the version is allowed by
  both sides; the client has verified the server's certificate against its roots and for its server
  name; a server that requires and verifies client certificates has verified one against its pool.
\<close>

definition tls_documented ::
  "('c \<Rightarrow> 'p \<Rightarrow> bool) \<Rightarrow> ('c \<Rightarrow> string \<Rightarrow> bool) \<Rightarrow> (('c, 'p) tls_config \<Rightarrow> ('c, 'p) tls_config \<Rightarrow> nat option) \<Rightarrow> bool" where
  "tls_documented issued covers handshake \<longleftrightarrow>
     (\<forall>c s v. handshake c s = Some v \<longrightarrow> tc_MinVersion c \<le> v \<and> tc_MinVersion s \<le> v
        \<and> (\<forall>roots. tc_RootCAs c = Some roots \<longrightarrow> (\<exists>x \<in> set (tc_Certificates s). issued x roots \<and> covers x (tc_ServerName c)))
        \<and> (tc_ClientAuth s = RequireAndVerifyClientCert \<longrightarrow>
             (\<forall>pool. tc_ClientCAs s = Some pool \<longrightarrow> (\<exists>x \<in> set (tc_Certificates c). issued x pool))))"

text \<open>Dialling an address: who listens there with which configuration, and the handshake with it.\<close>

definition tls_dialer ::
  "(string \<Rightarrow> ('c, 'p) tls_config option) \<Rightarrow> (('c, 'p) tls_config \<Rightarrow> ('c, 'p) tls_config \<Rightarrow> nat option)
     \<Rightarrow> string \<Rightarrow> ('c, 'p) tls_config \<Rightarrow> string + (('c, 'p) tls_config \<times> nat)" where
  "tls_dialer listening handshake addr cfg =
     (case listening addr of
        None \<Rightarrow> Inl ''connection refused''
      | Some s \<Rightarrow> (case handshake cfg s of None \<Rightarrow> Inl ''tls: handshake failure'' | Some v \<Rightarrow> Inr (s, v)))"

lemma tls_load_Inr:
  "tls_Server lib p = Inr s \<Longrightarrow> \<exists>cert caPEM pool. tl_ReadFile lib (CAFile p) = Inr caPEM \<and> tl_CertPool lib caPEM = Some pool
     \<and> tls_load lib p = Inr (cert, pool) \<and> tc_ClientCAs s = Some pool \<and> tc_ClientAuth s = RequireAndVerifyClientCert
     \<and> tc_MinVersion s = VersionTLS13 \<and> tc_Certificates s = [cert]"
  by (auto simp: tls_Server_def tls_load_def split: sum.splits option.splits prod.splits)

text \<open>
  Whoever completes a handshake with a server, whatever its own configuration, presented a certificate
  of the server's CA file and speaks at least TLS 1.3.
\<close>

lemma server_handshake:
  assumes "tls_documented issued covers handshake" "tls_Server lib p = Inr s" "handshake c s = Some v"
  shows "\<exists>caPEM pool x. tl_ReadFile lib (CAFile p) = Inr caPEM \<and> tl_CertPool lib caPEM = Some pool
           \<and> x \<in> set (tc_Certificates c) \<and> issued x pool" "VersionTLS13 \<le> v"
proof -
  note t = tls_load_Inr [OF assms(2)]
  have d: "tc_MinVersion s \<le> v" "\<And>pool. tc_ClientAuth s = RequireAndVerifyClientCert \<Longrightarrow> tc_ClientCAs s = Some pool \<Longrightarrow>
      \<exists>x \<in> set (tc_Certificates c). issued x pool"
    using assms(1,3) by (auto simp: tls_documented_def)
  show "\<exists>caPEM pool x. tl_ReadFile lib (CAFile p) = Inr caPEM \<and> tl_CertPool lib caPEM = Some pool
            \<and> x \<in> set (tc_Certificates c) \<and> issued x pool" "VersionTLS13 \<le> v"
    using t d by metis+
qed

text \<open>
  The raft transport refuses an address that is not host and port, and when it gets a connection, the
  server at the far end presented a certificate of the CA that covers the host of the address.
\<close>

lemma raft_dial:
  assumes "tls_documented issued covers handshake" "tls_Server lib p = Inr s" "tls_Client lib p = Inr c"
    and l: "newTLSStreamLayer listen bind advertise s c = Inr l"
    and dial: "stream_Dial q (tls_dialer listening handshake) l address = Inr (peer, v)"
  shows "\<exists>host port caPEM pool x. SplitHostPort address = Inr (host, port)
            \<and> tl_ReadFile lib (CAFile p) = Inr caPEM \<and> tl_CertPool lib caPEM = Some pool
            \<and> x \<in> set (tc_Certificates peer) \<and> issued x pool \<and> covers x host" "VersionTLS13 \<le> v"
proof -
  from tls_load_Inr [OF assms(2)] obtain cert caPEM pool where t: "tl_ReadFile lib (CAFile p) = Inr caPEM" "tl_CertPool lib caPEM = Some pool"
    "tls_load lib p = Inr (cert, pool)" by blast
  have cl: "sl_clientTLS l = c" using l by (auto simp: newTLSStreamLayer_def split: sum.splits)
  from dial obtain host port where hp: "SplitHostPort address = Inr (host, port)" "handshake (c\<lparr>tc_ServerName := host\<rparr>) peer = Some v"
    by (auto simp: stream_Dial_def tls_dialer_def cl split: sum.splits option.splits)
  have "tc_RootCAs (c\<lparr>tc_ServerName := host\<rparr>) = Some pool" "tc_MinVersion (c\<lparr>tc_ServerName := host\<rparr>) = VersionTLS13"
    using assms(3) t(3) by (auto simp: tls_Client_def)
  then have "\<exists>x \<in> set (tc_Certificates peer). issued x pool \<and> covers x host" "VersionTLS13 \<le> v"
    using assms(1) hp(2) unfolding tls_documented_def by fastforce+
  then show "\<exists>host port caPEM pool x. SplitHostPort address = Inr (host, port)
            \<and> tl_ReadFile lib (CAFile p) = Inr caPEM \<and> tl_CertPool lib caPEM = Some pool
            \<and> x \<in> set (tc_Certificates peer) \<and> issued x pool \<and> covers x host" "VersionTLS13 \<le> v"
    using t(1,2) hp(1) by blast+
qed

text \<open>A library in which a certificate is its issuer and the names it covers, and a pool is one issuer.\<close>

definition ex_tls_lib :: "(string \<times> string list, string) tls_lib" where
  "ex_tls_lib = \<lparr>tl_LoadX509KeyPair = (\<lambda>_ _. Inr (''ca'', [''scheduler-1'', ''scheduler-2''])), tl_ReadFile = Inr, tl_CertPool = (\<lambda>_. Some ''ca'')\<rparr>"

definition ex_handshake ::
  "(string \<times> string list, string) tls_config \<Rightarrow> (string \<times> string list, string) tls_config \<Rightarrow> nat option" where
  "ex_handshake c s =
     (if tc_MinVersion c \<le> 772 \<and> tc_MinVersion s \<le> 772
        \<and> (case tc_RootCAs c of None \<Rightarrow> True | Some r \<Rightarrow> list_ex (\<lambda>x. fst x = r \<and> tc_ServerName c \<in> set (snd x)) (tc_Certificates s))
        \<and> (tc_ClientAuth s = RequireAndVerifyClientCert \<longrightarrow>
             (case tc_ClientCAs s of None \<Rightarrow> True | Some pool \<Rightarrow> list_ex (\<lambda>x. fst x = pool) (tc_Certificates c)))
      then Some 772 else None)"

lemma ex_handshake_documented: "tls_documented (\<lambda>x p. fst x = p) (\<lambda>x h. h \<in> set (snd x)) ex_handshake"
  by (auto simp: tls_documented_def ex_handshake_def list_ex_iff split: if_splits option.splits)

end
