(* ===== verification/Process.thy ===== *)
theory Process
  imports Transport
begin

section \<open>Processes: start-up, serving and exit (internal/app, internal/logging)\<close>

text \<open>
  The life of a command from \<open>main\<close> to exit.  A step of a command works on a process: the trace of
  what it did and the stack of its deferred calls.  A step goes on (\<open>Next\<close>), ends the process on a
  logged fatal error (\<open>Died\<close>, zerolog's \<open>Fatal\<close> calls \<open>os.Exit\<close>, so no deferred call runs) or never
  returns (\<open>Blocked\<close>).  A function call has a stack of its own, which is run when it returns.

  \<open>host\<close> is everything that is not under the repository's control: the environment (viper), the files,
  the network, the database driver, and how serving ends.

  Shown: \<open>tidy\<close> steps release only what they opened, in reverse order, and \<open>tidy\<close> is closed under
  the ways in which commands are composed.
\<close>

subsection \<open>Logging\<close>

definition InfoLevel :: int where "InfoLevel = 1"
definition NoLevel :: int where "NoLevel = 6"

record logger =
  lg_level :: int
  lg_component :: string
  lg_instance :: string

text \<open>\<open>parse\<close> is \<open>zerolog.ParseLevel\<close>.\<close>

definition logging_New :: "(string \<Rightarrow> string + int) \<Rightarrow> string \<Rightarrow> string \<Rightarrow> string \<Rightarrow> logger" where
  "logging_New parse component inst level =
     (let lvl = (case parse level of
                   Inl _ \<Rightarrow> InfoLevel
                 | Inr lvl \<Rightarrow> if lvl = NoLevel then InfoLevel else lvl)
      in \<lparr>lg_level = lvl, lg_component = component, lg_instance = inst\<rparr>)"

subsection \<open>Steps of a command\<close>

datatype held = Pool | Database | Conns string "string list" | Context string | Signals | RaftListener | BoltStore

text \<open>
  \<open>Handed r\<close>: \<open>r\<close> was opened and handed to a library, no call of the repository closes it.
  \<open>Listening\<close> is a gRPC server, with the credentials option that it was made with, if any.
\<close>

datatype ('c, 'p) event =
    Opened held
  | Released held
  | Handed held
  | Goroutine string
  | Listening string "('c, 'p) tls_config option" "string list"
  | ListeningHTTP string
  | Stopped
  | ListenerClosed
  | Drained bool
  | RaftStarted "(string \<times> string) list option"
  | RaftLeft
  | Pinged nat
  | Applied
  | Migrated int

record ('c, 'p) process =
  pr_trace :: "('c, 'p) event list"
  pr_defers :: "held list"

datatype ('c, 'p, 'a) flow =
    Next 'a "('c, 'p) process"
  | Died string string "('c, 'p) process"
  | Blocked "('c, 'p) process"

type_synonym ('c, 'p, 'a) step = "('c, 'p) process \<Rightarrow> ('c, 'p, 'a) flow"

definition and_then :: "('c, 'p, 'a) step \<Rightarrow> ('a \<Rightarrow> ('c, 'p, 'b) step) \<Rightarrow> ('c, 'p, 'b) step" where
  "and_then m f p = (case m p of Next x q \<Rightarrow> f x q | Died msg e q \<Rightarrow> Died msg e q | Blocked q \<Rightarrow> Blocked q)"

definition yields :: "'a \<Rightarrow> ('c, 'p, 'a) step" where
  "yields x p = Next x p"

definition act :: "('c, 'p) event \<Rightarrow> ('c, 'p, unit) step" where
  "act e p = Next () (p\<lparr>pr_trace := pr_trace p @ [e]\<rparr>)"

definition defers :: "held \<Rightarrow> ('c, 'p, unit) step" where
  "defers r p = Next () (p\<lparr>pr_defers := r # pr_defers p\<rparr>)"

text \<open>The idiom \<open>if err != nil { log.Fatal()... }\<close>.\<close>

definition or_fatal :: "string \<Rightarrow> string + 'a \<Rightarrow> ('c, 'p, 'a) step" where
  "or_fatal msg r p = (case r of Inl e \<Rightarrow> Died msg e p | Inr x \<Rightarrow> Next x p)"

text \<open>The same after a constructor that dials several servers and closes what it dialled on an error.\<close>

definition or_hang_up :: "string \<Rightarrow> string \<Rightarrow> (string \<times> string list) + 'a \<Rightarrow> ('c, 'p, 'a) step" where
  "or_hang_up msg what r =
     (case r of
        Inr x \<Rightarrow> yields x
      | Inl (e, closed) \<Rightarrow>
          and_then (act (Opened (Conns what closed))) (\<lambda>_.
          and_then (act (Released (Conns what closed))) (\<lambda>_.
          or_fatal msg (Inl e))))"

definition called :: "('c, 'p, 'a) step \<Rightarrow> ('c, 'p, 'a) step" where
  "called m p =
     (case m (p\<lparr>pr_defers := []\<rparr>) of
        Next x q \<Rightarrow> Next x \<lparr>pr_trace = pr_trace q @ map Released (pr_defers q), pr_defers = pr_defers p\<rparr>
      | Died msg e q \<Rightarrow> Died msg e q
      | Blocked q \<Rightarrow> Blocked q)"

definition run_main :: "('c, 'p, 'a) step \<Rightarrow> ('c, 'p, 'a) flow" where
  "run_main m = called m \<lparr>pr_trace = [], pr_defers = []\<rparr>"

subsection \<open>The host\<close>

text \<open>How serving ends: never, with an error, or after the signal when the server was stopped.\<close>

datatype serve_end = Never | Serve_error string | Signalled

record ('c, 'p) host =
  h_viper :: viper
  h_quote :: "string \<Rightarrow> string"
  h_ParseLevel :: "string \<Rightarrow> string + int"
  h_order :: choice
  h_tls :: "('c, 'p) tls_lib"
  h_pgxpool :: "string \<Rightarrow> string + unit"
  h_NewClient :: "('c, 'p) tls_config \<Rightarrow> string \<Rightarrow> string + unit"
  h_Listen :: "string \<Rightarrow> string + unit"
  h_Serve :: "string \<Rightarrow> serve_end"

text \<open>\<open>grpc.NewClient\<close> with the stub of a service made on the connection.\<close>

definition dial_as :: "('c, 'p) host \<Rightarrow> ('c, 'p) tls_config \<Rightarrow> (string \<Rightarrow> 'k) \<Rightarrow> string \<Rightarrow> string + 'k" where
  "dial_as h tls stub addr = map_sum (\<lambda>e. e) (\<lambda>_. stub addr) (h_NewClient h tls addr)"

subsection \<open>Package app\<close>

definition MustLoad :: "('c, 'p) host \<Rightarrow> string \<Rightarrow> ('c, 'p, Config \<times> logger) step" where
  "MustLoad h component =
     and_then (or_fatal ''load config'' (Load (h_viper h) (h_quote h) component)) (\<lambda>cfg.
     yields (cfg, logging_New (h_ParseLevel h) (cf_Component cfg) (cf_Instance cfg) (cf_LogLevel cfg)))"

text \<open>
  \<open>Serve\<close> returns without error only after \<open>GracefulStop\<close> has finished.  \<open>killed\<close> is a fatal error
  that another goroutine of the process logs while the server runs.  \<open>creds\<close> is the option \<open>grpc.Creds\<close>
  that the caller made the server with: a server made without it serves in the clear.
\<close>

definition ServeGRPC ::
  "('c, 'p) host \<Rightarrow> (string \<times> string) option \<Rightarrow> ('c, 'p) tls_config option \<Rightarrow> string list \<Rightarrow> string \<Rightarrow> ('c, 'p, unit) step" where
  "ServeGRPC h killed creds services addr =
     called
      (and_then (or_fatal ''listen'' (h_Listen h addr)) (\<lambda>_.
       and_then (act (Opened Signals)) (\<lambda>_.
       and_then (defers Signals) (\<lambda>_.
       and_then (act (Goroutine ''GracefulStop'')) (\<lambda>_.
       and_then (act (Listening addr creds services)) (\<lambda>_.
       (case killed of
          Some (msg, e) \<Rightarrow> or_fatal msg (Inl e)
        | None \<Rightarrow>
            (case h_Serve h addr of
               Never \<Rightarrow> Blocked
             | Serve_error e \<Rightarrow> or_fatal ''serve'' (Inl e)
             | Signalled \<Rightarrow> act Stopped))))))))"

definition RunStub :: "('c, 'p) host \<Rightarrow> string \<Rightarrow> ('c, 'p, unit) step" where
  "RunStub h component =
     and_then (MustLoad h component) (\<lambda>(cfg, log).
     and_then (or_fatal ''build server TLS'' (tls_Server (h_tls h) (cf_TLS cfg))) (\<lambda>tlsCfg.
     ServeGRPC h None (Some tlsCfg) [''HealthService''] (cf_GRPCAddr cfg)))"

subsection \<open>Well-nested traces\<close>

text \<open>The stack of what is open after a trace, if every release is that of the innermost open one.\<close>

fun open_after :: "held list \<Rightarrow> ('c, 'p) event list \<Rightarrow> held list option" where
  "open_after st [] = Some st"
| "open_after st (Opened r # es) = open_after (r # st) es"
| "open_after [] (Released r # es) = None"
| "open_after (x # st) (Released r # es) = (if x = r then open_after st es else None)"
| "open_after st (e # es) = open_after st es"

lemma open_after_append:
  "open_after st (xs @ ys) = (case open_after st xs of None \<Rightarrow> None | Some st' \<Rightarrow> open_after st' ys)"
  by (induction st xs rule: open_after.induct) auto

lemma open_after_below: "open_after st es = Some st' \<Longrightarrow> open_after (st @ below) es = Some (st' @ below)"
  by (induction st es rule: open_after.induct) (auto split: if_splits)

lemma open_after_releases: "open_after (ds @ st) (map Released ds) = Some st"
  by (induction ds) auto

text \<open>
  A step is tidy when its trace is well-nested from the stack of deferred calls on: if it goes on,
  what is open is what is deferred; if it ends the process, what was deferred before is still open.
\<close>

definition tidy :: "('c, 'p, 'a) step \<Rightarrow> bool" where
  "tidy m \<longleftrightarrow> (\<forall>p. case m p of
       Next x q \<Rightarrow> (\<exists>es new. pr_trace q = pr_trace p @ es \<and> pr_defers q = new @ pr_defers p \<and> open_after [] es = Some new)
     | Died _ _ q \<Rightarrow> (\<exists>es st. pr_trace q = pr_trace p @ es \<and> open_after [] es = Some st)
     | Blocked q \<Rightarrow> (\<exists>es st. pr_trace q = pr_trace p @ es \<and> open_after [] es = Some st))"

named_theorems tidy_steps \<open>steps that release exactly what they open\<close>

fun bookkeeping :: "('c, 'p) event \<Rightarrow> bool" where
  "bookkeeping (Opened _) = True"
| "bookkeeping (Released _) = True"
| "bookkeeping _ = False"

lemma tidy_yields [tidy_steps]: "tidy (yields x)"
  by (simp add: tidy_def yields_def)

lemma tidy_act [tidy_steps]: "\<not> bookkeeping e \<Longrightarrow> tidy (act e)"
  by (cases e) (auto simp: tidy_def act_def)

lemma tidy_or_fatal [tidy_steps]: "tidy (or_fatal msg r)"
  by (auto simp: tidy_def or_fatal_def split: sum.split)

lemma tidy_Blocked [tidy_steps]: "tidy Blocked"
  by (simp add: tidy_def)

lemma tidy_open [tidy_steps]: "tidy (and_then (act (Opened r)) (\<lambda>_. defers r))"
  by (simp add: tidy_def and_then_def act_def defers_def)

lemma tidy_and_then [tidy_steps]:
  assumes "tidy m" "\<And>x. tidy (f x)"
  shows "tidy (and_then m f)"
  unfolding tidy_def
proof
  fix p
  have m: "case m p of
       Next x q \<Rightarrow> (\<exists>es new. pr_trace q = pr_trace p @ es \<and> pr_defers q = new @ pr_defers p \<and> open_after [] es = Some new)
     | Died _ _ q \<Rightarrow> (\<exists>es st. pr_trace q = pr_trace p @ es \<and> open_after [] es = Some st)
     | Blocked q \<Rightarrow> (\<exists>es st. pr_trace q = pr_trace p @ es \<and> open_after [] es = Some st)"
    using assms(1) by (simp add: tidy_def)
  show "case and_then m f p of
       Next x q \<Rightarrow> (\<exists>es new. pr_trace q = pr_trace p @ es \<and> pr_defers q = new @ pr_defers p \<and> open_after [] es = Some new)
     | Died _ _ q \<Rightarrow> (\<exists>es st. pr_trace q = pr_trace p @ es \<and> open_after [] es = Some st)
     | Blocked q \<Rightarrow> (\<exists>es st. pr_trace q = pr_trace p @ es \<and> open_after [] es = Some st)"
  proof (cases "m p")
    case (Next x q)
    with m obtain es new where q: "pr_trace q = pr_trace p @ es" "pr_defers q = new @ pr_defers p" "open_after [] es = Some new" by auto
    have join: "open_after [] (es @ es') = Some (st @ new)" if "open_after [] es' = Some st" for es' st
      using open_after_below [OF that, of new] q(3) by (simp add: open_after_append)
    have "case f x q of
       Next y r \<Rightarrow> (\<exists>es new. pr_trace r = pr_trace q @ es \<and> pr_defers r = new @ pr_defers q \<and> open_after [] es = Some new)
     | Died _ _ r \<Rightarrow> (\<exists>es st. pr_trace r = pr_trace q @ es \<and> open_after [] es = Some st)
     | Blocked r \<Rightarrow> (\<exists>es st. pr_trace r = pr_trace q @ es \<and> open_after [] es = Some st)"
      using assms(2) [of x] by (simp add: tidy_def)
    then show ?thesis using Next q(1,2) join by (fastforce simp: and_then_def split: flow.splits)
  qed (use m in \<open>simp_all add: and_then_def\<close>)
qed

lemma and_then_assoc: "and_then (and_then m f) g = and_then m (\<lambda>x. and_then (f x) g)"
  by (rule ext) (simp add: and_then_def split: flow.split)

text \<open>Opening followed by its defer, and whatever comes after it.\<close>

lemma tidy_open_then [tidy_steps]:
  "(\<And>x. tidy (f x)) \<Longrightarrow> tidy (and_then (act (Opened r)) (\<lambda>_. and_then (defers r) f))"
  using tidy_and_then [OF tidy_open, of f r] by (simp add: and_then_assoc)

lemma tidy_or_hang_up [tidy_steps]: "tidy (or_hang_up msg what r)"
  by (auto simp: or_hang_up_def tidy_yields split: sum.split)
    (simp add: tidy_def and_then_def act_def or_fatal_def)

lemma tidy_called [tidy_steps]:
  assumes "tidy m"
  shows "tidy (called m)"
  unfolding tidy_def
proof
  fix p
  have m: "case m (p\<lparr>pr_defers := []\<rparr>) of
       Next x q \<Rightarrow> (\<exists>es new. pr_trace q = pr_trace p @ es \<and> pr_defers q = new \<and> open_after [] es = Some new)
     | Died _ _ q \<Rightarrow> (\<exists>es st. pr_trace q = pr_trace p @ es \<and> open_after [] es = Some st)
     | Blocked q \<Rightarrow> (\<exists>es st. pr_trace q = pr_trace p @ es \<and> open_after [] es = Some st)"
    using assms [unfolded tidy_def, rule_format, of "p\<lparr>pr_defers := []\<rparr>"] by (simp split: flow.splits)
  have all: "open_after [] (es @ map Released ds) = Some []" if "open_after [] es = Some ds" for es :: "('a, 'b) event list" and ds
    using that open_after_releases [of ds "[]"] by (simp add: open_after_append)
  show "case called m p of
       Next x q \<Rightarrow> (\<exists>es new. pr_trace q = pr_trace p @ es \<and> pr_defers q = new @ pr_defers p \<and> open_after [] es = Some new)
     | Died _ _ q \<Rightarrow> (\<exists>es st. pr_trace q = pr_trace p @ es \<and> open_after [] es = Some st)
     | Blocked q \<Rightarrow> (\<exists>es st. pr_trace q = pr_trace p @ es \<and> open_after [] es = Some st)"
    using m all by (cases "m (p\<lparr>pr_defers := []\<rparr>)") (auto simp: called_def)
qed

text \<open>A command made of tidy steps that returns has released everything; otherwise nothing is released twice.\<close>

lemma run_main_tidy:
  assumes "tidy m"
  shows "run_main m = Next x q \<Longrightarrow> open_after [] (pr_trace q) = Some []"
    "run_main m = Died msg e q \<Longrightarrow> open_after [] (pr_trace q) \<noteq> None"
    "run_main m = Blocked q \<Longrightarrow> open_after [] (pr_trace q) \<noteq> None"
proof -
  have t: "case run_main m of
       Next x q \<Rightarrow> (\<exists>new. pr_defers q = new \<and> open_after [] (pr_trace q) = Some new)
     | Died _ _ q \<Rightarrow> (\<exists>st. open_after [] (pr_trace q) = Some st)
     | Blocked q \<Rightarrow> (\<exists>st. open_after [] (pr_trace q) = Some st)"
    using tidy_called [OF assms, unfolded tidy_def, rule_format, of "\<lparr>pr_trace = [], pr_defers = []\<rparr>"]
    by (simp add: run_main_def split: flow.splits)
  show "run_main m = Next x q \<Longrightarrow> open_after [] (pr_trace q) = Some []"
    using t by (auto simp: run_main_def called_def split: flow.splits)
  show "run_main m = Died msg e q \<Longrightarrow> open_after [] (pr_trace q) \<noteq> None"
    "run_main m = Blocked q \<Longrightarrow> open_after [] (pr_trace q) \<noteq> None"
    using t by auto
qed

lemma tidy_MustLoad [tidy_steps]: "tidy (MustLoad h component)"
  unfolding MustLoad_def by (intro tidy_steps)

lemma tidy_ServeGRPC [tidy_steps]: "tidy (ServeGRPC h killed creds services addr)"
  unfolding ServeGRPC_def
  by (intro tidy_steps) (auto intro: tidy_steps split: option.split serve_end.split)

lemma tidy_RunStub: "tidy (RunStub h component)"
  unfolding RunStub_def by (auto intro!: tidy_steps)

subsection \<open>What a command listens with\<close>

fun flow_trace :: "('c, 'p, 'a) flow \<Rightarrow> ('c, 'p) event list" where
  "flow_trace (Next x q) = pr_trace q"
| "flow_trace (Died msg e q) = pr_trace q"
| "flow_trace (Blocked q) = pr_trace q"

definition listens_with :: "(('c, 'p) tls_config option \<Rightarrow> bool) \<Rightarrow> ('c, 'p, 'a) step \<Rightarrow> bool" where
  "listens_with P m \<longleftrightarrow>
     (\<forall>p. \<exists>es. flow_trace (m p) = pr_trace p @ es \<and> (\<forall>addr creds services. Listening addr creds services \<in> set es \<longrightarrow> P creds))"

named_theorems listens \<open>steps whose gRPC servers all have credentials of a given kind\<close>

lemma listens_yields [listens]: "listens_with P (yields x)"
  by (simp add: listens_with_def yields_def)

lemma listens_act [listens]: "(\<And>a c s. e = Listening a c s \<Longrightarrow> P c) \<Longrightarrow> listens_with P (act e)"
  by (auto simp: listens_with_def act_def)

lemma listens_defers [listens]: "listens_with P (defers r)"
  by (simp add: listens_with_def defers_def)

lemma listens_Blocked [listens]: "listens_with P Blocked"
  by (simp add: listens_with_def)

lemma listens_or_fatal [listens]: "listens_with P (or_fatal msg r)"
  by (auto simp: listens_with_def or_fatal_def split: sum.split)

lemma listens_called [listens]:
  assumes "listens_with P m"
  shows "listens_with P (called m)"
  unfolding listens_with_def
proof
  fix p
  from assms obtain es where es: "flow_trace (m (p\<lparr>pr_defers := []\<rparr>)) = pr_trace p @ es"
    "\<forall>addr creds services. Listening addr creds services \<in> set es \<longrightarrow> P creds"
    unfolding listens_with_def by (metis process.select_convs(1) process.surjective process.update_convs(2))
  show "\<exists>es. flow_trace (called m p) = pr_trace p @ es \<and> (\<forall>addr creds services. Listening addr creds services \<in> set es \<longrightarrow> P creds)"
    using es by (cases "m (p\<lparr>pr_defers := []\<rparr>)") (auto simp: called_def)
qed

text \<open>What follows a step may use that the step went on.\<close>

lemma listens_and_then [listens]:
  assumes "listens_with P m" "\<And>x p q. m p = Next x q \<Longrightarrow> listens_with P (f x)"
  shows "listens_with P (and_then m f)"
  unfolding listens_with_def
proof
  fix p
  from assms(1) obtain es where es: "flow_trace (m p) = pr_trace p @ es"
    "\<forall>addr creds services. Listening addr creds services \<in> set es \<longrightarrow> P creds"
    unfolding listens_with_def by blast
  show "\<exists>es. flow_trace (and_then m f p) = pr_trace p @ es \<and> (\<forall>addr creds services. Listening addr creds services \<in> set es \<longrightarrow> P creds)"
  proof (cases "m p")
    case (Next x q)
    from assms(2) [OF Next] obtain es' where "flow_trace (f x q) = pr_trace q @ es'"
      "\<forall>addr creds services. Listening addr creds services \<in> set es' \<longrightarrow> P creds"
      unfolding listens_with_def by blast
    then show ?thesis using Next es by (intro exI [of _ "es @ es'"]) (simp add: and_then_def, metis)
  qed (use es in \<open>auto simp: and_then_def\<close>)
qed

lemma listens_or_hang_up [listens]: "listens_with P (or_hang_up msg what r)"
  unfolding or_hang_up_def by (auto intro!: listens split: sum.split)

lemma listens_MustLoad [listens]: "listens_with P (MustLoad h component)"
  unfolding MustLoad_def by (intro listens)

lemma listens_ServeGRPC [listens]: "P creds \<Longrightarrow> listens_with P (ServeGRPC h killed creds services addr)"
  unfolding ServeGRPC_def by (intro listens) (auto intro: listens split: option.split serve_end.split)

lemma run_main_listens: "listens_with P m \<Longrightarrow> Listening addr creds services \<in> set (flow_trace (run_main m)) \<Longrightarrow> P creds"
  using listens_called [of P m] unfolding run_main_def listens_with_def
  by (metis append_Nil process.select_convs(1))

subsection \<open>Steps that went on\<close>

lemma and_then_Next: "and_then m f p = Next y q \<longleftrightarrow> (\<exists>x r. m p = Next x r \<and> f x r = Next y q)"
  by (simp add: and_then_def split: flow.split)

lemma or_fatal_Next: "or_fatal msg r p = Next y q \<longleftrightarrow> r = Inr y \<and> q = p"
  by (auto simp: or_fatal_def split: sum.split)

lemma yields_Next: "yields x p = Next y q \<longleftrightarrow> y = x \<and> q = p"
  by (auto simp: yields_def)

lemma act_Next: "act e p = Next u q \<longleftrightarrow> q = p\<lparr>pr_trace := pr_trace p @ [e]\<rparr>"
  by (auto simp: act_def)

lemma defers_Next: "defers d p = Next u q \<longleftrightarrow> q = p\<lparr>pr_defers := d # pr_defers p\<rparr>"
  by (auto simp: defers_def)

lemma called_Next:
  "called m p = Next y q \<longleftrightarrow> (\<exists>r. m (p\<lparr>pr_defers := []\<rparr>) = Next y r
     \<and> q = \<lparr>pr_trace = pr_trace r @ map Released (pr_defers r), pr_defers = pr_defers p\<rparr>)"
  by (auto simp: called_def split: flow.split)

lemmas flow_simps = and_then_Next or_fatal_Next yields_Next act_Next defers_Next called_Next

lemma or_hang_up_Next: "or_hang_up msg what r p = Next y q \<longleftrightarrow> r = Inr y \<and> q = p"
  by (auto simp: or_hang_up_def flow_simps split: sum.split)

lemma ServeGRPC_Next:
  "ServeGRPC h killed creds services addr p = Next y q \<longleftrightarrow>
     h_Listen h addr = Inr () \<and> killed = None \<and> h_Serve h addr = Signalled
     \<and> q = p\<lparr>pr_trace := pr_trace p @ [Opened Signals, Goroutine ''GracefulStop'', Listening addr creds services, Stopped, Released Signals]\<rparr>"
  by (auto simp: ServeGRPC_def flow_simps split: option.splits serve_end.splits)

lemma MustLoad_Next:
  "MustLoad h component p = Next y q \<longleftrightarrow>
     (\<exists>cfg. Load (h_viper h) (h_quote h) component = Inr cfg \<and> q = p
        \<and> y = (cfg, logging_New (h_ParseLevel h) (cf_Component cfg) (cf_Instance cfg) (cf_LogLevel cfg)))"
  by (auto simp: MustLoad_def flow_simps)

lemmas went_on = flow_simps or_hang_up_Next ServeGRPC_Next MustLoad_Next

end
