(* ===== verification/Commands.thy ===== *)
theory Commands
  imports Process Heartbeat CrdtView Gateway RaftNode
begin

section \<open>The commands (cmd/worker, cmd/scheduler, cmd/observer, cmd/statemanager, cmd/gateway)\<close>

text \<open>
  The \<open>main\<close> functions of the five services as steps of a process, calling the constructors of the
  other theories in the order of the source.  The value of a command that returns is what it was built
  from.  The stubs made on a connection are those of the theories that use them, or parameters.

  Shown: every gRPC server of the cluster is behind mutual TLS and the raft transport dials only
  members with a certificate for their host (\<open>cluster_mutual_tls\<close>); a \<open>main\<close> that returns has released
  what it opened, innermost first and at the end of its work (\<open>services_clean_up\<close>), except the listener and the
  store that \<open>raftnode.New\<close> hands to the raft library.  The traces are those of the main goroutine: what the goroutines
  that it starts open and close themselves is not in them.
\<close>

subsection \<open>The worker\<close>

text \<open>In seconds, the unit of the moments that \<open>Drain\<close> looks at.\<close>

definition drainTimeout :: nat where "drainTimeout = 30"

definition worker_main ::
  "('c, 'p) host \<Rightarrow> (WorkerServer \<Rightarrow> nat \<Rightarrow> WorkerServer) \<Rightarrow> ('c, 'p, Config \<times> WorkerServer \<times> Loop) step" where
  "worker_main h history =
     and_then (MustLoad h ''worker'') (\<lambda>(cfg, log).
     and_then (or_fatal ''build server TLS'' (tls_Server (h_tls h) (cf_TLS cfg))) (\<lambda>serverTLS.
     and_then (or_fatal ''build client TLS'' (tls_Client (h_tls h) (cf_TLS cfg))) (\<lambda>clientTLS.
     and_then (or_fatal ''create db pool'' (h_pgxpool h (cf_DBDSN cfg))) (\<lambda>pool.
     and_then (act (Opened Pool)) (\<lambda>_.
     and_then (defers Pool) (\<lambda>_.
     and_then (or_fatal ''build statemanager reporter''
                 (Reporter_New (dial_as h clientTLS (\<lambda>addr. addr)) (cf_StatemanagerAddr cfg))) (\<lambda>reporter.
     and_then (act (Opened (Conns ''reporter'' [reporter]))) (\<lambda>_.
     and_then (defers (Conns ''reporter'' [reporter])) (\<lambda>_.
     let svc = WorkerServer_New (cf_Instance cfg) (cf_Capacity cfg) True in
     and_then (or_hang_up ''build heartbeat loop'' ''heartbeat''
                 (Loop_New (h_order h) (dial_as h clientTLS worker_client_at)
                    \<lparr>hc_Instance = cf_Instance cfg, hc_Capacity = WorkerServer_Capacity svc\<rparr> (cf_Schedulers cfg))) (\<lambda>hb.
     and_then (act (Opened (Conns ''heartbeat'' (Loop_Close hb)))) (\<lambda>_.
     and_then (defers (Conns ''heartbeat'' (Loop_Close hb))) (\<lambda>_.
     and_then (act (Opened (Context ''heartbeat''))) (\<lambda>_.
     and_then (defers (Context ''heartbeat'')) (\<lambda>_.
     and_then (act (Goroutine ''heartbeat'')) (\<lambda>_.
     and_then (ServeGRPC h None (Some serverTLS) [''WorkerService'', ''HealthService''] (cf_GRPCAddr cfg)) (\<lambda>_.
     and_then (act (Drained (Drain (history svc) drainTimeout))) (\<lambda>_.
     yields (cfg, svc, hb))))))))))))))))))"

subsection \<open>The scheduler\<close>

definition err_of :: "string + 'a \<Rightarrow> string option" where
  "err_of r = (case r of Inl e \<Rightarrow> Some e | Inr _ \<Rightarrow> None)"

text \<open>How the calls of \<open>raftnode.New\<close> that need the TLS files end; \<open>files\<close> gives the others.\<close>

definition raft_backends_of ::
  "('c, 'p) host \<Rightarrow> (string \<Rightarrow> ('c, 'p) tls_config \<Rightarrow> string + 'l) \<Rightarrow> raft_backends \<Rightarrow> Config \<Rightarrow> raft_backends" where
  "raft_backends_of h tls_Listen files cfg =
     (let s = tls_Server (h_tls h) (cf_TLS cfg); c = tls_Client (h_tls h) (cf_TLS cfg) in
      files\<lparr>rb_ServerTLS := err_of s, rb_ClientTLS := err_of c,
            rb_StreamLayer :=
              (case (s, c) of
                 (Inr serverTLS, Inr clientTLS) \<Rightarrow>
                   err_of (newTLSStreamLayer tls_Listen (cf_RaftAddr cfg) (at_or [] (cf_RaftPeers cfg) (cf_Instance cfg)) serverTLS clientTLS)
               | _ \<Rightarrow> None)\<rparr>)"

text \<open>
  What \<open>raftnode.New\<close> opens, also when it fails later: the listener of the raft transport and the bolt
  store.  Both are handed to the raft library; the repository closes neither.
\<close>

definition Node_opens :: "RaftConfig \<Rightarrow> raft_backends \<Rightarrow> held list" where
  "Node_opens cfg b =
     (if fmlookup (rc_Peers cfg) (rc_Instance cfg) = None \<or> rb_ServerTLS b \<noteq> None \<or> rb_ClientTLS b \<noteq> None
         \<or> rb_StreamLayer b \<noteq> None then []
      else if rb_MkdirAll b \<noteq> None \<or> rb_NewBoltStore b \<noteq> None then [RaftListener]
      else [RaftListener, BoltStore])"

fun hand_over :: "held list \<Rightarrow> ('c, 'p, unit) step" where
  "hand_over [] = yields ()"
| "hand_over (r # rs) = and_then (act (Handed r)) (\<lambda>_. hand_over rs)"

definition scheduler_main ::
  "('c, 'p) host \<Rightarrow> (string \<Rightarrow> ('c, 'p) tls_config \<Rightarrow> string + 'l) \<Rightarrow> raft_backends
     \<Rightarrow> ('c, 'p, Config \<times> Registry \<times> world Dispatcher) step" where
  "scheduler_main h tls_Listen files =
     and_then (MustLoad h ''scheduler'') (\<lambda>(cfg, log).
     and_then (or_fatal ''build server TLS'' (tls_Server (h_tls h) (cf_TLS cfg))) (\<lambda>serverTLS.
     and_then (or_fatal ''build client TLS'' (tls_Client (h_tls h) (cf_TLS cfg))) (\<lambda>clientTLS.
     and_then (or_fatal ''create db pool'' (h_pgxpool h (cf_DBDSN cfg))) (\<lambda>pool.
     and_then (act (Opened Pool)) (\<lambda>_.
     and_then (defers Pool) (\<lambda>_.
     let reg = Registry_New workerStaleTTL workerDeadTTL in
     and_then (or_hang_up ''build dispatcher'' ''dispatch''
                 (Dispatcher_New (h_order h) (dial_as h clientTLS worker_client) (cf_Workers cfg) (Some candidates_of))) (\<lambda>disp.
     and_then (act (Opened (Conns ''dispatch'' (Dispatcher_Close disp)))) (\<lambda>_.
     and_then (defers (Conns ''dispatch'' (Dispatcher_Close disp))) (\<lambda>_.
     let rcfg = \<lparr>rc_Instance = cf_Instance cfg, rc_Peers = cf_RaftPeers cfg\<rparr>;
         backends = raft_backends_of h tls_Listen files cfg
     in
     and_then (hand_over (Node_opens rcfg backends)) (\<lambda>_.
     and_then (or_fatal ''start raft member'' (Node_New (h_order h) (h_quote h) rcfg backends)) (\<lambda>boot.
     and_then (act (RaftStarted boot)) (\<lambda>_.
     and_then (act (Opened (Context ''services''))) (\<lambda>_.
     and_then (defers (Context ''services'')) (\<lambda>_.
     and_then (act (Goroutine ''relay'')) (\<lambda>_.
     and_then (act (Goroutine ''reaper'')) (\<lambda>_.
     and_then (ServeGRPC h None (Some serverTLS) [''JobService'', ''StateService'', ''WorkerService'', ''HealthService''] (cf_GRPCAddr cfg)) (\<lambda>_.
     and_then (act RaftLeft) (\<lambda>_.
     yields (cfg, reg, disp)))))))))))))))))))"

subsection \<open>The observer\<close>

definition observer_main :: "('c, 'p) host \<Rightarrow> ('c, 'p, Config \<times> health_net ObserverServer) step" where
  "observer_main h =
     and_then (MustLoad h ''observer'') (\<lambda>(cfg, log).
     and_then (or_fatal ''build server TLS'' (tls_Server (h_tls h) (cf_TLS cfg))) (\<lambda>serverTLS.
     and_then (or_fatal ''build client TLS'' (tls_Client (h_tls h) (cf_TLS cfg))) (\<lambda>clientTLS.
     and_then (or_fatal ''create db pool'' (h_pgxpool h (cf_DBDSN cfg))) (\<lambda>pool.
     and_then (act (Opened Pool)) (\<lambda>_.
     and_then (defers Pool) (\<lambda>_.
     let svc = observer (cf_Instance cfg) (cf_Targets cfg) in
     and_then (ServeGRPC h None (Some serverTLS) [''HealthService''] (cf_GRPCAddr cfg)) (\<lambda>_.
     yields (cfg, svc))))))))"

subsection \<open>The statemanager\<close>

text \<open>
  The part of \<open>RunGossip\<close> before its loop: the clients in the order of the names, or the first error.
  It runs on a goroutine of its own, whose error ends the process: before the server listens, while it
  serves, or not at all when the process ends first.
\<close>

fun gossip_clients :: "(string \<Rightarrow> string + 'k) \<Rightarrow> (string, string) fmap \<Rightarrow> string list \<Rightarrow> string + (string \<times> 'k) list" where
  "gossip_clients dial peers [] = Inr []"
| "gossip_clients dial peers (name # names) =
     (case dial (at_or [] peers name) of
        Inl e \<Rightarrow> Inl e
      | Inr client \<Rightarrow>
          (case gossip_clients dial peers names of
             Inl e \<Rightarrow> Inl e
           | Inr clients \<Rightarrow> Inr ((name, client) # clients)))"

datatype race = Before_listening | While_serving | After_exit

definition statemanager_main ::
  "('c, 'p) host \<Rightarrow> race \<Rightarrow> (string \<Rightarrow> 'k) \<Rightarrow> ('c, 'p, Config \<times> StateServer) step" where
  "statemanager_main h moment stub =
     and_then (MustLoad h ''statemanager'') (\<lambda>(cfg, log).
     and_then (or_fatal ''build server TLS'' (tls_Server (h_tls h) (cf_TLS cfg))) (\<lambda>serverTLS.
     and_then (or_fatal ''build client TLS'' (tls_Client (h_tls h) (cf_TLS cfg))) (\<lambda>clientTLS.
     let svc = StateServer_New (cf_Instance cfg);
         failed = err_of (gossip_clients (dial_as h clientTLS stub) (cf_Statemanagers cfg)
                            (gossip_names (h_order h) (sm_replica svc) (cf_Statemanagers cfg)))
     in
     and_then (act (Opened (Context ''gossip''))) (\<lambda>_.
     and_then (defers (Context ''gossip'')) (\<lambda>_.
     and_then (act (Goroutine ''gossip'')) (\<lambda>_.
     and_then (case failed of
                 Some e \<Rightarrow> if moment = Before_listening then or_fatal ''start gossip loop'' (Inl e) else yields ()
               | None \<Rightarrow> yields ()) (\<lambda>_.
     and_then (ServeGRPC h (if moment = While_serving then map_option (Pair ''start gossip loop'') failed else None)
                 (Some serverTLS) [''StateService'', ''HealthService''] (cf_GRPCAddr cfg)) (\<lambda>_.
     yields (cfg, svc)))))))))"

subsection \<open>The gateway\<close>

text \<open>
  \<open>ListenAndServe\<close> returns \<open>ErrServerClosed\<close> as soon as the goroutine has called \<open>Shutdown\<close>, which
  closes the listener first; the requests being served go on.
\<close>

definition ListenAndServe :: "('c, 'p) host \<Rightarrow> string \<Rightarrow> ('c, 'p, unit) step" where
  "ListenAndServe h addr =
     (case h_Serve h addr of
        Never \<Rightarrow> Blocked
      | Serve_error e \<Rightarrow> or_fatal ''serve'' (Inl e)
      | Signalled \<Rightarrow> act ListenerClosed)"

definition gateway_main ::
  "('c, 'p) host \<Rightarrow> (string \<Rightarrow> 'w scheduler_client) \<Rightarrow> (string \<Rightarrow> 'v state_client)
     \<Rightarrow> ('c, 'p, Config \<times> 'w Router \<times> 'v ViewClient) step" where
  "gateway_main h sched state =
     and_then (MustLoad h ''gateway'') (\<lambda>(cfg, log).
     and_then (or_fatal ''build client TLS'' (tls_Client (h_tls h) (cf_TLS cfg))) (\<lambda>clientTLS.
     and_then (or_fatal ''create observer client'' (dial_as h clientTLS (\<lambda>addr. addr) (cf_ObserverAddr cfg))) (\<lambda>obsConn.
     and_then (act (Opened (Conns ''observer'' [obsConn]))) (\<lambda>_.
     and_then (defers (Conns ''observer'' [obsConn])) (\<lambda>_.
     and_then (or_hang_up ''create scheduler router'' ''router''
                 (Router_New (h_order h) (dial_as h clientTLS sched) (cf_Schedulers cfg))) (\<lambda>router.
     and_then (act (Opened (Conns ''router'' (Router_Close router)))) (\<lambda>_.
     and_then (defers (Conns ''router'' (Router_Close router))) (\<lambda>_.
     and_then (or_hang_up ''create statemanager view'' ''view''
                 (View_New (h_order h) (dial_as h clientTLS state) (cf_Statemanagers cfg))) (\<lambda>crdt.
     and_then (act (Opened (Conns ''view'' (View_Close crdt)))) (\<lambda>_.
     and_then (defers (Conns ''view'' (View_Close crdt))) (\<lambda>_.
     and_then (act (Opened Signals)) (\<lambda>_.
     and_then (defers Signals) (\<lambda>_.
     and_then (act (Goroutine ''Shutdown'')) (\<lambda>_.
     and_then (act (ListeningHTTP (cf_HTTPAddr cfg))) (\<lambda>_.
     and_then (ListenAndServe h (cf_HTTPAddr cfg)) (\<lambda>_.
     yields (cfg, router, crdt)))))))))))))))))"

subsection \<open>Every command is made of tidy steps\<close>

lemma tidy_let [tidy_steps]: "(\<And>x. tidy (f x)) \<Longrightarrow> tidy (Let v f)"
  by (simp add: Let_def)

lemma tidy_hand_over [tidy_steps]: "tidy (hand_over rs)"
  by (induction rs) (auto intro!: tidy_steps)

lemma tidy_worker_main: "tidy (worker_main h history)"
  unfolding worker_main_def by (auto intro!: tidy_steps)

lemma tidy_scheduler_main: "tidy (scheduler_main h tls_Listen files)"
  unfolding scheduler_main_def by (auto intro!: tidy_steps)

lemma tidy_observer_main: "tidy (observer_main h)"
  unfolding observer_main_def by (auto intro!: tidy_steps)

lemma tidy_statemanager_main: "tidy (statemanager_main h moment stub)"
  unfolding statemanager_main_def by (auto intro!: tidy_steps split: option.split)

lemma tidy_ListenAndServe [tidy_steps]: "tidy (ListenAndServe h addr)"
  unfolding ListenAndServe_def by (auto intro!: tidy_steps split: serve_end.split)

lemma tidy_gateway_main: "tidy (gateway_main h sched state)"
  unfolding gateway_main_def by (auto intro!: tidy_steps)

subsection \<open>Listening\<close>

lemma listens_let [listens]: "(\<And>x. x = v \<Longrightarrow> listens_with P (f x)) \<Longrightarrow> listens_with P (Let v f)"
  by (simp add: Let_def)

lemma listens_hand_over [listens]: "listens_with P (hand_over rs)"
  by (induction rs) (auto intro!: listens)

lemma hand_over_Next: "hand_over rs p = Next u q \<longleftrightarrow> q = p\<lparr>pr_trace := pr_trace p @ map Handed rs\<rparr>"
  by (induction rs arbitrary: p) (auto simp: flow_simps)

text \<open>The server configuration of a component.\<close>

definition server_creds :: "('c, 'p) host \<Rightarrow> string \<Rightarrow> ('c, 'p) tls_config option \<Rightarrow> bool" where
  "server_creds h component creds \<longleftrightarrow>
     (\<exists>cfg s. Load (h_viper h) (h_quote h) component = Inr cfg \<and> tls_Server (h_tls h) (cf_TLS cfg) = Inr s \<and> creds = Some s)"

lemma listens_worker: "listens_with (server_creds h ''worker'') (worker_main h history)"
  unfolding worker_main_def by (auto intro!: listens simp: went_on server_creds_def)

lemma listens_scheduler: "listens_with (server_creds h ''scheduler'') (scheduler_main h tls_Listen files)"
  unfolding scheduler_main_def by (auto intro!: listens simp: went_on server_creds_def)

lemma listens_observer: "listens_with (server_creds h ''observer'') (observer_main h)"
  unfolding observer_main_def by (auto intro!: listens simp: went_on server_creds_def)

lemma listens_statemanager: "listens_with (server_creds h ''statemanager'') (statemanager_main h moment stub)"
  unfolding statemanager_main_def by (auto intro!: listens simp: went_on server_creds_def split: option.split)

lemma listens_ListenAndServe [listens]: "listens_with P (ListenAndServe h addr)"
  unfolding ListenAndServe_def by (auto intro!: listens split: serve_end.split)

lemma listens_gateway: "listens_with (server_creds h ''gateway'') (gateway_main h sched state)"
  unfolding gateway_main_def by (auto intro!: listens)

lemma listens_stub: "listens_with (server_creds h component) (RunStub h component)"
  unfolding RunStub_def by (auto intro!: listens simp: went_on server_creds_def)

subsection \<open>The order of the end\<close>

text \<open>Whatever was opened at start-up is released after an event of the given kind.\<close>

definition released_after :: "(('c, 'p) event \<Rightarrow> bool) \<Rightarrow> ('c, 'p) event list \<Rightarrow> bool" where
  "released_after P tr \<longleftrightarrow> list_ex P tr \<and>
     list_all (\<lambda>e. case e of Released r \<Rightarrow> r = Signals | _ \<Rightarrow> True) (takeWhile (\<lambda>e. \<not> P e) tr)"

lemma worker_exit:
  "run_main (worker_main h history) = Next (cfg, svc, hb) q \<Longrightarrow>
     released_after (\<lambda>e. e = Drained (Drain (history svc) drainTimeout)) (pr_trace q) \<and> Stopped \<in> set (pr_trace q)"
  by (auto simp: run_main_def worker_main_def went_on Let_def released_after_def)

lemma Loop_New_cfg: "Loop_New ch dial cfg schedulers = Inr l \<Longrightarrow> lp_cfg l = cfg"
  by (cases "connect_all ''heartbeat'' ''schedulers configured (IRONWORK_SCHEDULERS)'' ch dial schedulers") (auto simp: Loop_New_def)

lemma worker_capacity:
  "run_main (worker_main h history) = Next (cfg, svc, hb) q \<Longrightarrow> hc_Capacity (lp_cfg hb) = WorkerServer_Capacity svc"
  by (auto simp: run_main_def worker_main_def went_on Let_def dest!: Loop_New_cfg)

text \<open>A raft member that started has opened its listener and its store.\<close>

lemma first_error_None: "first_error xs = None \<longleftrightarrow> (\<forall>(prefix, e) \<in> set xs. e = None)"
  by (induction xs rule: first_error.induct) auto

lemma Node_New_opens: "Node_New ch q cfg b = Inr x \<Longrightarrow> Node_opens cfg b = [RaftListener, BoltStore]"
  by (auto simp: Node_New_def Node_opens_def first_error_None split: option.splits)

lemma scheduler_exit:
  assumes "run_main (scheduler_main h tls_Listen files) = Next x q"
  shows "released_after (\<lambda>e. e = RaftLeft) (pr_trace q)"
    and "\<forall>r \<in> {RaftListener, BoltStore}. Handed r \<in> set (pr_trace q) \<and> Released r \<notin> set (pr_trace q)"
  using assms
  by (auto simp: run_main_def scheduler_main_def went_on hand_over_Next Let_def released_after_def dest!: Node_New_opens)

lemma observer_exit: "run_main (observer_main h) = Next x q \<Longrightarrow> released_after (\<lambda>e. e = Stopped) (pr_trace q)"
  by (auto simp: run_main_def observer_main_def went_on Let_def released_after_def)

lemma statemanager_exit:
  "run_main (statemanager_main h moment stub) = Next x q \<Longrightarrow> released_after (\<lambda>e. e = Stopped) (pr_trace q)"
  by (auto simp: run_main_def statemanager_main_def went_on Let_def released_after_def split: option.splits if_splits)

lemma ListenAndServe_Next:
  "ListenAndServe h addr p = Next u q \<longleftrightarrow> h_Serve h addr = Signalled \<and> q = p\<lparr>pr_trace := pr_trace p @ [ListenerClosed]\<rparr>"
  by (auto simp: ListenAndServe_def flow_simps split: serve_end.split)

text \<open>The gateway does not wait for the requests being served: nothing of its trace says that they ended.\<close>

lemma gateway_exit:
  "run_main (gateway_main h sched state) = Next x q \<Longrightarrow>
     released_after (\<lambda>e. e = ListenerClosed) (pr_trace q) \<and> Stopped \<notin> set (pr_trace q)"
  by (auto simp: run_main_def gateway_main_def went_on ListenAndServe_Next Let_def released_after_def)

subsection \<open>The services that the commands start\<close>

text \<open>
  A command that returned built the objects that the theories of its services are about, in which
  dialling always succeeds: connections are made lazily, so a refused \<open>grpc.NewClient\<close> ends the start-up.
\<close>

lemma dial_as_Inr: "dial_as h tls stub addr = Inr c \<Longrightarrow> c = stub addr"
  by (auto simp: dial_as_def map_sum_def split: sum.splits)

lemma dial_all_as:
  "dial_all (dial_as h tls stub) workers names d = Inr d' \<Longrightarrow> dial_all (\<lambda>addr. Inr (stub addr)) workers names d = Inr d'"
  by (induction names arbitrary: d) (auto simp: Let_def dest: dial_as_Inr split: sum.splits)

lemma dial_names_as:
  "dial_names pkg (dial_as h tls stub) addrs names ms = Inr ms' \<Longrightarrow> dial_names pkg (\<lambda>addr. Inr (stub addr)) addrs names ms = Inr ms'"
  by (induction names arbitrary: ms) (auto simp: Let_def dest: dial_as_Inr split: sum.splits)

lemma scheduler_wired:
  assumes "run_main (scheduler_main h tls_Listen files) = Next (cfg, reg, disp) q"
  shows "scheduler_dispatcher (h_order h) (cf_Workers cfg) = Inr disp" "reg = Registry_New workerStaleTTL workerDeadTTL"
proof -
  from assms obtain tls where d: "Dispatcher_New (h_order h) (dial_as h tls worker_client) (cf_Workers cfg) (Some candidates_of) = Inr disp"
    and "reg = Registry_New workerStaleTTL workerDeadTTL"
    by (auto simp: run_main_def scheduler_main_def went_on hand_over_Next Let_def)
  then show "reg = Registry_New workerStaleTTL workerDeadTTL" "scheduler_dispatcher (h_order h) (cf_Workers cfg) = Inr disp"
    by (auto simp: Dispatcher_New_def scheduler_dispatcher_def Let_def dest: dial_all_as split: if_splits)
qed

lemma worker_wired:
  assumes "run_main (worker_main h history) = Next (cfg, svc, hb) q"
  shows "Loop_New (h_order h) (\<lambda>addr. Inr (worker_client_at addr))
      \<lparr>hc_Instance = cf_Instance cfg, hc_Capacity = WorkerServer_Capacity svc\<rparr> (cf_Schedulers cfg) = Inr hb"
proof -
  from assms obtain tls where "Loop_New (h_order h) (dial_as h tls worker_client_at)
      \<lparr>hc_Instance = cf_Instance cfg, hc_Capacity = WorkerServer_Capacity svc\<rparr> (cf_Schedulers cfg) = Inr hb"
    by (auto simp: run_main_def worker_main_def went_on Let_def)
  then show ?thesis
    by (auto simp: Loop_New_def connect_all_def map_sum_def dest: dial_names_as split: if_splits sum.splits)
qed

subsection \<open>The commands together\<close>

text \<open>The trace of each command, by the name of its component.\<close>

definition command_traces where
  "command_traces h history tls_Listen files moment stub sched state =
     [(''worker'', flow_trace (run_main (worker_main h history))),
      (''scheduler'', flow_trace (run_main (scheduler_main h tls_Listen files))),
      (''observer'', flow_trace (run_main (observer_main h))),
      (''statemanager'', flow_trace (run_main (statemanager_main h moment stub))),
      (''gateway'', flow_trace (run_main (gateway_main h sched state)))]"

text \<open>A host with one scheduler, one worker and one statemanager, on which everything works.\<close>

definition ex_viper :: viper where
  "ex_viper =
     \<lparr>vp_GetString = (\<lambda>_ key.
        if key = ''instance'' then ''s1''
        else if key \<in> set [''schedulers'', ''raft_peers'', ''statemanagers'', ''workers''] then ''s1=s1:9443''
        else []),
      vp_GetInt = (\<lambda>_ _. 4)\<rparr>"

definition ex_config :: Config where
  "ex_config =
     \<lparr>cf_Component = ''scheduler'', cf_Instance = ''s1'', cf_HTTPAddr = [], cf_GRPCAddr = [], cf_DBDSN = [], cf_ObserverAddr = [],
      cf_Schedulers = fmupd ''s1'' ''s1:9443'' fmempty, cf_RaftAddr = [], cf_RaftPeers = fmupd ''s1'' ''s1:9443'' fmempty,
      cf_RaftDataDir = [], cf_Statemanagers = fmupd ''s1'' ''s1:9443'' fmempty, cf_StatemanagerAddr = [], cf_Targets = fmempty,
      cf_Workers = fmupd ''s1'' ''s1:9443'' fmempty, cf_Capacity = 4, cf_LogLevel = [],
      cf_TLS = \<lparr>CertFile = [], KeyFile = [], CAFile = []\<rparr>\<rparr>"

lemma ex_Load: "Load ex_viper (\<lambda>s. s) ''scheduler'' = Inr ex_config"
proof -
  have p: "parseTargets (\<lambda>s. s) ''s1=s1:9443'' = Inr (fmupd ''s1'' ''s1:9443'' fmempty)" "parseTargets (\<lambda>s. s) [] = Inr fmempty"
    by code_simp+
  show ?thesis by (simp add: Load_def ex_viper_def ex_config_def p invalid_def Let_def)
qed

definition ex_host :: "(string \<times> string list, string) host" where
  "ex_host =
     \<lparr>h_viper = ex_viper, h_quote = (\<lambda>s. s), h_ParseLevel = (\<lambda>_. Inr NoLevel), h_order = (\<lambda>_. []), h_tls = ex_tls_lib,
      h_pgxpool = (\<lambda>_. Inr ()), h_NewClient = (\<lambda>_ _. Inr ()), h_Listen = (\<lambda>_. Inr ()), h_Serve = (\<lambda>_. Signalled)\<rparr>"

definition ex_files :: raft_backends where
  "ex_files =
     \<lparr>rb_ServerTLS = None, rb_ClientTLS = None, rb_StreamLayer = None, rb_MkdirAll = None, rb_NewBoltStore = None,
      rb_NewFileSnapshotStore = None, rb_HasExistingState = Inr False, rb_NewRaft = None, rb_BootstrapCluster = Boot_ok\<rparr>"

lemma ex_worker_trace:
  "flow_trace (run_main (worker_main ex_host (\<lambda>svc _. svc))) =
     [Opened Pool, Opened (Conns ''reporter'' [[]]), Opened (Conns ''heartbeat'' [''s1:9443'']), Opened (Context ''heartbeat''),
      Goroutine ''heartbeat'', Opened Signals, Goroutine ''GracefulStop'',
      Listening [] (Some (projr (tls_Server ex_tls_lib \<lparr>CertFile = [], KeyFile = [], CAFile = []\<rparr>))) [''WorkerService'', ''HealthService''],
      Stopped, Released Signals, Drained True, Released (Context ''heartbeat''), Released (Conns ''heartbeat'' [''s1:9443'']),
      Released (Conns ''reporter'' [[]]), Released Pool]"
  by code_simp

text \<open>
  C36 Nothing talks to the cluster without a certificate of its CA.  Whatever the environment, the files
  and the network do, every gRPC server that a command starts has credentials, those made from the TLS
  files of its component: whoever completes a handshake with it, with any configuration, presented a certificate
  issued by a CA of the component's CA file and speaks at least TLS 1.3.  The raft transport of a
  scheduler refuses an address that is not host and port, and when it gets a connection, the server at
  the far end presented a certificate of that CA that covers the host of the dialled address.  (The
  gateway's HTTP listener, which is for clients outside the cluster, is not a gRPC server.)
\<close>

theorem cluster_mutual_tls:
  assumes "tls_documented issued covers handshake"
  shows "(\<forall>component tr addr creds services.
        (component, tr) \<in> set (command_traces h history tls_Listen files moment stub sched state) \<longrightarrow>
        Listening addr creds services \<in> set tr \<longrightarrow>
        (\<exists>cfg s. Load (h_viper h) (h_quote h) component = Inr cfg \<and> tls_Server (h_tls h) (cf_TLS cfg) = Inr s \<and> creds = Some s
           \<and> (\<forall>c v. handshake c s = Some v \<longrightarrow>
                (\<exists>caPEM pool x. tl_ReadFile (h_tls h) (CAFile (cf_TLS cfg)) = Inr caPEM \<and> tl_CertPool (h_tls h) caPEM = Some pool
                   \<and> x \<in> set (tc_Certificates c) \<and> issued x pool) \<and> VersionTLS13 \<le> v)))
    \<and> (\<forall>cfg s c l address peer v. Load (h_viper h) (h_quote h) ''scheduler'' = Inr cfg \<longrightarrow>
        tls_Server (h_tls h) (cf_TLS cfg) = Inr s \<longrightarrow> tls_Client (h_tls h) (cf_TLS cfg) = Inr c \<longrightarrow>
        newTLSStreamLayer tls_Listen (cf_RaftAddr cfg) (at_or [] (cf_RaftPeers cfg) (cf_Instance cfg)) s c = Inr l \<longrightarrow>
        stream_Dial (h_quote h) (tls_dialer listening handshake) l address = Inr (peer, v) \<longrightarrow>
        (\<exists>host port caPEM pool x. SplitHostPort address = Inr (host, port)
           \<and> tl_ReadFile (h_tls h) (CAFile (cf_TLS cfg)) = Inr caPEM \<and> tl_CertPool (h_tls h) caPEM = Some pool
           \<and> x \<in> set (tc_Certificates peer) \<and> issued x pool \<and> covers x host) \<and> VersionTLS13 \<le> v)"
proof (rule conjI)
  have own: "server_creds h component creds" if "(component, tr) \<in> set (command_traces h history tls_Listen files moment stub sched state)"
    "Listening addr creds services \<in> set tr" for component tr addr creds services
    using that
    by (auto simp: command_traces_def dest: run_main_listens [OF listens_worker] run_main_listens [OF listens_scheduler]
        run_main_listens [OF listens_observer] run_main_listens [OF listens_statemanager] run_main_listens [OF listens_gateway])
  show "\<forall>component tr addr creds services.
        (component, tr) \<in> set (command_traces h history tls_Listen files moment stub sched state) \<longrightarrow>
        Listening addr creds services \<in> set tr \<longrightarrow>
        (\<exists>cfg s. Load (h_viper h) (h_quote h) component = Inr cfg \<and> tls_Server (h_tls h) (cf_TLS cfg) = Inr s \<and> creds = Some s
           \<and> (\<forall>c v. handshake c s = Some v \<longrightarrow>
                (\<exists>caPEM pool x. tl_ReadFile (h_tls h) (CAFile (cf_TLS cfg)) = Inr caPEM \<and> tl_CertPool (h_tls h) caPEM = Some pool
                   \<and> x \<in> set (tc_Certificates c) \<and> issued x pool) \<and> VersionTLS13 \<le> v))"
  proof (intro allI impI)
    fix component tr addr creds services
    assume "(component, tr) \<in> set (command_traces h history tls_Listen files moment stub sched state)"
      "Listening addr creds services \<in> set tr"
    from own [OF this] obtain cfg s where "Load (h_viper h) (h_quote h) component = Inr cfg"
      and s: "tls_Server (h_tls h) (cf_TLS cfg) = Inr s" and "creds = Some s" unfolding server_creds_def by blast
    moreover have "(\<exists>caPEM pool x. tl_ReadFile (h_tls h) (CAFile (cf_TLS cfg)) = Inr caPEM \<and> tl_CertPool (h_tls h) caPEM = Some pool
        \<and> x \<in> set (tc_Certificates c) \<and> issued x pool) \<and> VersionTLS13 \<le> v" if "handshake c s = Some v" for c v
      using server_handshake [OF assms s that] by metis
    ultimately show "\<exists>cfg s. Load (h_viper h) (h_quote h) component = Inr cfg \<and> tls_Server (h_tls h) (cf_TLS cfg) = Inr s \<and> creds = Some s
           \<and> (\<forall>c v. handshake c s = Some v \<longrightarrow>
                (\<exists>caPEM pool x. tl_ReadFile (h_tls h) (CAFile (cf_TLS cfg)) = Inr caPEM \<and> tl_CertPool (h_tls h) caPEM = Some pool
                   \<and> x \<in> set (tc_Certificates c) \<and> issued x pool) \<and> VersionTLS13 \<le> v)" by blast
  qed
qed (intro allI impI conjI; erule (3) raft_dial [OF assms])

theorem cluster_mutual_tls_witness:
  "\<exists>s c l peer x y. Listening [] (Some s) [''WorkerService'', ''HealthService''] \<in> set (flow_trace (run_main (worker_main ex_host (\<lambda>svc _. svc))))
     \<and> tls_Client ex_tls_lib \<lparr>CertFile = [], KeyFile = [], CAFile = []\<rparr> = Inr c
     \<and> ex_handshake (c\<lparr>tc_ServerName := ''scheduler-2''\<rparr>) s = Some 772 \<and> x \<in> set (tc_Certificates c) \<and> fst x = ''ca''
     \<and> ex_handshake (c\<lparr>tc_Certificates := [(''other'', [])], tc_ServerName := ''scheduler-2''\<rparr>) s = None
     \<and> newTLSStreamLayer (\<lambda>_ _. Inr ()) [] ''s1:9443'' s c = Inr l
     \<and> stream_Dial (\<lambda>x. x) (tls_dialer (\<lambda>_. Some s) ex_handshake) l ''scheduler-2:9444'' = Inr (peer, 772)
     \<and> y \<in> set (tc_Certificates peer) \<and> ''scheduler-2'' \<in> set (snd y)"
proof -
  let ?p = "\<lparr>CertFile = [], KeyFile = [], CAFile = []\<rparr> :: TLSPaths"
  let ?s = "projr (tls_Server ex_tls_lib ?p)" and ?c = "projr (tls_Client ex_tls_lib ?p)"
  let ?l = "\<lparr>sl_Listener = (), sl_advertise = ''s1:9443'', sl_clientTLS = ?c\<rparr>"
  let ?w = "run_main (worker_main ex_host (\<lambda>svc _. svc))"
  have sc: "tls_Server ex_tls_lib ?p = Inr ?s" "tls_Client ex_tls_lib ?p = Inr ?c"
    by (simp_all add: tls_Server_def tls_Client_def tls_load_def ex_tls_lib_def)
  have l: "newTLSStreamLayer (\<lambda>_ _. Inr ()) [] ''s1:9443'' ?s ?c = Inr ?l" by (simp add: newTLSStreamLayer_def)
  have split: "SplitHostPort ''scheduler-2:9444'' = Inr (''scheduler-2'', ''9444'')" by code_simp
  have d: "stream_Dial (\<lambda>x. x) (tls_dialer (\<lambda>_. Some ?s) ex_handshake) ?l ''scheduler-2:9444'' = Inr (?s, 772)"
    "ex_handshake (?c\<lparr>tc_Certificates := [(''other'', [])], tc_ServerName := ''scheduler-2''\<rparr>) ?s = None"
    "ex_handshake (?c\<lparr>tc_ServerName := ''scheduler-2''\<rparr>) ?s = Some 772" by code_simp+
  have ca: "tl_CertPool ex_tls_lib x = Some ''ca''" "h_tls ex_host = ex_tls_lib" "h_quote ex_host = (\<lambda>x. x)" "h_viper ex_host = ex_viper" for x
    by (simp_all add: ex_tls_lib_def ex_host_def)
  note m = cluster_mutual_tls [OF ex_handshake_documented, of ex_host "\<lambda>svc _. svc" "\<lambda>_ _. Inr ()" ex_files After_exit "\<lambda>_. ()"
      "\<lambda>_. cn_client (ex_node [] (Inr None))" "\<lambda>_. replica_client (\<lambda>_. []) (\<lambda>s. s) []" "\<lambda>_. Some ?s"]
  have heard: "Listening [] (Some ?s) [''WorkerService'', ''HealthService''] \<in> set (flow_trace ?w)"
    by (simp add: ex_worker_trace)
  have "(''worker'', flow_trace ?w) \<in> set (command_traces ex_host (\<lambda>svc _. svc) (\<lambda>_ _. Inr ()) ex_files After_exit (\<lambda>_. ())
      (\<lambda>_. cn_client (ex_node [] (Inr None))) (\<lambda>_. replica_client (\<lambda>_. []) (\<lambda>s. s) []))"
    by (simp add: command_traces_def)
  from m [THEN conjunct1, rule_format, OF this heard] d(3) obtain x where x: "x \<in> set (tc_Certificates ?c)" "fst x = ''ca''"
    by (fastforce simp: ca)
  have "Load ex_viper (\<lambda>x. x) ''scheduler'' = Inr ex_config" by (rule ex_Load)
  moreover have "cf_TLS ex_config = ?p" "cf_RaftAddr ex_config = []" "at_or [] (cf_RaftPeers ex_config) (cf_Instance ex_config) = ''s1:9443''"
    by (simp_all add: ex_config_def at_or_def)
  ultimately obtain y where "y \<in> set (tc_Certificates ?s)" "''scheduler-2'' \<in> set (snd y)"
    using m [THEN conjunct2, rule_format, of ex_config ?s ?c ?l "''scheduler-2:9444''" ?s 772] sc l d(1) by (auto simp: ca split)
  with heard sc(2) d(3) x d(2) l d(1) show ?thesis by blast
qed

text \<open>
  C37 The commands clean up after themselves.  A \<open>main\<close> that returns has released every pool, connection,
  context and signal handler that it opened, each exactly once and in reverse order of
  opening, so that nothing is closed while something opened on top of it is open; and it releases
  nothing of its start-up before the end of its work: the worker after its server has stopped and the accepted jobs
  were drained or the drain timed out (the event says which), the scheduler after it has left the raft
  group, the observer and the statemanager after their server has stopped.  The gateway releases as soon as its listener is
  closed, possibly while requests are still being served: nothing in its trace says that they ended.  Exempt are the two
  resources that \<open>raftnode.New\<close> opens and hands to the raft library, the raft listener and the
  bolt store: no call of the repository closes them.  A command that dies of a fatal error or never
  returns has released nothing that was not the innermost open thing.  The worker announces to the
  schedulers the capacity that its server enforces.
\<close>

theorem services_clean_up:
  "(case run_main (worker_main h history) of
      Next (cfg, svc, hb) q \<Rightarrow> open_after [] (pr_trace q) = Some []
        \<and> released_after (\<lambda>e. e = Drained (Drain (history svc) drainTimeout)) (pr_trace q) \<and> Stopped \<in> set (pr_trace q)
        \<and> hc_Capacity (lp_cfg hb) = WorkerServer_Capacity svc
    | fl \<Rightarrow> open_after [] (flow_trace fl) \<noteq> None)
   \<and> (case run_main (scheduler_main h tls_Listen files) of
      Next x q \<Rightarrow> open_after [] (pr_trace q) = Some [] \<and> released_after (\<lambda>e. e = RaftLeft) (pr_trace q)
        \<and> (\<forall>r \<in> {RaftListener, BoltStore}. Handed r \<in> set (pr_trace q) \<and> Released r \<notin> set (pr_trace q))
    | fl \<Rightarrow> open_after [] (flow_trace fl) \<noteq> None)
   \<and> (case run_main (observer_main h) of
      Next x q \<Rightarrow> open_after [] (pr_trace q) = Some [] \<and> released_after (\<lambda>e. e = Stopped) (pr_trace q)
    | fl \<Rightarrow> open_after [] (flow_trace fl) \<noteq> None)
   \<and> (case run_main (statemanager_main h moment stub) of
      Next x q \<Rightarrow> open_after [] (pr_trace q) = Some [] \<and> released_after (\<lambda>e. e = Stopped) (pr_trace q)
    | fl \<Rightarrow> open_after [] (flow_trace fl) \<noteq> None)
   \<and> (case run_main (gateway_main h sched state) of
      Next x q \<Rightarrow> open_after [] (pr_trace q) = Some [] \<and> released_after (\<lambda>e. e = ListenerClosed) (pr_trace q)
        \<and> Stopped \<notin> set (pr_trace q)
    | fl \<Rightarrow> open_after [] (flow_trace fl) \<noteq> None)"
  using run_main_tidy [OF tidy_worker_main, of h history] worker_exit [of h history] worker_capacity [of h history]
    run_main_tidy [OF tidy_scheduler_main, of h tls_Listen files] scheduler_exit [of h tls_Listen files]
    run_main_tidy [OF tidy_observer_main, of h] observer_exit [of h]
    run_main_tidy [OF tidy_statemanager_main, of h moment stub] statemanager_exit [of h moment stub]
    run_main_tidy [OF tidy_gateway_main, of h sched state] gateway_exit [of h sched state]
  by (intro conjI) (simp_all split: flow.split prod.split)

text \<open>The worker and the scheduler of the host above return, and what they release is what they opened.\<close>

theorem services_clean_up_witness:
  "(\<exists>x q. run_main (worker_main ex_host (\<lambda>svc _. svc)) = Next x q \<and> open_after [] (pr_trace q) = Some []
      \<and> Drained True \<in> set (pr_trace q) \<and> Opened Pool \<in> set (pr_trace q))
   \<and> (\<exists>x q. run_main (scheduler_main ex_host (\<lambda>_ _. Inr ()) ex_files) = Next x q \<and> open_after [] (pr_trace q) = Some []
      \<and> Handed BoltStore \<in> set (pr_trace q) \<and> Released BoltStore \<notin> set (pr_trace q))"
proof -
  let ?w = "run_main (worker_main ex_host (\<lambda>svc _. svc))" and ?s = "run_main (scheduler_main ex_host (\<lambda>_ _. Inr ()) ex_files)"
  have "case ?w of Next _ _ \<Rightarrow> True | _ \<Rightarrow> False" "case ?s of Next _ _ \<Rightarrow> True | _ \<Rightarrow> False" by code_simp+
  then obtain x q y r where n: "?w = Next x q" "?s = Next y r" by (auto split: flow.splits)
  note sp = services_clean_up [where h = ex_host and history = "\<lambda>svc _. svc" and tls_Listen = "\<lambda>_ _. Inr ()" and files = ex_files
      and moment = After_exit and stub = "\<lambda>_. ()"
      and sched = "\<lambda>_. cn_client (ex_node [] (Inr None))" and state = "\<lambda>_. replica_client (\<lambda>_. []) (\<lambda>s. s) []"]
  have "pr_trace q = flow_trace ?w" by (simp add: n)
  then have "Drained True \<in> set (pr_trace q)" "Opened Pool \<in> set (pr_trace q)" by (simp_all add: ex_worker_trace)
  moreover have "open_after [] (pr_trace q) = Some []" using sp n(1) by (auto split: prod.splits)
  moreover have "open_after [] (pr_trace r) = Some []" "Handed BoltStore \<in> set (pr_trace r)" "Released BoltStore \<notin> set (pr_trace r)"
    using sp n(2) by auto
  ultimately show ?thesis using n by blast
qed

end
