(* ===== verification/Migrate.thy ===== *)
theory Migrate
  imports Process
begin

section \<open>The migrate command (cmd/migrate)\<close>

text \<open>
  \<open>src/cmd/migrate/main.go\<close>: wait for the database, then apply the migrations with the goose library.
  The loop has no bound of its own, so it is a partial function that may have no value.  What the
  outside contributes is the outcome of the ping in each round, the clock after it, and how the calls
  of goose end; every ping and every call of goose is taken to return, one that hangs is not modelled.
  Times are in nanoseconds.

  Shown: the loop ends within 32 pings whenever a sleep lasts as long as it has to, with success
  exactly if a ping succeeds while the clock is within the timeout.
\<close>

definition dbWaitTimeout :: int where "dbWaitTimeout = 60 * 1000000000"

definition sleepTime :: int where "sleepTime = 2 * 1000000000"

text \<open>The loop from round \<open>n\<close> on: the round of the first successful ping, or the error of the last one.\<close>

partial_function (option) wait_db ::
  "(nat \<Rightarrow> string option) \<Rightarrow> (nat \<Rightarrow> int) \<Rightarrow> int \<Rightarrow> nat \<Rightarrow> (nat \<times> string + nat) option" where
  "wait_db ping now deadline n =
     (case ping n of
        None \<Rightarrow> Some (Inr n)
      | Some e \<Rightarrow> if deadline < now n then Some (Inl (n, e)) else wait_db ping now deadline (Suc n))"

record migrate_host =
  mh_Open :: "string \<Rightarrow> string + unit"
  mh_start :: int
  mh_Ping :: "nat \<Rightarrow> string option"
  mh_now :: "nat \<Rightarrow> int"
  mh_SetDialect :: "string + unit"
  mh_Up :: "string + unit"
  mh_GetDBVersion :: "string + int"

definition migrate_main :: "('c, 'p) host \<Rightarrow> migrate_host \<Rightarrow> ('c, 'p, int) step" where
  "migrate_main h m =
     and_then (MustLoad h ''migrate'') (\<lambda>(cfg, log).
     and_then (or_fatal ''open database'' (mh_Open m (cf_DBDSN cfg))) (\<lambda>_.
     and_then (act (Opened Database)) (\<lambda>_.
     and_then (defers Database) (\<lambda>_.
     and_then (case wait_db (mh_Ping m) (mh_now m) (mh_start m + dbWaitTimeout) 0 of
                 None \<Rightarrow> Blocked
               | Some (Inl (n, e)) \<Rightarrow> and_then (act (Pinged (Suc n))) (\<lambda>_. or_fatal ''postgres unreachable'' (Inl e))
               | Some (Inr n) \<Rightarrow> act (Pinged (Suc n))) (\<lambda>_.
     and_then (or_fatal ''set goose dialect'' (mh_SetDialect m)) (\<lambda>_.
     and_then (or_fatal ''apply migrations'' (mh_Up m)) (\<lambda>_.
     and_then (act Applied) (\<lambda>_.
     and_then (or_fatal ''read migration version'' (mh_GetDBVersion m)) (\<lambda>version.
     and_then (act (Migrated version)) (\<lambda>_.
     yields version))))))))))"

subsection \<open>The waiting loop\<close>

text \<open>A ping failed in time: the loop goes round once more.\<close>

abbreviation goes_round :: "(nat \<Rightarrow> string option) \<Rightarrow> (nat \<Rightarrow> int) \<Rightarrow> int \<Rightarrow> nat \<Rightarrow> bool" where
  "goes_round ping now deadline k \<equiv> ping k \<noteq> None \<and> now k \<le> deadline"

lemma wait_db_skip:
  "(\<And>k. n \<le> k \<Longrightarrow> k < n + d \<Longrightarrow> goes_round ping now deadline k) \<Longrightarrow>
     wait_db ping now deadline n = wait_db ping now deadline (n + d)"
proof (induction d arbitrary: n)
  case (Suc d)
  have "goes_round ping now deadline n" using Suc.prems [of n] by simp
  then have "wait_db ping now deadline n = wait_db ping now deadline (Suc n)"
    by (subst wait_db.simps) auto
  also have "\<dots> = wait_db ping now deadline (Suc n + d)" by (rule Suc.IH) (use Suc.prems in auto)
  finally show ?case by simp
qed simp

text \<open>The first round in which the loop does not go round decides.\<close>

lemma wait_db_stops:
  assumes "\<not> goes_round ping now deadline n" "\<And>k. k < n \<Longrightarrow> goes_round ping now deadline k"
  shows "wait_db ping now deadline 0 = Some (case ping n of None \<Rightarrow> Inr n | Some e \<Rightarrow> Inl (n, e))"
proof -
  have "wait_db ping now deadline 0 = wait_db ping now deadline n"
    using wait_db_skip [of 0 n ping now deadline] assms(2) by simp
  also have "\<dots> = Some (case ping n of None \<Rightarrow> Inr n | Some e \<Rightarrow> Inl (n, e))"
    using assms(1) by (subst wait_db.simps) (auto split: option.split)
  finally show ?thesis .
qed

lemma clock_runs:
  assumes "start \<le> now 0" "\<And>n. now n + sleepTime \<le> now (Suc n)"
  shows "start + int n * sleepTime \<le> now n"
proof (induction n)
  case (Suc n)
  then show ?case using assms(2) [of n] by (simp add: algebra_simps)
qed (use assms(1) in simp)

lemma wait_db_ends:
  assumes "start \<le> now 0" "\<And>n. now n + sleepTime \<le> now (Suc n)"
  obtains n where "n \<le> 31" "\<not> goes_round ping now (start + dbWaitTimeout) n" "\<And>k. k < n \<Longrightarrow> goes_round ping now (start + dbWaitTimeout) k"
proof -
  let ?stop = "\<lambda>n. \<not> goes_round ping now (start + dbWaitTimeout) n"
  have "?stop 31" using clock_runs [OF assms, of 31] by (simp add: sleepTime_def dbWaitTimeout_def)
  then have "?stop (LEAST n. ?stop n)" "(LEAST n. ?stop n) \<le> 31" by (rule LeastI, rule Least_le)
  then show ?thesis using that [of "LEAST n. ?stop n"] not_less_Least [of _ ?stop] by blast
qed

subsection \<open>The command\<close>

text \<open>The command as one case distinction over what the outside does.\<close>

lemma migrate_run:
  fixes h :: "('c, 'p) host"
  defines "pr es \<equiv> \<lparr>pr_trace = Opened Database # es, pr_defers = [Database]\<rparr> :: ('c, 'p) process"
  shows "run_main (migrate_main h m) =
     (case Load (h_viper h) (h_quote h) ''migrate'' of
        Inl e \<Rightarrow> Died ''load config'' e \<lparr>pr_trace = [], pr_defers = []\<rparr>
      | Inr cfg \<Rightarrow> (case mh_Open m (cf_DBDSN cfg) of
        Inl e \<Rightarrow> Died ''open database'' e \<lparr>pr_trace = [], pr_defers = []\<rparr>
      | Inr _ \<Rightarrow> (case wait_db (mh_Ping m) (mh_now m) (mh_start m + dbWaitTimeout) 0 of
        None \<Rightarrow> Blocked (pr [])
      | Some (Inl (n, e)) \<Rightarrow> Died ''postgres unreachable'' e (pr [Pinged (Suc n)])
      | Some (Inr n) \<Rightarrow> (case mh_SetDialect m of
        Inl e \<Rightarrow> Died ''set goose dialect'' e (pr [Pinged (Suc n)])
      | Inr _ \<Rightarrow> (case mh_Up m of
        Inl e \<Rightarrow> Died ''apply migrations'' e (pr [Pinged (Suc n)])
      | Inr _ \<Rightarrow> (case mh_GetDBVersion m of
        Inl e \<Rightarrow> Died ''read migration version'' e (pr [Pinged (Suc n), Applied])
      | Inr version \<Rightarrow>
          Next version \<lparr>pr_trace = [Opened Database, Pinged (Suc n), Applied, Migrated version, Released Database], pr_defers = []\<rparr>))))))"
  by (simp add: run_main_def called_def migrate_main_def MustLoad_def and_then_def or_fatal_def act_def defers_def yields_def pr_def
      split: sum.split option.split prod.split)

text \<open>
  C38 The migration command ends.  When the clock starts before the first ping and each sleep of the
  loop lasts at least its two seconds, the command does not block, and it has pinged \<open>n + 1\<close> times if
  it got to the loop at all, at most 32 times.  It returns exactly if the configuration loads, the
  database opens, the last of these pings succeeds, and the calls of goose succeed; then it has
  reported the version and closed the database.  It gives up on the database exactly if all these pings failed, which
  happens only after the whole timeout, with the error of the last ping, and then it has applied nothing.
  Before that last ping every ping failed within the timeout.
\<close>

theorem migrate_ends:
  assumes clock: "mh_start m \<le> mh_now m 0" "\<And>n. mh_now m n + sleepTime \<le> mh_now m (Suc n)"
  shows "\<exists>n \<le> 31. (\<forall>k < n. mh_Ping m k \<noteq> None \<and> mh_now m k \<le> mh_start m + dbWaitTimeout)
    \<and> (\<forall>q. run_main (migrate_main h m) \<noteq> Blocked q)
    \<and> (\<forall>k. Pinged k \<in> set (flow_trace (run_main (migrate_main h m))) \<longrightarrow> k = Suc n)
    \<and> (\<forall>version q. run_main (migrate_main h m) = Next version q \<longleftrightarrow>
         (\<exists>cfg. Load (h_viper h) (h_quote h) ''migrate'' = Inr cfg \<and> mh_Open m (cf_DBDSN cfg) = Inr ())
         \<and> mh_Ping m n = None \<and> mh_SetDialect m = Inr () \<and> mh_Up m = Inr () \<and> mh_GetDBVersion m = Inr version
         \<and> q = \<lparr>pr_trace = [Opened Database, Pinged (Suc n), Applied, Migrated version, Released Database], pr_defers = []\<rparr>)
    \<and> (\<forall>e q. run_main (migrate_main h m) = Died ''postgres unreachable'' e q \<longleftrightarrow>
         (\<exists>cfg. Load (h_viper h) (h_quote h) ''migrate'' = Inr cfg \<and> mh_Open m (cf_DBDSN cfg) = Inr ())
         \<and> mh_Ping m n = Some e \<and> q = \<lparr>pr_trace = [Opened Database, Pinged (Suc n)], pr_defers = [Database]\<rparr>)
    \<and> (mh_Ping m n = None \<or> mh_start m + dbWaitTimeout < mh_now m n)"
proof -
  from wait_db_ends [OF clock, of "mh_Ping m"] obtain n where n: "n \<le> 31"
    "\<not> goes_round (mh_Ping m) (mh_now m) (mh_start m + dbWaitTimeout) n"
    "\<And>k. k < n \<Longrightarrow> goes_round (mh_Ping m) (mh_now m) (mh_start m + dbWaitTimeout) k" by blast
  note wait = wait_db_stops [where ping = "mh_Ping m" and now = "mh_now m" and n = n, OF n(2,3)]
  show ?thesis
  proof (intro exI [of _ n] conjI n(1))
    show "\<forall>k < n. mh_Ping m k \<noteq> None \<and> mh_now m k \<le> mh_start m + dbWaitTimeout" using n(3) by simp
    show "mh_Ping m n = None \<or> mh_start m + dbWaitTimeout < mh_now m n" using n(2) by auto
  qed (cases "mh_Ping m n"; auto simp: migrate_run wait split: sum.split)+
qed

text \<open>A clock that moves two seconds per round; the database is up from a given round on.\<close>

definition ex_migrate :: "nat \<Rightarrow> migrate_host" where
  "ex_migrate up =
     \<lparr>mh_Open = (\<lambda>_. Inr ()), mh_start = 0, mh_Ping = (\<lambda>n. if up \<le> n then None else Some ''refused''),
      mh_now = (\<lambda>n. int n * sleepTime), mh_SetDialect = Inr (), mh_Up = Inr (), mh_GetDBVersion = Inr 3\<rparr>"

definition ex_migrate_process :: "(unit, unit) host" where
  "ex_migrate_process =
     \<lparr>h_viper = \<lparr>vp_GetString = (\<lambda>_ _. []), vp_GetInt = (\<lambda>_ _. 0)\<rparr>, h_quote = (\<lambda>s. s), h_ParseLevel = Inl, h_order = (\<lambda>_. []),
      h_tls = \<lparr>tl_LoadX509KeyPair = (\<lambda>_ _. Inr ()), tl_ReadFile = Inr, tl_CertPool = (\<lambda>_. Some ())\<rparr>,
      h_pgxpool = (\<lambda>_. Inr ()), h_NewClient = (\<lambda>_ _. Inr ()), h_Listen = (\<lambda>_. Inr ()), h_Serve = (\<lambda>_. Never)\<rparr>"

theorem migrate_ends_witness:
  "(\<exists>q. run_main (migrate_main ex_migrate_process (ex_migrate 2)) = Next 3 q
      \<and> pr_trace q = [Opened Database, Pinged 3, Applied, Migrated 3, Released Database])
   \<and> (\<exists>q. run_main (migrate_main ex_migrate_process (ex_migrate 40)) = Died ''postgres unreachable'' ''refused'' q)"
proof -
  have load: "\<exists>cfg. Load (h_viper ex_migrate_process) (h_quote ex_migrate_process) ''migrate'' = Inr cfg \<and> mh_Open (ex_migrate u) (cf_DBDSN cfg) = Inr ()" for u
  proof -
    have "parseTargets (\<lambda>s. s) [] = Inr fmempty" by code_simp
    then show ?thesis by (simp add: Load_def ex_migrate_process_def ex_migrate_def invalid_def Let_def)
  qed
  have start: "mh_start (ex_migrate u) \<le> mh_now (ex_migrate u) 0"
    and steps: "mh_now (ex_migrate u) n + sleepTime \<le> mh_now (ex_migrate u) (Suc n)" for u n
    by (simp_all add: ex_migrate_def algebra_simps)
  note m = migrate_ends [OF start steps, of _ ex_migrate_process]
  let ?run = "\<lambda>u. run_main (migrate_main ex_migrate_process (ex_migrate u))"
  obtain n where n: "\<forall>k < n. mh_Ping (ex_migrate 2) k \<noteq> None"
    "\<And>q. mh_Ping (ex_migrate 2) n = None \<Longrightarrow> mh_SetDialect (ex_migrate 2) = Inr () \<Longrightarrow> mh_Up (ex_migrate 2) = Inr () \<Longrightarrow>
       mh_GetDBVersion (ex_migrate 2) = Inr 3 \<Longrightarrow>
       q = \<lparr>pr_trace = [Opened Database, Pinged (Suc n), Applied, Migrated 3, Released Database], pr_defers = []\<rparr> \<Longrightarrow> ?run 2 = Next 3 q"
    "mh_Ping (ex_migrate 2) n = None \<or> mh_start (ex_migrate 2) + dbWaitTimeout < mh_now (ex_migrate 2) n"
    using m [of 2] load [of 2] by metis
  obtain n' where n': "n' \<le> 31" "\<And>e q. mh_Ping (ex_migrate 40) n' = Some e \<Longrightarrow>
       q = \<lparr>pr_trace = [Opened Database, Pinged (Suc n')], pr_defers = [Database]\<rparr> \<Longrightarrow> ?run 40 = Died ''postgres unreachable'' e q"
    using m [of 40] load [of 40] by metis
  have "\<not> 2 < n" using n(1) by (auto simp: ex_migrate_def)
  moreover have "2 \<le> n" using n(3) by (auto simp: ex_migrate_def dbWaitTimeout_def sleepTime_def split: if_splits)
  ultimately have "n = 2" by simp
  then show ?thesis using n(2) n' by (simp add: ex_migrate_def)
qed

end
