(* ===== verification/Spec2Isabelle.thy ===== *)
theory Spec2Isabelle
  imports Gossip Pipeline Completion Heartbeat Config JobApi Commands Migrate
begin

text \<open>
  Verification of Ironwork, a distributed job scheduler (Go, under \<open>src/\<close>).

  \<^bold>\<open>The program.\<close>  A gateway takes jobs over HTTP and routes them to whichever scheduler leads a Raft
  group.  The leader writes a job and its dispatch command in one transaction (\<open>store\<close>); its relay
  (\<open>outbox\<close>) drains the commands to workers through the dispatcher (\<open>dispatch\<close>), ordered by the load
  that workers report in heartbeats (\<open>heartbeat\<close>, \<open>registry\<close>); its reaper takes jobs back from dead
  workers; placements are recorded in the Raft log (\<open>raftnode\<close>).  A worker (\<open>workersvc\<close>) executes at
  most \<open>capacity\<close> jobs at a time and reports outcomes (\<open>statereport\<close>) to statemanagers (\<open>statesvc\<close>), which
  keep them in replicated counters and a last-writer-wins map (\<open>crdt\<close>) and exchange them by gossip.
  The gateway also shows the replicas (\<open>crdtview\<close>), the schedulers (\<open>leaderclient\<close>) and the health that
  the observer collects (\<open>observersvc\<close>, \<open>healthsvc\<close>).  All of them talk over mutual TLS (\<open>tlsutil\<close>) and share
  start-up, serving and shutdown (\<open>app\<close>); a one-shot command migrates the database first.

  \<^bold>\<open>Theories and code.\<close>  A Go method is a function that returns the updated receiver, an error a value
  of a sum type, an interface a record of operations over a state \<open>'w\<close> of everything behind it.

  \<^item> \<open>Prelude\<close>: Go maps as finite maps with the iteration order as an argument (\<open>choice\<close>), rpc errors,
    decimal text, shared lemmas (\<open>go_loops\<close>: closed forms of loops over maps).
  \<^item> \<open>Convergence\<close>: the interface of a mergeable state (\<open>merge_laws\<close>; \<open>merge_pair\<close> for two of them): order
    and repetition of merges do not matter, a push-pull exchange makes two replicas equal.
  \<^item> \<open>Crdt\<close> (\<open>internal/crdt\<close>): \<open>GCounter\<close> with 64-bit shards, the bounded \<open>LWWMap\<close>; both are instances of
    \<open>merge_laws\<close>.  \<open>StateSvc\<close> (\<open>internal/statesvc\<close>, \<open>internal/statereport\<close>): one replica and its gossip tick.
    \<open>Gossip\<close>: any number of replicas as a step relation with lost and late messages: no increment is lost.
    \<open>CrdtView\<close> (\<open>internal/crdtview\<close>): what the dashboard shows of them.
  \<^item> \<open>Store\<close> (\<open>internal/store\<close>, \<open>migrations\<close>): the SQL statements on rows; each round trip of a
    transaction and the reading of the rows of a query may fail, a commit may fail before or after its effect.
  \<^item> \<open>Registry\<close>, \<open>WorkerSvc\<close>, \<open>Dispatch\<close>, \<open>Relay\<close>, \<open>Reaper\<close> (\<open>internal/registry\<close>, \<open>workersvc\<close>, \<open>dispatch\<close>, \<open>outbox\<close>,
    \<open>reaper\<close>).  \<open>WorkerSvc\<close> has the handler and the background run as functions and as interleaved atomic
    steps; \<open>JobPayload\<close> decodes what the stub executes.  The relay and the reaper are verified against
    the interfaces \<open>relay_laws\<close> and \<open>reaper_laws\<close>; \<open>Registry\<close> provides \<open>liveness_table\<close>.
  \<^item> \<open>Scheduler\<close> (\<open>cmd/scheduler/main.go\<close>): store, registry, dispatcher, relay, reaper and workers wired
    together over one world; interprets \<open>relay_laws\<close> and \<open>reaper_laws\<close>.  \<open>Pipeline\<close>: all processes on
    one database as a step relation, which the relay code refines.  \<open>Completion\<close>: one job from its command
    through dispatch, execution and report to its recorded outcome.
  \<^item> \<open>Json\<close>, \<open>GoTime\<close>: what the code uses of \<open>encoding/json\<close> and of \<open>time\<close> texts.  \<open>RaftNode\<close>
    (\<open>internal/raftnode\<close>): the replicated state machine with its JSON log entries and snapshots, applying and
    bootstrapping.
  \<^item> \<open>ProtoConv\<close>, \<open>SchedulerSvc\<close> (\<open>internal/protoconv\<close>, \<open>schedulersvc\<close>): conversions and the handlers, with
    the interface \<open>job_store\<close> of the job handler.  \<open>Clients\<close>: dialling, closing and fan-out that three
    clients share.  \<open>LeaderClient\<close> (\<open>internal/leaderclient\<close>): routing with retries.  \<open>Submission\<close>: the router over
    schedulers on one store (interprets \<open>job_store\<close>).  \<open>Heartbeat\<close> (\<open>internal/heartbeat\<close>): the loop over the
    registries of all schedulers.
  \<^item> \<open>Config\<close> (\<open>internal/config\<close>), \<open>Observer\<close> (\<open>internal/observersvc\<close>, \<open>healthsvc\<close>), \<open>Gateway\<close>
    (\<open>internal/gatewayhttp\<close>): loading, cluster health, the REST handlers.  \<open>JobApi\<close>: jobs from the HTTP body to
    the rows of the store and back.
  \<^item> \<open>Transport\<close> (\<open>internal/tlsutil\<close>, \<open>raftnode/streamlayer.go\<close>): TLS configurations and the raft transport's
    dialling.  \<open>Process\<close> (\<open>internal/app\<close>, \<open>internal/logging\<close>): a command as steps on a process, which is
    the trace of what it did and the stack of its deferred calls; a step goes on, dies of a fatal error or
    blocks.  \<open>Commands\<close> (\<open>cmd/worker\<close>, \<open>scheduler\<close>, \<open>observer\<close>, \<open>statemanager\<close>, \<open>gateway\<close>): the \<open>main\<close> functions in
    these steps, calling the constructors of the other theories; what a scheduler or worker that came up is
    built from is what those theories are about (\<open>scheduler_wired\<close>, \<open>worker_wired\<close>).  \<open>Migrate\<close> (\<open>cmd/migrate\<close>): waiting for
    the database and applying the migrations.

  \<^bold>\<open>What is shown.\<close>  Dispatch intent is never lost under crashes, lost answers and duplicates
  (\<open>intent_never_lost\<close>), the relay code only makes steps of that model (\<open>relay_refines_pipeline\<close>) and, with
  an answering store, resolves every command (\<open>relay_resolves_all\<close>); with a candidate that has a slot the job runs to the outcome
  its payload asks for (\<open>job_runs_end_to_end\<close>).  Reports are counted exactly, replicas
  that agree show the true totals (\<open>no_increment_lost\<close>, \<open>converged_total\<close>, \<open>Fetch_converged_total\<close>).  A worker
  never exceeds its capacity (\<open>capacity_respected\<close>).  Store writes are atomic and keep the database
  well-formed; a routed submission makes at most one job more than answers were lost, and
  succeeds through an election; what was posted is what is read (\<open>post_then_get\<close>).  Raft replay and
  snapshots agree; configuration, health and leader display mean what they say.
  Every gRPC server is behind mutual TLS and raft members are authenticated by host (\<open>cluster_mutual_tls\<close>);
  a \<open>main\<close> that returns has released what it opened, innermost first and at the end of its work, but for the raft
  listener and the bolt store, which it hands to the raft library (\<open>services_clean_up\<close>); the
  migration command ends (\<open>migrate_ends\<close>).  Where the code does
  not do what it says, a lemma shows it: \<open>prune_order_dependent\<close>, \<open>restart_loses_increments\<close>,
  \<open>abandon_strands_job\<close>, \<open>one_sweep_starts_twice\<close>, \<open>sleep_overflow\<close>, \<open>routed_submit_twice\<close>,
  \<open>gateway_exit\<close> (the gateway does not wait for requests being served), \<open>scheduler_exit\<close> (the bolt store is not
  closed).

  \<^bold>\<open>Bounds and termination.\<close>  All functions are total but \<open>wait_db\<close>, a partial function for the loop of the
  migration command, which is shown to end when sleeping takes time.  Loops over data are structural; \<open>prune\<close>, the JSON
  and text scanners and decimal printing have measures.  \<open>json_first\<close> and \<open>json_text\<close> run the parser with fuel
  derived from the length of the input, which \<open>json_first_iff\<close> and \<open>json_text_iff\<close> show to be enough: more
  never changes the result.  The router's rounds and the nesting depth of JSON are bounds of the code.
  Endless loops (relay, reaper, heartbeat, gossip) are modelled by their rounds, in any number.  Integers
  have the width of the code where they can wrap: 64-bit shards and durations, the 32-bit in-flight
  counter, the 64-bit round-robin counter.

  \<^bold>\<open>Parameters.\<close>  Code outside the repository is an argument: what Postgres answers (\<open>pg\<close>: failures,
  generated ids, row order, clock), the raft library, grpc dialling and delivery, viper, the uuid parser,
  texts of foreign errors, the clock and the interleaving.  \<open>host\<close> collects what a command meets outside:
  environment, files, network, and how serving ends; the TLS handshake is a function with its documented
  guarantees (\<open>tls_documented\<close>).

  \<^bold>\<open>Not modelled.\<close>  The text of log lines and generated protobuf code.  The trace of a command is that of its
  \<open>main\<close>; its goroutines appear as started, and what they do is in the theories of their packages.
  Deadlines of contexts appear as failed calls; a call of a library or of the database that never returns is not modelled,
  but for serving.  Replicas of the statemanager do not restart in \<open>Gossip\<close>, and nothing is reported or gossiped while
  the dashboard is fetched.
  The JSON text of HTTP responses and the matching of URLs are the libraries' and not modelled; tables
  are not partitioned.
\<close>

end
